(* ===== verification/Prelude.thy ===== *)
theory Prelude
  imports Main "HOL-Library.Word"
begin

text \<open>
  Shared vocabulary of the development: bytes, the positional encodings of Go's
  \<^verbatim>\<open>encoding/binary\<close> package (big-endian for the DAP messages, little-endian for the VDAF
  layer), and the generic facts on them that the components use.

  The lemma collections: \<open>out_simps\<close> computes what a message writer emits,
  \<open>read_simps\<close> computes what a reader returns on bytes it can see the front of.
\<close>

named_theorems out_simps "what the writers of the wire layer emit"
named_theorems read_simps "what the readers of the wire layer return"

type_synonym byte = "8 word"
type_synonym bytes = "byte list"

subsection \<open>Positional encodings\<close>

text \<open>\<open>be n x\<close>: the \<open>n\<close> big-endian bytes of \<open>x\<close> (the higher digits of \<open>x\<close> are cut off,
  as the conversions of the code cut them off); \<open>be_val\<close>: the number they denote.\<close>

primrec be :: "nat \<Rightarrow> nat \<Rightarrow> bytes" where
  "be 0 x = []"
| "be (Suc n) x = be n (x div 256) @ [word_of_nat x]"

primrec le :: "nat \<Rightarrow> nat \<Rightarrow> bytes" where
  "le 0 x = []"
| "le (Suc n) x = word_of_nat x # le n (x div 256)"

definition be_val :: "bytes \<Rightarrow> nat" where
  "be_val bs = foldl (\<lambda>a b. a * 256 + unat b) 0 bs"

primrec le_val :: "bytes \<Rightarrow> nat" where
  "le_val [] = 0"
| "le_val (b # bs) = unat b + 256 * le_val bs"

lemma length_be [simp]: "length (be n x) = n"
  by (induction n arbitrary: x) auto

lemma length_le [simp]: "length (le n x) = n"
  by (induction n arbitrary: x) auto

lemma be_eq_Nil_iff [simp]: "be n x = [] \<longleftrightarrow> n = 0"
  by (metis length_0_conv length_be)

lemma le_eq_Nil_iff [simp]: "le n x = [] \<longleftrightarrow> n = 0"
  by (metis length_0_conv length_le)

lemma be_val_Nil [simp]: "be_val [] = 0"
  by (simp add: be_val_def)

lemma be_val_snoc [simp]: "be_val (bs @ [b]) = be_val bs * 256 + unat b"
  by (simp add: be_val_def)

lemma unat_byte_mod: "unat (word_of_nat x :: byte) = x mod 256"
  by (simp add: unat_of_nat)

lemma byte_bound: "unat (b :: byte) < 256"
  using unsigned_less [of b] by simp

lemma byte_eqI: "unat (b :: byte) = x mod 256 \<Longrightarrow> word_of_nat x = b"
  by (simp add: word_unat_eq_iff unat_byte_mod)

lemma be_val_be: "be_val (be n x) = x mod 256 ^ n"
proof (induction n arbitrary: x)
  case 0
  show ?case by simp
next
  case (Suc n)
  have "be_val (be (Suc n) x) = (x div 256) mod 256 ^ n * 256 + x mod 256"
    by (simp add: Suc.IH unat_byte_mod)
  also have "\<dots> = x mod (256 * 256 ^ n)"
    by (simp add: mod_mult2_eq)
  finally show ?case by simp
qed

lemma be_val_bound: "be_val bs < 256 ^ length bs"
proof (induction bs rule: rev_induct)
  case Nil
  show ?case by simp
next
  case (snoc b bs)
  have "be_val bs * 256 + unat b < (be_val bs + 1) * 256"
    using byte_bound [of b] by simp
  also have "\<dots> \<le> 256 ^ length bs * 256"
    using snoc.IH by (intro mult_le_mono1) simp
  finally show ?case by simp
qed

lemma be_be_val: "length bs = n \<Longrightarrow> be n (be_val bs) = bs"
proof (induction n arbitrary: bs)
  case 0
  then show ?case by simp
next
  case (Suc n)
  then obtain cs c where bs: "bs = cs @ [c]" and len: "length cs = n"
    by (metis length_Suc_conv_rev)
  have q: "(be_val cs * 256 + unat c) div 256 = be_val cs"
    and r: "(be_val cs * 256 + unat c) mod 256 = unat c"
    using byte_bound [of c] by simp_all
  from r have "word_of_nat (be_val cs * 256 + unat c) = c"
    by (intro byte_eqI) simp
  with q show ?case
    by (simp only: bs be_val_snoc be.simps Suc.IH [OF len])
qed

lemma le_val_le: "le_val (le n x) = x mod 256 ^ n"
  by (induction n arbitrary: x) (simp_all add: unat_byte_mod mod_mult2_eq)

lemma le_val_bound: "le_val bs < 256 ^ length bs"
proof (induction bs)
  case Nil
  show ?case by simp
next
  case (Cons b bs)
  have "unat b + 256 * le_val bs < 256 * (le_val bs + 1)"
    using byte_bound [of b] by simp
  also have "\<dots> \<le> 256 * 256 ^ length bs"
    using Cons.IH by (intro mult_le_mono2) simp
  finally show ?case by simp
qed

lemma le_le_val: "length bs = n \<Longrightarrow> le n (le_val bs) = bs"
proof (induction n arbitrary: bs)
  case 0
  then show ?case by simp
next
  case (Suc n)
  then obtain c cs where bs: "bs = c # cs" and len: "length cs = n"
    by (metis length_Suc_conv)
  have q: "(unat c + 256 * le_val cs) div 256 = le_val cs"
    and r: "(unat c + 256 * le_val cs) mod 256 = unat c"
    using byte_bound [of c] by simp_all
  from r have "word_of_nat (unat c + 256 * le_val cs) = c"
    by (intro byte_eqI) simp
  with q show ?case
    by (simp only: bs le_val.simps le.simps Suc.IH [OF len])
qed

subsection \<open>Reading a prefix\<close>

lemma length_ge_take_drop:
  assumes "n \<le> length s"
  obtains a r where "s = a @ r" and "length a = n"
  using assms by (metis append_take_drop_id length_take min.absorb2)

lemma unat_mod_len: "unat (w :: 'a::len word) mod 2 ^ LENGTH('a) = unat w"
  using unsigned_less [of w] by simp

lemma be_val_single [simp]: "be_val [b] = unat b"
  by (simp add: be_val_def)

text \<open>A word and its big-endian bytes, where the width is a whole number of bytes.\<close>

lemma word_be_val:
  fixes w :: "'w::len word"
  assumes "256 ^ n = (2::nat) ^ LENGTH('w)"
  shows "word_of_nat (be_val (be n (unat w))) = w"
  using unat_mod_len [of w] by (simp add: be_val_be assms)

lemma be_unat_inject:
  assumes "256 ^ n = (2::nat) ^ LENGTH('w)" and "be n (unat v) = be n (unat w)"
  shows "v = (w :: 'w::len word)"
proof -
  have "word_of_nat (be_val (be n (unat v))) = (word_of_nat (be_val (be n (unat w))) :: 'w word)"
    by (simp only: assms(2))
  then show ?thesis by (simp only: word_be_val [OF assms(1)])
qed

lemma be_word_be_val:
  assumes "n \<le> length s" and "256 ^ n = (2::nat) ^ LENGTH('w)"
    and "(w :: 'w::len word) = word_of_nat (be_val (take n s))"
  shows "be n (unat w) @ drop n s = s"
proof -
  have "be_val (take n s) < 256 ^ n"
    using be_val_bound [of "take n s"] assms(1) by (simp add: min_absorb2)
  then have "unat w = be_val (take n s)"
    using assms(2,3) by (simp add: unat_of_nat)
  then show ?thesis using assms(1) by (simp add: be_be_val)
qed

lemma length_prefix_split:
  assumes "n \<le> length s" and "be_val (take n s) \<le> length s - n"
    and "w = take (be_val (take n s)) (drop n s)" and "r = drop (be_val (take n s)) (drop n s)"
  shows "length w < 256 ^ n \<and> s = be n (length w) @ w @ r"
proof -
  have len: "length w = be_val (take n s)" using assms(2,3) by simp
  moreover have "be_val (take n s) < 256 ^ n"
    using be_val_bound [of "take n s"] assms(1) by (simp add: min_absorb2)
  moreover have "be n (be_val (take n s)) = take n s" using assms(1) by (simp add: be_be_val)
  moreover have "w @ r = drop n s" using assms(3,4) by (simp only: append_take_drop_id)
  ultimately show ?thesis by simp
qed

lemma option_eqI: "(\<And>e. x = Some e \<longleftrightarrow> y = Some e) \<Longrightarrow> x = y"
  by (cases x; cases y) auto

end
