(* ===== verification/Goldilocks.thy ===== *)
theory Goldilocks
  imports Prelude
begin

text \<open>
  The mathematical field that \<^verbatim>\<open>pkg/vdaf/field\<close> computes in: the residues modulo
  \<open>p = 2 ^ 64 - 2 ^ 32 + 1\<close>. Nothing here models code; the type \<open>gf\<close> is the abstract
  specification that the word-level operations of theory Field64 are proved to implement.

  That every non-zero residue has an inverse is not assumed: 7 is shown to have order exactly
  \<open>p - 1\<close> (Lucas' criterion, with the factorisation
  \<open>p - 1 = 2 ^ 32 * 3 * 5 * 17 * 257 * 65537\<close>), so its powers exhaust the non-zero residues.
  With that, \<open>gf\<close> is an instance of the library's class \<open>field\<close>.
\<close>

abbreviation P :: int where "P \<equiv> 18446744069414584321"

typedef gf = "{0..<P}"
  by (rule exI [of _ 0]) simp

definition gf_of :: "int \<Rightarrow> gf" where
  "gf_of x = Abs_gf (x mod P)"

lemma rep_gf_of [simp]: "Rep_gf (gf_of x) = x mod P"
  by (simp add: gf_of_def Abs_gf_inverse)

lemma rep_bounds: "0 \<le> Rep_gf a" "Rep_gf a < P"
  using Rep_gf [of a] by auto

lemma rep_mod [simp]: "Rep_gf a mod P = Rep_gf a"
  using rep_bounds [of a] by simp

lemma gf_eq_iff: "a = b \<longleftrightarrow> Rep_gf a = Rep_gf b"
  by (simp add: Rep_gf_inject)

lemma gf_of_rep [simp]: "gf_of (Rep_gf a) = a"
  by (simp add: gf_eq_iff)

lemma gf_of_eq_iff: "gf_of x = gf_of y \<longleftrightarrow> x mod P = y mod P"
  by (simp add: gf_eq_iff)

instantiation gf :: comm_ring_1
begin

definition zero_gf :: gf where "0 = gf_of 0"
definition one_gf :: gf where "1 = gf_of 1"
definition plus_gf :: "gf \<Rightarrow> gf \<Rightarrow> gf" where "a + b = gf_of (Rep_gf a + Rep_gf b)"
definition minus_gf :: "gf \<Rightarrow> gf \<Rightarrow> gf" where "a - b = gf_of (Rep_gf a - Rep_gf b)"
definition uminus_gf :: "gf \<Rightarrow> gf" where "- a = gf_of (- Rep_gf a)"
definition times_gf :: "gf \<Rightarrow> gf \<Rightarrow> gf" where "a * b = gf_of (Rep_gf a * Rep_gf b)"

instance
proof
  fix a b c :: gf
  show "a * b * c = a * (b * c)" "a + b + c = a + (b + c)"
    by (simp_all add: gf_eq_iff times_gf_def plus_gf_def mod_simps ac_simps)
  show "a * b = b * a" "a + b = b + a"
    by (simp_all add: gf_eq_iff times_gf_def plus_gf_def ac_simps)
  show "1 * a = a" "0 + a = a"
    by (simp_all add: gf_eq_iff times_gf_def plus_gf_def one_gf_def zero_gf_def)
  show "- a + a = 0"
    by (simp add: gf_eq_iff plus_gf_def uminus_gf_def zero_gf_def mod_simps)
  show "a - b = a + - b"
    by (simp add: gf_eq_iff plus_gf_def uminus_gf_def minus_gf_def mod_simps)
  show "(a + b) * c = a * c + b * c"
    by (simp add: gf_eq_iff plus_gf_def times_gf_def mod_simps algebra_simps)
  show "(0::gf) \<noteq> 1"
    by (simp add: gf_eq_iff zero_gf_def one_gf_def)
qed

end

lemma gf_of_ring:
  "gf_of (x + y) = gf_of x + gf_of y"
  "gf_of (x - y) = gf_of x - gf_of y"
  "gf_of (x * y) = gf_of x * gf_of y"
  "gf_of (- x) = - gf_of x"
  "gf_of 0 = 0"
  "gf_of 1 = 1"
  by (simp_all add: gf_eq_iff plus_gf_def minus_gf_def times_gf_def uminus_gf_def
      zero_gf_def one_gf_def mod_simps)

lemma gf_of_mod [simp]: "gf_of (x mod P) = gf_of x"
  by (simp add: gf_eq_iff)

lemma gf_of_P: "gf_of P = 0"
  by (simp add: gf_eq_iff zero_gf_def)

lemma gf_of_power: "gf_of (x ^ n) = gf_of x ^ n"
  by (induction n) (simp_all add: gf_of_ring)

lemma of_nat_gf: "of_nat n = gf_of (int n)"
  by (induction n) (simp_all add: gf_of_ring)

lemma of_int_gf: "of_int z = gf_of z"
  by (cases z rule: int_cases2) (simp_all add: gf_of_ring of_nat_gf)

lemma numeral_gf: "numeral k = gf_of (numeral k)"
  using of_nat_gf [of "numeral k"] by simp

lemma UNIV_gf: "(UNIV :: gf set) = gf_of ` {0..<P}"
proof (intro equalityI subsetI)
  fix a :: gf
  have "a = gf_of (Rep_gf a)" by simp
  then show "a \<in> gf_of ` {0..<P}" using rep_bounds [of a] by (blast intro: atLeastLessThan_iff [THEN iffD2])
qed simp

lemma finite_gf [simp]: "finite (A :: gf set)"
  by (rule finite_subset [OF subset_UNIV]) (simp add: UNIV_gf)

lemma card_gf: "card (UNIV :: gf set) = nat P"
proof -
  have "inj_on gf_of {0..<P}"
    by (rule inj_onI) (simp add: gf_of_eq_iff)
  then show ?thesis by (simp add: UNIV_gf card_image)
qed

subsection \<open>Modular powers by repeated squaring\<close>

text \<open>The reduction folds the digits above \<open>2 ^ 64\<close> and \<open>2 ^ 96\<close> back instead of dividing;
  it keeps the residue, not the canonical representative.\<close>

definition fold_down :: "int \<Rightarrow> int" where
  "fold_down x = take_bit 64 x + 4294967295 * take_bit 32 (drop_bit 64 x) - drop_bit 96 x"

lemma gf_of_fold_down [simp]: "gf_of (fold_down x) = gf_of x"
proof -
  define y where "y = drop_bit 64 x"
  have "drop_bit 96 x = drop_bit 32 y"
    by (simp add: y_def)
  then have y: "y = take_bit 32 y + 4294967296 * drop_bit 96 x"
    by (simp add: take_bit_eq_mod drop_bit_eq_div)
  have "x = take_bit 64 x + 18446744073709551616 * y"
    by (simp add: y_def take_bit_eq_mod drop_bit_eq_div)
  also have "\<dots> = take_bit 64 x + 18446744073709551616 * (take_bit 32 y + 4294967296 * drop_bit 96 x)"
    using y by simp
  also have "\<dots> = fold_down x + P * (take_bit 32 y + 4294967297 * drop_bit 96 x)"
    by (simp add: fold_down_def y_def [symmetric] algebra_simps)
  finally have "x = fold_down x + P * (take_bit 32 y + 4294967297 * drop_bit 96 x)" .
  then have "x mod P = fold_down x mod P"
    by (metis mod_mult_self2)
  then show ?thesis by (simp add: gf_of_eq_iff)
qed

primrec pown :: "int \<Rightarrow> num \<Rightarrow> int" where
  "pown b num.One = b"
| "pown b (num.Bit0 n) = pown (fold_down (b * b)) n"
| "pown b (num.Bit1 n) = fold_down (b * pown (fold_down (b * b)) n)"

lemma gf_of_pown: "gf_of (pown b n) = gf_of b ^ numeral n"
proof (induction n arbitrary: b)
  case One
  show ?case by simp
next
  case (Bit0 n)
  show ?case
    by (simp add: Bit0.IH gf_of_ring numeral_Bit0 power_mult_distrib power_add)
next
  case (Bit1 n)
  have "gf_of b ^ numeral (num.Bit1 n) = gf_of b * (gf_of b ^ numeral n * gf_of b ^ numeral n)"
    unfolding numeral_Bit1 power_add by (simp add: mult.commute)
  then show ?case
    by (simp add: Bit1.IH gf_of_ring power_mult_distrib)
qed

lemma gf_power_eqI: "pown b n mod P = c \<Longrightarrow> gf_of b ^ numeral n = gf_of c"
  by (metis gf_of_mod gf_of_pown)

lemma gf_power_neI: "pown b n mod P \<noteq> 1 \<Longrightarrow> gf_of b ^ numeral n \<noteq> 1"
  by (simp add: gf_of_pown [symmetric] gf_eq_iff one_gf_def)

subsection \<open>7 has order \<open>p - 1\<close>\<close>

lemma seven_31: "gf_of 7 ^ 2147483648 = gf_of 17380019310548783236"
  by (rule gf_power_eqI) code_simp

lemma seven_half: "gf_of 17380019310548783236 ^ 4294967295 = gf_of 18446744069414584320"
  by (rule gf_power_eqI) code_simp

lemma seven_div3: "gf_of 17380019310548783236 ^ 2863311530 \<noteq> 1"
  by (rule gf_power_neI) code_simp

lemma seven_div5: "gf_of 17380019310548783236 ^ 1717986918 \<noteq> 1"
  by (rule gf_power_neI) code_simp

lemma seven_div17: "gf_of 17380019310548783236 ^ 505290270 \<noteq> 1"
  by (rule gf_power_neI) code_simp

lemma seven_div257: "gf_of 17380019310548783236 ^ 33423870 \<noteq> 1"
  by (rule gf_power_neI) code_simp

lemma seven_div65537: "gf_of 17380019310548783236 ^ 131070 \<noteq> 1"
  by (rule gf_power_neI) code_simp

abbreviation group_order :: nat where "group_order \<equiv> 18446744069414584320"

abbreviation gen :: gf where "gen \<equiv> gf_of 7"

lemma gen_half: "gen ^ 9223372034707292160 = - 1"
proof -
  have "gen ^ 9223372034707292160 = (gen ^ 2147483648) ^ 4294967295"
    by (simp only: power_mult [symmetric]) simp
  also have "\<dots> = gf_of 18446744069414584320"
    by (simp only: seven_31 seven_half)
  also have "\<dots> = - 1"
    by (simp add: gf_eq_iff uminus_gf_def one_gf_def)
  finally show ?thesis .
qed

lemma gen_order: "gen ^ group_order = 1"
proof -
  have "gen ^ group_order = (gen ^ 9223372034707292160) ^ 2"
    by (simp only: power_mult [symmetric]) simp
  then show ?thesis by (simp only: gen_half) simp
qed

lemma gen_div:
  "gen ^ (group_order div 2) \<noteq> 1" "gen ^ (group_order div 3) \<noteq> 1" "gen ^ (group_order div 5) \<noteq> 1"
  "gen ^ (group_order div 17) \<noteq> 1" "gen ^ (group_order div 257) \<noteq> 1"
  "gen ^ (group_order div 65537) \<noteq> 1"
proof -
  have split: "gen ^ (2147483648 * k) = gf_of 17380019310548783236 ^ k" for k
    by (simp only: power_mult seven_31)
  have m1: "(- 1 :: gf) \<noteq> 1"
    by (simp add: gf_eq_iff uminus_gf_def one_gf_def)
  show "gen ^ (group_order div 2) \<noteq> 1"
    using gen_half m1 by simp
  show "gen ^ (group_order div 3) \<noteq> 1" using split [of 2863311530] seven_div3 by simp
  show "gen ^ (group_order div 5) \<noteq> 1" using split [of 1717986918] seven_div5 by simp
  show "gen ^ (group_order div 17) \<noteq> 1" using split [of 505290270] seven_div17 by simp
  show "gen ^ (group_order div 257) \<noteq> 1" using split [of 33423870] seven_div257 by simp
  show "gen ^ (group_order div 65537) \<noteq> 1" using split [of 131070] seven_div65537 by simp
qed

subsection \<open>Lucas' criterion\<close>

lemma dvd_prime_cases:
  assumes "(r::nat) dvd q" and "0 < q" and "\<forall>k\<in>set [2..<m]. \<not> k dvd q" and "q < m * m"
  shows "r = 1 \<or> r = q"
proof (rule ccontr)
  assume no: "\<not> ?thesis"
  obtain s where q: "q = r * s" using assms(1) by blast
  have "2 \<le> r" "2 \<le> s" using no q assms(2)
    by (cases r; cases "r - 1"; cases s; cases "s - 1"; simp)+
  then have "m \<le> r" "m \<le> s"
    using assms(3) q unfolding set_upt by (meson atLeastLessThan_iff dvd_triv_left dvd_triv_right not_le_imp_less)+
  then have "m * m \<le> q" using q mult_le_mono by blast
  then show False using assms(4) by simp
qed

lemma small_primes:
  assumes "q \<in> {2, 3, 5, 17, 257, 65537 :: nat}" and "r dvd q"
  shows "r = 1 \<or> r = q"
proof -
  have big: "\<forall>k\<in>set [2..<257]. \<not> k dvd (65537 :: nat)"
  proof
    fix k assume "k \<in> set [2..<257 :: nat]"
    then have "int k \<in> set [2..256]" by (simp only: set_upto set_upt) simp
    moreover have "\<forall>k\<in>set [2..256]. \<not> k dvd (65537 :: int)" by code_simp
    ultimately have "\<not> int k dvd 65537" by (rule bspec [rotated])
    then have "\<not> int k dvd int 65537" by simp
    then show "\<not> k dvd (65537 :: nat)" by (simp only: int_dvd_int_iff not_False_eq_True)
  qed
  have "r dvd 2 \<Longrightarrow> r = 1 \<or> r = 2" by (rule dvd_prime_cases [of r 2 2]) simp_all
  moreover have "r dvd 3 \<Longrightarrow> r = 1 \<or> r = 3" by (rule dvd_prime_cases [of r 3 2]) simp_all
  moreover have "r dvd 5 \<Longrightarrow> r = 1 \<or> r = 5" by (rule dvd_prime_cases [of r 5 3]) simp_all
  moreover have "r dvd 17 \<Longrightarrow> r = 1 \<or> r = 17" by (rule dvd_prime_cases [of r 17 5]) simp_all
  moreover have "r dvd 257 \<Longrightarrow> r = 1 \<or> r = 257" by (rule dvd_prime_cases [of r 257 17]) simp_all
  moreover have "r dvd 65537 \<Longrightarrow> r = 1 \<or> r = 65537"
    by (rule dvd_prime_cases [OF _ _ big]) simp_all
  ultimately show ?thesis using assms by blast
qed

lemma power_gcd_eq_1:
  fixes g :: "'a::comm_ring_1"
  shows "g ^ a = 1 \<Longrightarrow> g ^ b = 1 \<Longrightarrow> g ^ gcd a b = 1"
proof (induction a b rule: gcd_nat_induct)
  case (base m)
  then show ?case by simp
next
  case (step m n)
  have "g ^ m = (g ^ n) ^ (m div n) * g ^ (m mod n)"
    by (metis power_mult power_add mult_div_mod_eq)
  with step.prems have "g ^ (m mod n) = 1" by simp
  with step show ?case by (metis gcd_red_nat)
qed

lemma coprime_group_order:
  assumes "\<And>q. q \<in> {2, 3, 5, 17, 257, 65537 :: nat} \<Longrightarrow> \<not> q dvd m"
  shows "coprime m group_order"
proof -
  have cop: "coprime m q" if "q \<in> {2, 3, 5, 17, 257, 65537}" for q
  proof -
    have "gcd m q = 1 \<or> gcd m q = q" using small_primes [OF that] by simp
    then show ?thesis using assms [OF that] by (metis coprime_iff_gcd_eq_1 gcd_dvd1)
  qed
  have "group_order = 2 ^ 32 * 3 * 5 * 17 * 257 * 65537" by simp
  moreover have "coprime m (2 ^ 32 * 3 * 5 * 17 * 257 * 65537)"
    by (intro coprime_mult_right_iff [THEN iffD2] conjI coprime_power_right_iff [THEN iffD2] disjI1 cop) auto
  ultimately show ?thesis by simp
qed

lemma gen_no_smaller_order:
  assumes "0 < e" and "e < group_order"
  shows "gen ^ e \<noteq> 1"
proof
  assume "gen ^ e = 1"
  define d where "d = gcd e group_order"
  have gd: "gen ^ d = 1"
    unfolding d_def by (rule power_gcd_eq_1 [OF \<open>gen ^ e = 1\<close> gen_order])
  have "d \<le> e" using assms by (auto simp: d_def intro: dvd_imp_le)
  have "d dvd group_order" by (simp only: d_def gcd_dvd2)
  then obtain m where m: "group_order = d * m" by blast
  have "m \<noteq> 1" using m \<open>d \<le> e\<close> assms(2) by auto
  show False
  proof (cases "\<exists>q \<in> {2, 3, 5, 17, 257, 65537}. q dvd m")
    case True
    then obtain q k where q: "q \<in> {2, 3, 5, 17, 257, 65537}" and k: "m = q * k" by blast
    have "group_order = q * (d * k)" by (simp only: m k mult.left_commute)
    then have "group_order div q = d * k" using q by auto
    then have "gen ^ (group_order div q) = 1" by (simp only: power_mult gd power_one)
    with q gen_div show False by auto
  next
    case False
    then have "coprime m group_order" using coprime_group_order by blast
    moreover have "m dvd group_order" by (simp only: m dvd_triv_right)
    ultimately have "m = 1" by (metis coprime_common_divisor_nat dvd_refl)
    with \<open>m \<noteq> 1\<close> show False by simp
  qed
qed

subsection \<open>The field\<close>

lemma gen_nonzero: "gen ^ i \<noteq> 0"
proof
  assume z: "gen ^ i = 0"
  have "gen ^ (group_order * i) = 1" by (simp only: power_mult gen_order power_one)
  moreover have "gen ^ (group_order * i) = (gen ^ i) ^ group_order"
    by (simp only: mult.commute [of group_order] power_mult)
  ultimately show False using z by (simp add: power_0_left)
qed

lemma gen_inj: "inj_on (\<lambda>i. gen ^ i) {..<group_order}"
proof (rule linorder_inj_onI')
  fix i j :: nat
  assume j: "j \<in> {..<group_order}" and ij: "i < j"
  show "gen ^ i \<noteq> gen ^ j"
  proof
    assume eq: "gen ^ i = gen ^ j"
    have cancel: "gen ^ i * gen ^ (group_order - i) = 1"
      using j ij by (simp only: power_add [symmetric]) (simp add: gen_order)
    have "gen ^ (j - i) = gen ^ (j - i) * (gen ^ i * gen ^ (group_order - i))"
      by (simp only: cancel mult_1_right)
    also have "\<dots> = gen ^ j * gen ^ (group_order - i)"
      using ij by (simp only: mult.assoc [symmetric] power_add [symmetric]) simp
    also have "\<dots> = 1" by (simp only: eq [symmetric] cancel)
    finally have "gen ^ (j - i) = 1" .
    moreover have "j - i < group_order" using j less_imp_diff_less by blast
    ultimately show False using gen_no_smaller_order [of "j - i"] ij by simp
  qed
qed

lemma gen_generates:
  assumes "(a :: gf) \<noteq> 0"
  obtains i where "i < group_order" and "a = gen ^ i"
proof -
  let ?pow = "\<lambda>i. gen ^ i"
  have sub: "?pow ` {..<group_order} \<subseteq> UNIV - {0}" using gen_nonzero by auto
  have "card (?pow ` {..<group_order}) = group_order"
    using card_image [OF gen_inj] by simp
  also have "\<dots> = card (UNIV - {0 :: gf})"
    by (simp add: card_Diff_subset card_gf)
  finally have "?pow ` {..<group_order} = UNIV - {0}"
    by (intro card_subset_eq sub) simp_all
  then have "a \<in> ?pow ` {..<group_order}" using assms by blast
  then show ?thesis using that by blast
qed

text \<open>Fermat's little theorem for this modulus.\<close>

lemma gf_fermat: "(a :: gf) \<noteq> 0 \<Longrightarrow> a ^ group_order = 1"
proof -
  assume "a \<noteq> 0"
  then obtain i where "a = gen ^ i" by (rule gen_generates)
  then have "a ^ group_order = (gen ^ group_order) ^ i"
    by (simp only: power_mult [symmetric] mult.commute)
  then show ?thesis by (simp only: gen_order power_one)
qed

instantiation gf :: field
begin

definition inverse_gf :: "gf \<Rightarrow> gf" where "inverse (a :: gf) = a ^ 18446744069414584319"
definition divide_gf :: "gf \<Rightarrow> gf \<Rightarrow> gf" where "(a :: gf) div b = a * inverse b"

instance
proof
  fix a b :: gf
  show "inverse a * a = 1" if "a \<noteq> 0"
    using gf_fermat [OF that] power_add [of a 18446744069414584319 1]
    by (simp add: inverse_gf_def)
  show "a div b = a * inverse b"
    by (simp add: divide_gf_def)
  show "inverse (0 :: gf) = 0"
    by (simp add: inverse_gf_def)
qed

end

lemma gf_inverse_power: "inverse (a :: gf) = a ^ 18446744069414584319"
  by (simp add: inverse_gf_def)

lemma gen_power_eq_1_iff: "gen ^ e = 1 \<longleftrightarrow> group_order dvd e"
proof
  assume "gen ^ e = 1"
  moreover have "gen ^ e = (gen ^ group_order) ^ (e div group_order) * gen ^ (e mod group_order)"
    by (simp only: power_mult [symmetric] power_add [symmetric] mult_div_mod_eq)
  ultimately have "gen ^ (e mod group_order) = 1"
    by (simp only: gen_order power_one mult_1)
  then have "e mod group_order = 0"
    using gen_no_smaller_order [of "e mod group_order"] by (cases "e mod group_order = 0") simp_all
  then show "group_order dvd e" by (rule mod_0_imp_dvd)
next
  assume "group_order dvd e"
  then obtain k where "e = group_order * k" by blast
  then show "gen ^ e = 1" by (simp only: power_mult gen_order power_one)
qed

end
