(* ===== verification/Field64.thy ===== *)
theory Field64
  imports Goldilocks
begin

unbundle bit_operations_syntax

text \<open>
  \<^verbatim>\<open>pkg/vdaf/field/field64.go\<close>: the field of order \<open>p = 2 ^ 64 - 2 ^ 32 + 1\<close> on 64-bit
  machine words, with the carry and borrow corrections of the code, its square-and-multiply
  power, the roots of unity and the little-endian vector encoding.

  An element of the code's type \<^verbatim>\<open>Elt\<close> is a \<open>64 word\<close>; \<open>canonical\<close> is the
  representation invariant \<open>a < p\<close> its comment promises, and \<open>gfe\<close> maps a word to the residue
  it stands for. Every operation is shown to be the field operation on residues and to
  return a canonical word. The functions of Go's \<^verbatim>\<open>math/bits\<close> come first.
\<close>

subsection \<open>Go's math/bits on 64-bit words\<close>

definition Add64 :: "64 word \<Rightarrow> 64 word \<Rightarrow> 64 word \<Rightarrow> 64 word \<times> 64 word" where
  "Add64 x y carry =
     (x + y + carry, if 2 ^ 64 \<le> uint x + uint y + uint carry then 1 else 0)"

definition Sub64 :: "64 word \<Rightarrow> 64 word \<Rightarrow> 64 word \<Rightarrow> 64 word \<times> 64 word" where
  "Sub64 x y borrow =
     (x - y - borrow, if uint x < uint y + uint borrow then 1 else 0)"

definition Mul64 :: "64 word \<Rightarrow> 64 word \<Rightarrow> 64 word \<times> 64 word" where
  "Mul64 x y = (word_of_int (uint x * uint y div 2 ^ 64), x * y)"

subsection \<open>Elements and arithmetic\<close>

type_synonym elt = "64 word"

datatype field_error = ErrNonCanonical | ErrLength | ErrNthRoot | ErrVecAddLength | ErrVecSubLength

definition Modulus :: "64 word" where "Modulus = 0xFFFFFFFF00000001"

definition EncodedSize :: nat where "EncodedSize = 8"

definition epsilon :: "64 word" where "epsilon = 0xFFFFFFFF"

definition GenOrder :: "64 word" where "GenOrder = push_bit 32 1"

definition Field_New :: "64 word \<Rightarrow> elt" where
  "Field_New x = (if x \<ge> Modulus then x - Modulus else x)"

definition Field_Add :: "elt \<Rightarrow> elt \<Rightarrow> elt" where
  "Field_Add a b =
     (let (sum, carry) = Add64 a b 0;
          (sum, carry2) = Add64 sum (carry * epsilon) 0;
          sum = sum + carry2 * epsilon
      in if sum \<ge> Modulus then sum - Modulus else sum)"

definition Field_Sub :: "elt \<Rightarrow> elt \<Rightarrow> elt" where
  "Field_Sub a b =
     (let (diff, borrow) = Sub64 a b 0
      in diff - borrow * epsilon)"

definition Field_Neg :: "elt \<Rightarrow> elt" where
  "Field_Neg a = Field_Sub 0 a"

definition Field_Mul :: "elt \<Rightarrow> elt \<Rightarrow> elt" where
  "Field_Mul a b =
     (let (hi, lo) = Mul64 a b;
          hiHi = drop_bit 32 hi;
          hiLo = hi AND 0xFFFFFFFF;
          (t0, borrow) = Sub64 lo hiHi 0;
          t0 = t0 - borrow * epsilon;
          t1 = hiLo * epsilon;
          (res, carry) = Add64 t0 t1 0;
          res = res + carry * epsilon
      in if res \<ge> Modulus then res - Modulus else res)"

definition Field_Pow :: "elt \<Rightarrow> 64 word \<Rightarrow> elt" where
  "Field_Pow a e =
     fst (fold (\<lambda>i (result, base).
            (if e AND push_bit i 1 \<noteq> 0 then Field_Mul result base else result,
             Field_Mul base base))
          [0..<64] (1, a))"

definition Field_Inv :: "elt \<Rightarrow> elt" where
  "Field_Inv a = Field_Pow a (Modulus - 2)"

definition Generator :: elt where
  "Generator = Field_Pow 7 4294967295"

definition NthRoot :: "64 word \<Rightarrow> field_error + elt" where
  "NthRoot n =
     (if n = 0 \<or> n > GenOrder \<or> n AND (n - 1) \<noteq> 0 then Inl ErrNthRoot
      else Inr (Field_Pow Generator (GenOrder div n)))"

subsection \<open>Encoding and vectors\<close>

definition Field_Encode :: "bytes \<Rightarrow> elt \<Rightarrow> bytes" where
  "Field_Encode dst a = dst @ le EncodedSize (unat a)"

definition Field_Decode :: "bytes \<Rightarrow> field_error + elt" where
  "Field_Decode b =
     (if length b \<noteq> EncodedSize then Inl ErrLength
      else let x = word_of_nat (le_val b) :: 64 word
        in if x \<ge> Modulus then Inl ErrNonCanonical else Inr x)"

definition EncodeVec :: "elt list \<Rightarrow> bytes" where
  "EncodeVec v = foldl Field_Encode [] v"

text \<open>The decoding loop, from the offset on: the rest of the input is what the code has not
  yet read.\<close>

fun DecodeVec_loop :: "bytes \<Rightarrow> field_error + elt list" where
  "DecodeVec_loop [] = Inr []"
| "DecodeVec_loop (x # xs) =
     (case Field_Decode (take EncodedSize (x # xs)) of
        Inl err \<Rightarrow> Inl err
      | Inr e \<Rightarrow> (case DecodeVec_loop (drop (EncodedSize - 1) xs) of
            Inl err \<Rightarrow> Inl err
          | Inr es \<Rightarrow> Inr (e # es)))"

definition DecodeVec :: "bytes \<Rightarrow> field_error + elt list" where
  "DecodeVec b =
     (if length b mod EncodedSize \<noteq> 0 then Inl ErrLength else DecodeVec_loop b)"

definition VecAdd :: "elt list \<Rightarrow> elt list \<Rightarrow> field_error + elt list" where
  "VecAdd a b =
     (if length a \<noteq> length b then Inl ErrVecAddLength else Inr (map2 Field_Add a b))"

definition VecSub :: "elt list \<Rightarrow> elt list \<Rightarrow> field_error + elt list" where
  "VecSub a b =
     (if length a \<noteq> length b then Inl ErrVecSubLength else Inr (map2 Field_Sub a b))"

subsection \<open>Residues\<close>

definition gfe :: "elt \<Rightarrow> gf" where
  "gfe a = gf_of (uint a)"

definition canonical :: "elt \<Rightarrow> bool" where
  "canonical a \<longleftrightarrow> a < Modulus"

lemma uint_bounds: "0 \<le> uint (x :: 64 word)" "uint (x :: 64 word) < 18446744073709551616"
  using unsigned_less [of x] by simp_all

lemma uint_Modulus [simp]: "uint Modulus = P"
  by (simp add: Modulus_def)

lemma uint_epsilon [simp]: "uint epsilon = 4294967295"
  by (simp add: epsilon_def)

lemma canonical_iff: "canonical a \<longleftrightarrow> uint a < P"
  by (simp add: canonical_def word_less_def)

lemma gfe_inject: "canonical a \<Longrightarrow> canonical b \<Longrightarrow> gfe a = gfe b \<longleftrightarrow> a = b"
  using uint_bounds [of a] uint_bounds [of b]
  by (simp add: canonical_iff gfe_def gf_of_eq_iff word_uint_eq_iff)

text \<open>The carry functions in terms of integers.\<close>

lemma uint_plus_no_wrap:
  "uint (x :: 64 word) + uint y < 18446744073709551616 \<Longrightarrow> uint (x + y) = uint x + uint y"
  by (simp add: uint_word_ariths)

lemma mod_above: "M \<le> z \<Longrightarrow> z < 2 * M \<Longrightarrow> z mod M = z - (M :: int)"
  by (metis diff_ge_0_iff_ge diff_less_eq minus_mod_self2 mod_pos_pos_trivial mult_2)

lemma mod_below: "- M \<le> z \<Longrightarrow> z < 0 \<Longrightarrow> z mod M = z + (M :: int)"
  by (metis add.commute add_less_same_cancel1 diff_0 diff_le_eq mod_add_self2 mod_pos_pos_trivial)

lemma div_less_mult:
  assumes "x < a * M" and "0 < M"
  shows "x div M < (a :: int)"
proof (rule ccontr)
  assume "\<not> x div M < a"
  then have "a * M \<le> x div M * M" using assms(2) by (intro mult_right_mono) simp_all
  also have "\<dots> \<le> x" using assms(2) by (simp add: minus_mod_eq_div_mult [symmetric])
  finally show False using assms(1) by simp
qed

lemma uint_minus_no_wrap: "uint (y :: 64 word) \<le> uint x \<Longrightarrow> uint (x - y) = uint x - uint y"
proof -
  assume "uint y \<le> uint x"
  then have "(uint x - uint y) mod 18446744073709551616 = uint x - uint y"
    using uint_bounds [of x] uint_bounds [of y] by (intro mod_pos_pos_trivial) linarith+
  then show ?thesis by (simp add: uint_word_ariths)
qed

lemma Add64_cases:
  obtains (no) "Add64 x y 0 = (x + y, 0)" and "uint (x + y) = uint x + uint y"
    and "uint x + uint y < 18446744073709551616"
  | (carry) "Add64 x y 0 = (x + y, 1)" and "uint (x + y) = uint x + uint y - 18446744073709551616"
    and "18446744073709551616 \<le> uint x + uint y"
proof (cases "uint x + uint y < 18446744073709551616")
  case True
  then show ?thesis by (intro no) (simp_all add: Add64_def uint_word_ariths)
next
  case False
  have "(uint x + uint y) mod 18446744073709551616 = uint x + uint y - 18446744073709551616"
    using False uint_bounds [of x] uint_bounds [of y] by (intro mod_above) linarith+
  with False show ?thesis by (intro carry) (simp_all add: Add64_def uint_word_ariths)
qed

lemma Sub64_cases:
  obtains (no) "Sub64 x y 0 = (x - y, 0)" and "uint (x - y) = uint x - uint y" and "uint y \<le> uint x"
  | (borrow) "Sub64 x y 0 = (x - y, 1)" and "uint (x - y) = uint x - uint y + 18446744073709551616"
    and "uint x < uint y"
proof (cases "uint y \<le> uint x")
  case True
  then show ?thesis by (intro no) (simp_all add: Sub64_def uint_minus_no_wrap)
next
  case False
  have "(uint x - uint y) mod 18446744073709551616 = uint x - uint y + 18446744073709551616"
    using False uint_bounds [of x] uint_bounds [of y] by (intro mod_below) linarith+
  with False show ?thesis by (intro borrow) (simp_all add: Sub64_def uint_word_ariths)
qed

lemma Mul64_uint:
  assumes "Mul64 x y = (hi, lo)"
  shows "uint x * uint y = uint lo + 18446744073709551616 * uint hi"
proof -
  have "uint x * uint y < 18446744073709551616 * 18446744073709551616"
    by (intro mult_strict_mono uint_bounds) simp_all
  then have "uint x * uint y div 18446744073709551616 < 18446744073709551616"
    by (intro div_less_mult) simp_all
  moreover have "0 \<le> uint x * uint y div 18446744073709551616"
    by (intro pos_imp_zdiv_nonneg_iff [THEN iffD2] mult_nonneg_nonneg uint_bounds) simp_all
  ultimately have "uint hi = uint x * uint y div 18446744073709551616"
    and "uint lo = uint x * uint y mod 18446744073709551616"
    using assms by (auto simp: Mul64_def uint_word_ariths uint_word_of_int)
  then show ?thesis by simp
qed

subsection \<open>The operations compute in the field\<close>

lemma gf_of_2_64: "gf_of 18446744073709551616 = gf_of 4294967295"
  by (simp add: gf_of_eq_iff)

lemma gfe_numeral [simp]: "gfe 0 = 0" "gfe 1 = 1"
  by (simp_all add: gfe_def gf_of_ring)

lemma gf_of_2P: "gf_of 36893488138829168642 = 0"
  by (simp add: gf_eq_iff zero_gf_def)

lemma gf_of_add_P: "gf_of (x + P) = gf_of x" "gf_of (x - P) = gf_of x"
  by (simp_all add: gf_of_eq_iff)

text \<open>The conditional subtraction that ends \<open>Field_Add\<close>, \<open>Field_Mul\<close> and \<open>Field_New\<close>.\<close>

lemma final_subtraction:
  "canonical (if x \<ge> Modulus then x - Modulus else x)"
  "gfe (if x \<ge> Modulus then x - Modulus else x) = gfe x"
proof -
  have "uint (x - Modulus) = uint x - P" if "x \<ge> Modulus"
    using that by (subst uint_minus_no_wrap) (simp_all add: word_le_def)
  then show "canonical (if x \<ge> Modulus then x - Modulus else x)"
    and "gfe (if x \<ge> Modulus then x - Modulus else x) = gfe x"
    using uint_bounds [of x]
    by (auto simp: canonical_iff gfe_def gf_of_add_P word_le_def not_le)
qed

lemma Field_New_canonical: "canonical (Field_New x)" and gfe_Field_New: "gfe (Field_New x) = gfe x"
  by (simp_all only: Field_New_def final_subtraction)

lemma Field_Add_correct: "canonical (Field_Add a b) \<and> gfe (Field_Add a b) = gfe a + gfe b"
proof -
  obtain s where add: "Field_Add a b = (if s \<ge> Modulus then s - Modulus else s)"
    and s: "gf_of (uint s) = gf_of (uint a + uint b)"
  proof (cases rule: Add64_cases [of a b])
    case no
    then show ?thesis
      by (intro that [of "a + b"]) (simp_all add: Field_Add_def Add64_def)
  next
    case carry
    show ?thesis
    proof (cases rule: Add64_cases [of "a + b" epsilon])
      case no
      with carry show ?thesis
        by (intro that [of "a + b + epsilon"])
          (simp_all add: Field_Add_def gf_of_ring gf_of_P gf_of_2P gf_of_2_64 [symmetric])
    next
      case (carry)
      note carry1 = \<open>Add64 a b 0 = (a + b, 1)\<close>
        \<open>uint (a + b) = uint a + uint b - 18446744073709551616\<close>
      have "uint (a + b + epsilon + epsilon) = uint (a + b + epsilon) + 4294967295"
        using carry carry1 uint_bounds [of a] uint_bounds [of b]
        by (subst uint_plus_no_wrap) simp_all
      with carry carry1 show ?thesis
        by (intro that [of "a + b + epsilon + epsilon"])
          (simp_all add: Field_Add_def gf_of_ring gf_of_P gf_of_2P gf_of_2_64 [symmetric])
    qed
  qed
  have "gfe (Field_Add a b) = gfe s"
    by (simp only: add final_subtraction)
  with s show ?thesis
    by (simp only: add final_subtraction simp_thms) (simp add: gfe_def gf_of_ring)
qed

lemma Field_Sub_correct:
  assumes "canonical a" and "canonical b"
  shows "canonical (Field_Sub a b) \<and> gfe (Field_Sub a b) = gfe a - gfe b"
proof (cases rule: Sub64_cases [of a b])
  case no
  have "uint a - uint b < P"
    using assms uint_bounds [of b] unfolding canonical_iff by linarith
  with no show ?thesis
    by (simp add: Field_Sub_def canonical_iff gfe_def gf_of_ring)
next
  case borrow
  have "uint (a - b - epsilon) = uint a - uint b + P"
  proof (subst uint_minus_no_wrap)
    show "uint epsilon \<le> uint (a - b)"
      unfolding borrow uint_epsilon using assms(2) uint_bounds [of a] unfolding canonical_iff by linarith
  qed (simp add: borrow)
  moreover have "uint a - uint b + P < P" using borrow by simp
  ultimately show ?thesis
    using borrow by (simp add: Field_Sub_def canonical_iff gfe_def gf_of_ring gf_of_P)
qed

lemma Field_Neg_correct:
  "canonical a \<Longrightarrow> canonical (Field_Neg a) \<and> gfe (Field_Neg a) = - gfe a"
  using Field_Sub_correct [of 0 a] by (simp add: Field_Neg_def canonical_iff)

text \<open>The Goldilocks reduction of a 128-bit product: with \<open>hi = h + 2 ^ 32 * hh\<close>, the number
  \<open>lo + 2 ^ 64 * hi\<close> is congruent to \<open>lo - hh + h * (2 ^ 32 - 1)\<close>.\<close>

lemma goldilocks_reduction:
  "gf_of (lo + 18446744073709551616 * hi) =
   gf_of lo - gf_of (hi div 4294967296) + gf_of (hi mod 4294967296) * gf_of 4294967295"
proof -
  define h hh where "h = hi mod 4294967296" and "hh = hi div 4294967296"
  have "lo + 18446744073709551616 * hi = lo + 18446744073709551616 * (h + 4294967296 * hh)"
    by (simp add: h_def hh_def)
  also have "\<dots> = (lo - hh + h * 4294967295) + P * (h + 4294967297 * hh)"
    by (simp add: algebra_simps)
  finally have "gf_of (lo + 18446744073709551616 * hi) =
      gf_of ((lo - hh + h * 4294967295) + P * (h + 4294967297 * hh))"
    by (rule arg_cong)
  then show ?thesis
    by (simp only: gf_of_ring gf_of_P h_def hh_def mult_zero_left add_0_right)
qed

lemma uint_high_half: "uint (drop_bit 32 (x :: 64 word)) = uint x div 4294967296"
  by (simp only: drop_bit_eq_div uint_div) simp

lemma uint_low_half: "uint ((x :: 64 word) AND 0xFFFFFFFF) = uint x mod 4294967296"
proof -
  have "(0xFFFFFFFF :: int) = mask 32" by (simp add: mask_eq_exp_minus_1)
  then have "uint (x AND 0xFFFFFFFF) = uint x AND mask 32"
    by (simp add: uint_and)
  then show ?thesis by (simp add: take_bit_eq_mask [symmetric] take_bit_eq_mod)
qed

text \<open>The two conditional corrections of the reduction, without their final subtraction.\<close>

lemma reduce_borrow:
  assumes "uint hh < 4294967296"
  shows "gf_of (uint (case Sub64 lo hh 0 of (t, borrow) \<Rightarrow> t - borrow * epsilon)) = gf_of (uint lo) - gf_of (uint hh)"
proof (cases rule: Sub64_cases [of lo hh])
  case no
  then show ?thesis by (simp add: gf_of_ring)
next
  case borrow
  have "uint (lo - hh - epsilon) = uint lo - uint hh + P"
  proof (subst uint_minus_no_wrap)
    show "uint epsilon \<le> uint (lo - hh)"
      unfolding borrow uint_epsilon using assms uint_bounds [of lo] by linarith
  qed (simp add: borrow)
  with borrow show ?thesis by (simp add: gf_of_ring gf_of_P)
qed

lemma reduce_carry:
  assumes "uint t1 \<le> 4294967295 * 4294967295"
  shows "gf_of (uint (case Add64 t0 t1 0 of (r, carry) \<Rightarrow> r + carry * epsilon)) = gf_of (uint t0 + uint t1)"
proof (cases rule: Add64_cases [of t0 t1])
  case no
  then show ?thesis by simp
next
  case carry
  have "uint (t0 + t1 + epsilon) = uint t0 + uint t1 - P"
  proof (subst uint_plus_no_wrap)
    show "uint (t0 + t1) + uint epsilon < 18446744073709551616"
      unfolding carry uint_epsilon using assms uint_bounds [of t0] by linarith
  qed (simp add: carry)
  with carry show ?thesis by (simp add: gf_of_ring gf_of_P)
qed

lemma Field_Mul_correct: "canonical (Field_Mul a b) \<and> gfe (Field_Mul a b) = gfe a * gfe b"
proof -
  obtain hi lo where hl: "Mul64 a b = (hi, lo)" by (cases "Mul64 a b")
  define hh h where "hh = drop_bit 32 hi" and "h = hi AND 0xFFFFFFFF"
  have hh: "uint hh = uint hi div 4294967296" and h: "uint h = uint hi mod 4294967296"
    by (simp_all only: hh_def h_def uint_high_half uint_low_half)
  define t0 where "t0 = (case Sub64 lo hh 0 of (t, borrow) \<Rightarrow> t - borrow * epsilon)"
  define t1 where "t1 = h * epsilon"
  define res where "res = (case Add64 t0 t1 0 of (r, carry) \<Rightarrow> r + carry * epsilon)"
  have t0: "gf_of (uint t0) = gf_of (uint lo) - gf_of (uint hh)"
    unfolding t0_def by (rule reduce_borrow) (use uint_bounds [of hi] in \<open>simp add: hh\<close>)
  have h_small: "0 \<le> uint h" "uint h \<le> 4294967295" unfolding h by simp_all
  then have prod: "uint h * 4294967295 \<le> 4294967295 * 4294967295" by (intro mult_right_mono) simp_all
  then have "(uint h * 4294967295) mod 18446744073709551616 = uint h * 4294967295"
    using h_small by (intro mod_pos_pos_trivial) simp_all
  then have t1: "uint t1 = uint h * 4294967295" by (simp add: t1_def uint_word_ariths)
  have res: "gf_of (uint res) = gf_of (uint t0 + uint t1)"
    unfolding res_def by (rule reduce_carry) (use prod in \<open>simp add: t1\<close>)
  have mul: "Field_Mul a b = (if res \<ge> Modulus then res - Modulus else res)"
    unfolding Field_Mul_def hl
    by (simp add: Let_def split_beta hh_def [symmetric] h_def [symmetric] t1_def [symmetric]
        t0_def [symmetric, unfolded split_beta] res_def [symmetric, unfolded split_beta])
  have "gfe res = gf_of (uint lo) - gf_of (uint hh) + gf_of (uint h) * gf_of 4294967295"
    by (simp add: gfe_def res t0 t1 gf_of_ring)
  also have "\<dots> = gf_of (uint a * uint b)"
    by (simp add: Mul64_uint [OF hl] goldilocks_reduction hh h)
  finally show ?thesis
    by (simp only: mul final_subtraction simp_thms) (simp add: gfe_def gf_of_ring)
qed

subsection \<open>Powers, inverses and roots of unity\<close>

lemma bit_test: "e AND push_bit i 1 \<noteq> 0 \<longleftrightarrow> bit (e :: 64 word) i"
  by (simp add: and_exp_eq_0_iff_not_bit)

lemma Field_Pow_step:
  "fold (\<lambda>i (result, base).
       (if bit e i then Field_Mul result base else result, Field_Mul base base)) [0..<k] (1, a)
     = (r, b) \<Longrightarrow>
   canonical r \<and> gfe r = gfe a ^ unat (take_bit k (e :: 64 word)) \<and> gfe b = gfe a ^ (2 ^ k)"
proof (induction k arbitrary: r b)
  case 0
  then show ?case by (auto simp: canonical_iff)
next
  case (Suc k)
  let ?f = "\<lambda>i (result, base).
       (if bit e i then Field_Mul result base else result, Field_Mul base base)"
  obtain r' b' where rb: "fold ?f [0..<k] (1, a) = (r', b')" by (rule prod.exhaust)
  note IH = Suc.IH [OF rb]
  from Suc.prems have "r = (if bit e k then Field_Mul r' b' else r')" "b = Field_Mul b' b'"
    by (simp_all add: rb)
  moreover have "unat (take_bit (Suc k) e) = unat (take_bit k e) + (if bit e k then 2 ^ k else 0)"
    by (simp only: unsigned_take_bit_eq take_bit_Suc_from_most) (simp add: bit_unsigned_iff)
  ultimately show ?case
    using IH by (simp add: Field_Mul_correct power_add mult_2)
qed

lemma Field_Pow_correct: "canonical (Field_Pow a e) \<and> gfe (Field_Pow a e) = gfe a ^ unat e"
proof -
  have "take_bit 64 e = e" by (rule take_bit_word_eq_self) simp
  then show ?thesis
    unfolding Field_Pow_def bit_test
    using Field_Pow_step [where k = 64 and e = e and a = a, OF surjective_pairing] by simp
qed

lemma Field_Inv_correct: "canonical (Field_Inv a) \<and> gfe (Field_Inv a) = inverse (gfe a)"
  using Field_Pow_correct [of a "Modulus - 2"]
  by (simp add: Field_Inv_def gf_inverse_power Modulus_def)

lemma gfe_Generator: "gfe Generator = gen ^ 4294967295"
  using Field_Pow_correct [of 7 4294967295] by (simp add: Generator_def gfe_def)

lemma unat_64_bound: "unat (n :: 64 word) < 18446744073709551616"
  using unsigned_less [of n] by simp

lemma power_of_two_test:
  fixes n :: "64 word"
  assumes "n \<noteq> 0" and "n AND (n - 1) = 0"
  shows "\<exists>k<64. unat n = 2 ^ k"
proof -
  have pos: "1 \<le> unat n" using assms(1) by (simp add: unat_gt_0 Suc_le_eq)
  then obtain k where k: "2 ^ k \<le> unat n" "unat n < 2 ^ (k + 1)"
    using ex_power_ivl1 [of 2 "unat n"] by auto
  have top: "bit m k" if "2 ^ k \<le> m" "m < 2 ^ (k + 1)" for m :: nat
  proof -
    have "m div 2 ^ k = 1" using that by (intro div_nat_eqI) simp_all
    then show ?thesis by (simp add: bit_iff_odd)
  qed
  have pred: "unat (n - 1) = unat n - 1"
    using assms(1) by (simp add: unat_minus_one)
  have "unat n = 2 ^ k"
  proof (rule ccontr)
    assume "unat n \<noteq> 2 ^ k"
    then have "bit (unat n) k" "bit (unat (n - 1)) k"
      using k pred top [of "unat n"] top [of "unat n - 1"] by auto
    then have "bit (n AND (n - 1)) k" by (simp add: bit_and_iff bit_unsigned_iff)
    with assms(2) show False by simp
  qed
  moreover have "k < 64"
  proof (rule ccontr)
    assume "\<not> k < 64"
    then have "(2 :: nat) ^ 64 \<le> 2 ^ k" by (intro power_increasing) simp_all
    also note k(1)
    finally show False using unat_64_bound [of n] by simp
  qed
  ultimately show ?thesis by blast
qed

lemma unat_power_of_two: "k < 64 \<Longrightarrow> unat (2 ^ k :: 64 word) = 2 ^ k"
proof -
  assume "k < 64"
  then have "(2 :: nat) ^ k < 2 ^ 64" by (intro power_strict_increasing) simp_all
  moreover have "(2 ^ k :: 64 word) = word_of_nat (2 ^ k)" by simp
  ultimately show ?thesis by (simp only: unat_of_nat) simp
qed

lemma power_of_two_word:
  assumes "k \<le> 32"
  shows "\<not> (2 ^ k = (0 :: 64 word) \<or> 2 ^ k > GenOrder \<or> 2 ^ k AND (2 ^ k - 1) \<noteq> (0 :: 64 word))
    \<and> unat (GenOrder div 2 ^ k) = 2 ^ (32 - k)"
proof -
  have u: "unat (2 ^ k :: 64 word) = 2 ^ k"
    using assms by (intro unat_power_of_two) simp
  have g: "unat GenOrder = 2 ^ 32" by (simp add: GenOrder_def)
  have "(2 ^ k :: 64 word) \<noteq> 0"
    using assms by simp
  moreover have "\<not> 2 ^ k > GenOrder"
    unfolding word_less_nat_alt u g using assms by (simp only: not_less power_increasing)
  moreover have "2 ^ k AND (2 ^ k - 1) = (0 :: 64 word)"
    unfolding mask_eq_exp_minus_1 [symmetric]
    by (simp add: and.commute [of "2 ^ k"] and_exp_eq_0_iff_not_bit bit_mask_iff)
  moreover have "unat (GenOrder div 2 ^ k) = 2 ^ (32 - k)"
    unfolding unat_div u g using assms by (simp only: power_diff)
  ultimately show ?thesis by blast
qed

lemma NthRoot_power_of_two:
  assumes "k \<le> 32"
  obtains w where "NthRoot (2 ^ k) = Inr w" and "canonical w"
    and "gfe w = gen ^ (4294967295 * 2 ^ (32 - k))"
proof
  let ?w = "Field_Pow Generator (GenOrder div 2 ^ k)"
  show "NthRoot (2 ^ k) = Inr ?w"
    using power_of_two_word [OF assms] by (simp add: NthRoot_def)
  show "canonical ?w" by (simp add: Field_Pow_correct)
  show "gfe ?w = gen ^ (4294967295 * 2 ^ (32 - k))"
    using power_of_two_word [OF assms]
    by (simp only: Field_Pow_correct gfe_Generator power_mult [symmetric])
qed

lemma gen_root_order:
  assumes "k \<le> 32"
  shows "(gen ^ (4294967295 * 2 ^ (32 - k))) ^ m = 1 \<longleftrightarrow> 2 ^ k dvd m"
proof -
  have "(2 :: nat) ^ 32 = 2 ^ (32 - k) * 2 ^ k"
    using assms by (simp only: power_add [symmetric]) simp
  then have order: "group_order = (4294967295 * 2 ^ (32 - k)) * 2 ^ k" by (simp only: mult.assoc) simp
  have "(gen ^ (4294967295 * 2 ^ (32 - k))) ^ m = 1
      \<longleftrightarrow> group_order dvd (4294967295 * 2 ^ (32 - k)) * m"
    by (simp only: power_mult [symmetric] gen_power_eq_1_iff)
  also have "\<dots> \<longleftrightarrow> 2 ^ k dvd m"
    unfolding order by (simp only: nat_mult_dvd_cancel_disj) simp
  finally show ?thesis .
qed

text \<open>The specification of the roots of unity: \<open>NthRoot\<close> answers exactly the powers of two up
  to \<open>2 ^ 32\<close>, with a primitive root of that order.\<close>

lemma NthRoot_primitive:
  assumes "NthRoot n = Inr w"
  shows "canonical w \<and> (\<exists>k\<le>32. unat n = 2 ^ k) \<and> (\<forall>m. gfe w ^ m = 1 \<longleftrightarrow> unat n dvd m)"
proof -
  have "n \<noteq> 0" "n AND (n - 1) = 0" "\<not> n > GenOrder"
    using assms by (auto simp: NthRoot_def split: if_splits)
  then obtain k where k: "k < 64" "unat n = 2 ^ k" using power_of_two_test by blast
  have "unat n \<le> 2 ^ 32"
    using \<open>\<not> n > GenOrder\<close> by (simp add: GenOrder_def not_less word_le_nat_alt)
  with k have "k \<le> 32" by (simp only: power_increasing_iff)
  have "n = 2 ^ k"
    using k unat_power_of_two by (simp only: word_unat_eq_iff)
  with assms have "NthRoot (2 ^ k) = Inr w" by simp
  with \<open>k \<le> 32\<close> k show ?thesis
    by (metis NthRoot_power_of_two gen_root_order sum.inject(2))
qed

subsection \<open>The little-endian encoding\<close>

lemma Field_Decode_Encode:
  "canonical a \<Longrightarrow> Field_Decode (le EncodedSize (unat a)) = Inr a"
  using unat_mod_len [of a]
  by (simp add: Field_Decode_def EncodedSize_def le_val_le canonical_def Let_def not_le)

lemma Field_Decode_Inr:
  assumes "Field_Decode b = Inr a"
  shows "canonical a \<and> b = le EncodedSize (unat a)"
proof -
  have len: "length b = EncodedSize" and a: "a = word_of_nat (le_val b)" and can: "\<not> a \<ge> Modulus"
    using assms by (auto simp: Field_Decode_def Let_def split: if_splits)
  have "le_val b < 256 ^ 8" using le_val_bound [of b] len by (simp add: EncodedSize_def)
  then have "unat a = le_val b" by (simp add: a unat_of_nat)
  with len can show ?thesis by (simp add: canonical_def le_le_val)
qed

lemma EncodeVec_foldl: "foldl Field_Encode acc v = acc @ EncodeVec v"
  unfolding EncodeVec_def
proof (induction v arbitrary: acc)
  case Nil
  show ?case by simp
next
  case (Cons a v)
  from Cons.IH [of "Field_Encode acc a"] Cons.IH [of "Field_Encode [] a"]
  show ?case by (simp add: Field_Encode_def)
qed

lemma EncodeVec_Nil [simp]: "EncodeVec [] = []"
  by (simp add: EncodeVec_def)

lemma EncodeVec_Cons [simp]: "EncodeVec (a # v) = le EncodedSize (unat a) @ EncodeVec v"
  using EncodeVec_foldl [of "Field_Encode [] a" v]
  by (simp add: EncodeVec_def [of "a # v"]) (simp add: Field_Encode_def)

lemma length_EncodeVec [simp]: "length (EncodeVec v) = 8 * length v"
  by (induction v) (simp_all add: EncodedSize_def)

lemma DecodeVec_loop_append:
  assumes "length b = EncodedSize"
  shows "DecodeVec_loop (b @ bs) =
    (case Field_Decode b of Inl err \<Rightarrow> Inl err
     | Inr e \<Rightarrow> (case DecodeVec_loop bs of Inl err \<Rightarrow> Inl err | Inr es \<Rightarrow> Inr (e # es)))"
proof -
  obtain x xs where b: "b = x # xs" and "length xs = 7"
    using assms by (cases b) (auto simp: EncodedSize_def)
  then show ?thesis using assms by (simp add: EncodedSize_def split: sum.split)
qed

lemma DecodeVec_EncodeVec:
  "list_all canonical v \<Longrightarrow> DecodeVec (EncodeVec v) = Inr v"
proof -
  assume "list_all canonical v"
  then have "DecodeVec_loop (EncodeVec v) = Inr v"
    by (induction v) (simp_all add: DecodeVec_loop_append Field_Decode_Encode)
  then show ?thesis by (simp add: DecodeVec_def EncodedSize_def)
qed

lemma DecodeVec_loop_Inr:
  "length b = EncodedSize * n \<Longrightarrow> DecodeVec_loop b = Inr v \<Longrightarrow>
   list_all canonical v \<and> b = EncodeVec v"
proof (induction n arbitrary: b v)
  case 0
  then show ?case by simp
next
  case (Suc n)
  then have "EncodedSize \<le> length b" by simp
  then obtain h t where b: "b = h @ t" and h: "length h = EncodedSize"
    by (rule length_ge_take_drop)
  with Suc.prems have t: "length t = EncodedSize * n" by simp
  from Suc.prems(2) obtain e es where "Field_Decode h = Inr e" "DecodeVec_loop t = Inr es" "v = e # es"
    by (auto simp: b DecodeVec_loop_append [OF h] split: sum.splits)
  with Suc.IH [OF t] Field_Decode_Inr show ?case by (simp add: b)
qed

lemma DecodeVec_Inr:
  assumes "DecodeVec b = Inr v"
  shows "list_all canonical v \<and> b = EncodeVec v"
proof -
  have "EncodedSize dvd length b" and "DecodeVec_loop b = Inr v"
    using assms by (auto simp: DecodeVec_def split: if_splits)
  then show ?thesis using DecodeVec_loop_Inr by (metis dvdE)
qed

subsection \<open>The operations as rewrite rules on residues\<close>

lemma canonical_ops [simp, intro]:
  "canonical 0" "canonical 1" "canonical (Field_New x)" "canonical (Field_Add a b)"
  "canonical (Field_Mul a b)" "canonical (Field_Pow a e)" "canonical (Field_Inv a)"
  by (simp_all add: canonical_iff [of 0] canonical_iff [of 1] Field_New_canonical Field_Add_correct
      Field_Mul_correct Field_Pow_correct Field_Inv_correct)

lemma canonical_sub [simp, intro]:
  "canonical a \<Longrightarrow> canonical b \<Longrightarrow> canonical (Field_Sub a b)"
  "canonical a \<Longrightarrow> canonical (Field_Neg a)"
  by (simp_all add: Field_Sub_correct Field_Neg_correct)

lemma gfe_ops [simp]:
  "gfe (Field_Add a b) = gfe a + gfe b" "gfe (Field_Mul a b) = gfe a * gfe b"
  "gfe (Field_Pow a e) = gfe a ^ unat e" "gfe (Field_Inv a) = inverse (gfe a)"
  "gfe (Field_New x) = gfe x"
  by (simp_all add: gfe_Field_New Field_Add_correct Field_Mul_correct Field_Pow_correct
      Field_Inv_correct)

lemma gfe_sub [simp]:
  "canonical a \<Longrightarrow> canonical b \<Longrightarrow> gfe (Field_Sub a b) = gfe a - gfe b"
  "canonical a \<Longrightarrow> gfe (Field_Neg a) = - gfe a"
  by (simp_all add: Field_Sub_correct Field_Neg_correct)

lemma gfe_of_nat: "n < 18446744073709551616 \<Longrightarrow> gfe (word_of_nat n) = of_nat n"
  by (simp add: gfe_def of_nat_gf uint_nat unat_of_nat)

lemma gfe_list_inject:
  "list_all canonical xs \<Longrightarrow> list_all canonical ys \<Longrightarrow> map gfe xs = map gfe ys \<longleftrightarrow> xs = ys"
proof (induction xs arbitrary: ys)
  case (Cons x xs)
  then show ?case by (cases ys) (auto simp: gfe_inject)
qed auto

lemma VecAdd_correct:
  "length a = length b \<Longrightarrow> \<exists>c. VecAdd a b = Inr c \<and> length c = length a \<and> list_all canonical c
     \<and> map gfe c = map2 (+) (map gfe a) (map gfe b)"
  by (auto simp: VecAdd_def list_all_length intro: nth_equalityI)

lemma VecSub_correct:
  "length a = length b \<Longrightarrow> list_all canonical a \<Longrightarrow> list_all canonical b \<Longrightarrow>
   \<exists>c. VecSub a b = Inr c \<and> length c = length a \<and> list_all canonical c
     \<and> map gfe c = map2 (-) (map gfe a) (map gfe b)"
  by (auto simp: VecSub_def list_all_length intro: nth_equalityI)

subsection \<open>Properties\<close>

lemma canonical_of_gf: "canonical (word_of_int (Rep_gf g)) \<and> gfe (word_of_int (Rep_gf g)) = g"
proof -
  have b: "0 \<le> Rep_gf g" "Rep_gf g < P" by (rule rep_bounds)+
  then have "uint (word_of_int (Rep_gf g) :: elt) = Rep_gf g" by (simp add: uint_word_of_int)
  with b show ?thesis by (simp add: canonical_iff gfe_def)
qed

lemma uint_of_gfe: assumes "canonical a" "gfe a = gf_of z" shows "uint a = z mod P"
proof -
  have "0 \<le> uint a" "uint a < P" using assms(1) uint_bounds by (simp_all add: canonical_iff)
  moreover have "uint a mod P = z mod P" using assms(2) by (simp only: gfe_def gf_of_eq_iff)
  ultimately show ?thesis by simp
qed

text \<open>
  C19. The word-level field operations, with their carries, borrows and wrap-around, compute
  exactly the arithmetic modulo p = 2^64 - 2^32 + 1 on canonical elements: sum, difference,
  product, negation, power, and the inverse of every non-zero element.
\<close>

theorem field_arithmetic:
  assumes "canonical a" and "canonical b"
  shows "uint (Field_Add a b) = (uint a + uint b) mod 18446744069414584321
    \<and> uint (Field_Sub a b) = (uint a - uint b) mod 18446744069414584321
    \<and> uint (Field_Mul a b) = (uint a * uint b) mod 18446744069414584321
    \<and> uint (Field_Neg a) = - uint a mod 18446744069414584321
    \<and> uint (Field_Pow a e) = uint a ^ unat e mod 18446744069414584321
    \<and> (a \<noteq> 0 \<longrightarrow> Field_Mul a (Field_Inv a) = 1) \<and> Field_Inv 0 = 0"
proof -
  have "uint (Field_Add a b) = (uint a + uint b) mod P" "uint (Field_Sub a b) = (uint a - uint b) mod P"
    "uint (Field_Mul a b) = (uint a * uint b) mod P" "uint (Field_Neg a) = (- uint a) mod P"
    "uint (Field_Pow a e) = uint a ^ unat e mod P"
    using Field_Add_correct [of a b] Field_Sub_correct [OF assms] Field_Mul_correct [of a b]
      Field_Neg_correct [OF assms(1)] Field_Pow_correct [of a e]
    by (intro uint_of_gfe; simp add: gfe_def gf_of_ring gf_of_power)+
  moreover have "Field_Mul a (Field_Inv a) = 1" if "a \<noteq> 0"
  proof -
    have "gfe a \<noteq> 0" using that assms(1) gfe_inject [of a 0] by (simp add: canonical_iff)
    then have "gfe (Field_Mul a (Field_Inv a)) = gfe 1"
      using Field_Mul_correct [of a "Field_Inv a"] Field_Inv_correct [of a] by simp
    then show ?thesis
      using gfe_inject [of "Field_Mul a (Field_Inv a)" 1] Field_Mul_correct by (simp add: canonical_iff)
  qed
  moreover have "Field_Inv 0 = 0"
    using Field_Inv_correct [of 0] gfe_inject [of "Field_Inv 0" 0] by (simp add: canonical_iff)
  ultimately show ?thesis by simp
qed

theorem field_arithmetic_witness:
  "uint (Field_Mul 18446744069414584320 18446744069414584319) = 2
   \<and> uint (Field_Add 18446744069414584320 5) = 4 \<and> uint (Field_Sub 3 5) = 18446744069414584319
   \<and> Field_Mul 5 (Field_Inv 5) = 1"
proof -
  have c: "canonical 18446744069414584320" "canonical 18446744069414584319" "canonical 5" "canonical 3"
    by (simp_all add: canonical_iff)
  note inst = field_arithmetic [OF c(1) c(2)] field_arithmetic [OF c(1) c(3)]
    field_arithmetic [OF c(4) c(3)] field_arithmetic [OF c(3) c(3)]
  have "(5 :: elt) \<noteq> 0" by simp
  with inst show ?thesis by simp
qed

text \<open>
  C20. NthRoot answers exactly the powers of two up to 2^32, and what it answers is a canonical
  primitive root of unity of that order: a power of it is 1 exactly when the order divides the
  exponent.
\<close>

theorem NthRoot_spec:
  "(case NthRoot n of
      Inl err \<Rightarrow> err = ErrNthRoot \<and> \<not> (\<exists>k\<le>32. unat n = 2 ^ k)
    | Inr w \<Rightarrow> canonical w \<and> (\<exists>k\<le>32. unat n = 2 ^ k)
        \<and> (\<forall>e. Field_Pow w e = 1 \<longleftrightarrow> unat n dvd unat e))"
proof (cases "NthRoot n")
  case (Inl err)
  have False if "unat n = 2 ^ k" "k \<le> 32" for k
  proof -
    have "n = 2 ^ k" using that unat_power_of_two [of k] by (simp only: word_unat_eq_iff)
    with NthRoot_power_of_two [OF that(2)] Inl show False by auto
  qed
  moreover have "err = ErrNthRoot" using Inl by (auto simp: NthRoot_def split: if_splits)
  ultimately show ?thesis using Inl by auto
next
  case (Inr w)
  have "Field_Pow w e = 1 \<longleftrightarrow> gfe w ^ unat e = 1" for e
    using Field_Pow_correct [of w e] gfe_inject [of "Field_Pow w e" 1] by (simp add: canonical_iff)
  with Inr NthRoot_primitive [OF Inr] show ?thesis by simp
qed

text \<open>
  C21. Decoding a vector of field elements is the exact inverse of encoding: it succeeds with v
  precisely on the encoding of v, and only for canonical elements, so no field element has two
  accepted encodings.
\<close>

theorem field_vector_codec:
  "DecodeVec b = Inr v \<longleftrightarrow> list_all canonical v \<and> b = EncodeVec v"
  using DecodeVec_Inr DecodeVec_EncodeVec by blast

end
