(* ===== verification/TurboShake.thy ===== *)
theory TurboShake
  imports Field64
begin

text \<open>
  \<^verbatim>\<open>internal/turboshake\<close>: the 12-round Keccak permutation and the incremental TurboSHAKE128
  sponge. The struct is a record, its arrays are lists of fixed length (\<open>ts_ok\<close>).

  The lemmas relate the buffered implementation to the one-shot function: writing in pieces is
  writing the concatenation, reading in pieces is reading one stream, and the stream is the
  squeeze of the absorbed, padded message.
\<close>

subsection \<open>keccakp.go\<close>

definition rc :: "64 word list" where
  "rc = [0x000000008000808B, 0x800000000000008B, 0x8000000000008089, 0x8000000000008003,
         0x8000000000008002, 0x8000000000000080, 0x000000000000800A, 0x800000008000000A,
         0x8000000080008081, 0x8000000000008080, 0x0000000080000001, 0x8000000080008008]"

definition rotc :: "nat list" where
  "rotc = [0, 1, 62, 28, 27, 36, 44, 6, 55, 20, 3, 10, 43, 25, 39, 41, 45, 15, 21, 8, 18, 2, 61, 56, 14]"

definition piDst :: "nat list" where
  "piDst = [0, 10, 20, 5, 15, 16, 1, 11, 21, 6, 7, 17, 2, 12, 22, 23, 8, 18, 3, 13, 14, 24, 9, 19, 4]"

definition theta :: "64 word list \<Rightarrow> 64 word list" where
  "theta a =
     (let c = map (\<lambda>x. a ! x XOR a ! (x + 5) XOR a ! (x + 10) XOR a ! (x + 15) XOR a ! (x + 20)) [0..<5];
          d = map (\<lambda>x. c ! ((x + 4) mod 5) XOR word_rotl 1 (c ! ((x + 1) mod 5))) [0..<5]
      in map (\<lambda>i. a ! i XOR d ! (i mod 5)) [0..<25])"

definition rhoPi :: "64 word list \<Rightarrow> 64 word list \<Rightarrow> 64 word list" where
  "rhoPi a b = fold (\<lambda>i b. b[piDst ! i := word_rotl (rotc ! i) (a ! i)]) [0..<25] b"

definition chi :: "64 word list \<Rightarrow> 64 word list" where
  "chi b = concat (map (\<lambda>y. map (\<lambda>x.
     b ! (y + x) XOR (NOT (b ! (y + (x + 1) mod 5)) AND b ! (y + (x + 2) mod 5))) [0..<5])
     [0, 5, 10, 15, 20])"

text \<open>One round on the state and the scratch array \<open>b\<close>, which outlives it.\<close>

definition keccakRound ::
  "nat \<Rightarrow> 64 word list \<times> 64 word list \<Rightarrow> 64 word list \<times> 64 word list" where
  "keccakRound round = (\<lambda>(a, b).
     let a = theta a;
         b = rhoPi a b;
         a = chi b;
         a = a[0 := a ! 0 XOR rc ! round]
     in (a, b))"

definition permute :: "64 word list \<Rightarrow> 64 word list" where
  "permute a = fst (fold keccakRound [0..<12] (a, replicate 25 0))"

subsection \<open>turboshake.go\<close>

definition Rate :: nat where "Rate = 168"

record turboshake =
  ts_a :: "64 word list"
  ts_buf :: bytes
  ts_n :: nat
  ts_d :: byte
  ts_squeezing :: bool

datatype turboshake_error = ErrDomainByte

definition New128 :: "byte \<Rightarrow> turboshake_error + turboshake" where
  "New128 d =
     (if d < 0x01 \<or> d > 0x7F then Inl ErrDomainByte
      else Inr \<lparr>ts_a = replicate 25 0, ts_buf = replicate Rate 0, ts_n = 0, ts_d = d,
                 ts_squeezing = False\<rparr>)"

definition xorBlock :: "64 word list \<Rightarrow> bytes \<Rightarrow> 64 word list" where
  "xorBlock a buf =
     fold (\<lambda>i a. a[i := a ! i XOR word_of_nat (le_val (take 8 (drop (8 * i) buf)))])
       [0..<Rate div 8] a"

definition absorbBuf :: "turboshake \<Rightarrow> turboshake" where
  "absorbBuf s = s\<lparr>ts_a := permute (xorBlock (ts_a s) (ts_buf s))\<rparr>"

definition rateBytes :: "64 word list \<Rightarrow> bytes" where
  "rateBytes a = concat (map (\<lambda>i. le 8 (unat (a ! i))) [0..<Rate div 8])"

definition fillBuf :: "turboshake \<Rightarrow> turboshake" where
  "fillBuf s = s\<lparr>ts_buf := rateBytes (ts_a s)\<rparr>"

text \<open>The loop of \<open>Write\<close>. A full buffer would copy nothing and loop; the buffer is never
  left full (\<open>ts_ok\<close>).\<close>

function Write_loop :: "turboshake \<Rightarrow> bytes \<Rightarrow> turboshake" where
  "Write_loop s p =
     (let c = min (Rate - ts_n s) (length p) in
      if p = [] \<or> c = 0 then s
      else
        let s = s\<lparr>ts_buf := take (ts_n s) (ts_buf s) @ take c p @ drop (ts_n s + c) (ts_buf s),
                   ts_n := ts_n s + c\<rparr>;
            s = (if ts_n s = Rate then (absorbBuf s)\<lparr>ts_n := 0\<rparr> else s)
        in Write_loop s (drop c p))"
  by pat_completeness auto
termination
  by (relation "measure (\<lambda>(s, p). length p)") auto

declare Write_loop.simps [simp del]

text \<open>None: the panic of a \<open>Write\<close> after a \<open>Read\<close>.\<close>

definition Write :: "turboshake \<Rightarrow> bytes \<Rightarrow> turboshake option" where
  "Write s p = (if ts_squeezing s then None else Some (Write_loop s p))"

definition pad :: "turboshake \<Rightarrow> turboshake" where
  "pad s =
     (let buf = take (ts_n s) (ts_buf s) @ [ts_d s] @ replicate (Rate - (ts_n s + 1)) 0;
          buf = buf[Rate - 1 := buf ! (Rate - 1) XOR 0x80];
          s = fillBuf (absorbBuf (s\<lparr>ts_buf := buf\<rparr>))
      in s\<lparr>ts_n := 0, ts_squeezing := True\<rparr>)"

function Read_loop :: "turboshake \<Rightarrow> nat \<Rightarrow> turboshake \<times> bytes" where
  "Read_loop s len =
     (if len = 0 then (s, [])
      else
        let s = (if ts_n s = Rate then (fillBuf (s\<lparr>ts_a := permute (ts_a s)\<rparr>))\<lparr>ts_n := 0\<rparr> else s);
            c = min len (Rate - ts_n s)
        in if c = 0 then (s, [])
           else
             let out = take c (drop (ts_n s) (ts_buf s));
                 (s, rest) = Read_loop (s\<lparr>ts_n := ts_n s + c\<rparr>) (len - c)
             in (s, out @ rest))"
  by pat_completeness auto
termination
  by (relation "measure snd") auto

declare Read_loop.simps [simp del]

definition Read :: "turboshake \<Rightarrow> nat \<Rightarrow> turboshake \<times> bytes" where
  "Read s len = Read_loop (if \<not> ts_squeezing s then pad s else s) len"

definition Sum128 :: "bytes \<Rightarrow> byte \<Rightarrow> nat \<Rightarrow> (turboshake_error + bytes) option" where
  "Sum128 m d outLen =
     (case New128 d of Inl err \<Rightarrow> Some (Inl err)
      | Inr s \<Rightarrow> (case Write s m of None \<Rightarrow> None
          | Some s \<Rightarrow> Some (Inr (snd (Read s outLen)))))"

subsection \<open>The tables\<close>

text \<open>The destination table is the map \<open>(x, y) \<mapsto> (y, 2 x + 3 y)\<close> of the comment, a permutation
  of the lanes, so every lane of the scratch array is overwritten in each round.\<close>

lemma piDst_formula: "piDst = map (\<lambda>i. i div 5 + 5 * ((2 * (i mod 5) + 3 * (i div 5)) mod 5)) [0..<25]"
  by (simp add: piDst_def upt_rec)

lemma piDst_permutation: "distinct piDst" "set piDst = {..<25}"
proof -
  show d: "distinct piDst" by (simp add: piDst_def)
  have "set piDst \<subseteq> {..<25}" by (simp add: piDst_def)
  moreover have "card (set piDst) = 25" using d by (simp only: distinct_card) (simp add: piDst_def)
  ultimately show "set piDst = {..<25}" by (intro card_subset_eq) simp_all
qed

text \<open>The rotation offsets are the triangular numbers modulo 64 along the orbit of that map.\<close>

definition piOrbit :: "nat list" where
  "piOrbit = [1, 10, 7, 11, 17, 18, 3, 5, 16, 8, 21, 24, 4, 15, 23, 19, 13, 12, 2, 20, 14, 22, 9, 6]"

lemma rotc_formula:
  "map (\<lambda>i. piDst ! i) piOrbit = rotate1 piOrbit"
  "map (\<lambda>i. rotc ! i) piOrbit = map (\<lambda>t. ((t + 1) * (t + 2) div 2) mod 64) [0..<24]"
  by (simp_all add: piOrbit_def piDst_def rotc_def upt_rec)

subsection \<open>Lengths\<close>

lemma length_permute [simp]: "length (permute a) = 25"
proof -
  have "length (fst (fold keccakRound [0..<Suc n] (a, b))) = 25" for n b
    by (simp add: keccakRound_def Let_def chi_def split: prod.split)
  from this [of 11] show ?thesis by (simp add: permute_def)
qed

lemma length_xorBlock [simp]: "length (xorBlock a buf) = length a"
proof -
  have "length (fold (\<lambda>i a. a[i := f i a]) is a) = length a" for f and "is" :: "nat list"
    by (induction "is" arbitrary: a) simp_all
  then show ?thesis by (simp add: xorBlock_def)
qed

lemma length_rateBytes [simp]: "length (rateBytes a) = Rate"
  by (simp add: rateBytes_def Rate_def length_concat comp_def sum_list_triv)

definition ts_ok :: "turboshake \<Rightarrow> bool" where
  "ts_ok s \<longleftrightarrow> length (ts_a s) = 25 \<and> length (ts_buf s) = Rate
     \<and> (if ts_squeezing s then ts_n s \<le> Rate else ts_n s < Rate)"

subsection \<open>Writing and reading byte by byte\<close>

definition write1 :: "byte \<Rightarrow> turboshake \<Rightarrow> turboshake" where
  "write1 b s =
     (let s = s\<lparr>ts_buf := (ts_buf s)[ts_n s := b], ts_n := ts_n s + 1\<rparr>
      in if ts_n s = Rate then (absorbBuf s)\<lparr>ts_n := 0\<rparr> else s)"

lemma write1_ok:
  assumes "ts_ok s" and "\<not> ts_squeezing s"
  shows "ts_ok (write1 b s)" and "\<not> ts_squeezing (write1 b s)"
  using assms by (auto simp: ts_ok_def write1_def absorbBuf_def Let_def Rate_def)

lemma fold_write1_ok:
  "ts_ok s \<Longrightarrow> \<not> ts_squeezing s \<Longrightarrow> ts_ok (fold write1 p s) \<and> \<not> ts_squeezing (fold write1 p s)"
  by (induction p arbitrary: s) (simp_all add: write1_ok)

text \<open>Filling the buffer from one slice is writing its bytes one by one.\<close>

lemma fold_write1_chunk:
  assumes "length (ts_buf s) = Rate" and "p \<noteq> []" and "ts_n s + length p \<le> Rate"
  shows "fold write1 p s =
    (let s = s\<lparr>ts_buf := take (ts_n s) (ts_buf s) @ p @ drop (ts_n s + length p) (ts_buf s),
               ts_n := ts_n s + length p\<rparr>
     in if ts_n s = Rate then (absorbBuf s)\<lparr>ts_n := 0\<rparr> else s)"
  using assms
proof (induction p arbitrary: s)
  case (Cons b p)
  have split: "(ts_buf s)[ts_n s := b] = take (ts_n s) (ts_buf s) @ b # drop (Suc (ts_n s)) (ts_buf s)"
    using Cons.prems by (intro upd_conv_take_nth_drop) simp
  show ?case
  proof (cases "p = []")
    case True
    then show ?thesis by (simp add: write1_def split Let_def)
  next
    case False
    let ?s = "s\<lparr>ts_buf := (ts_buf s)[ts_n s := b], ts_n := ts_n s + 1\<rparr>"
    have "write1 b s = ?s" using Cons.prems False by (cases p) (auto simp: write1_def Let_def)
    then have "fold write1 (b # p) s = fold write1 p ?s" by simp
    also have "\<dots> = (let s = ?s\<lparr>ts_buf := take (ts_n ?s) (ts_buf ?s) @ p @ drop (ts_n ?s + length p) (ts_buf ?s),
               ts_n := ts_n ?s + length p\<rparr>
       in if ts_n s = Rate then (absorbBuf s)\<lparr>ts_n := 0\<rparr> else s)"
      using Cons.prems False by (intro Cons.IH) simp_all
    finally show ?thesis using Cons.prems by (simp add: split min_absorb2 add.commute)
  qed
qed simp

lemma Write_loop_bytes: "ts_ok s \<Longrightarrow> \<not> ts_squeezing s \<Longrightarrow> Write_loop s p = fold write1 p s"
proof (induction s p rule: Write_loop.induct)
  case (1 s p)
  define c where "c = min (Rate - ts_n s) (length p)"
  show ?case
  proof (cases "p = [] \<or> c = 0")
    case True
    then have "p = []" using 1(2,3) by (cases "p = []") (auto simp: c_def ts_ok_def min_def split: if_splits)
    then show ?thesis by (simp add: Write_loop.simps)
  next
    case False
    define s1 where "s1 = s\<lparr>ts_buf := take (ts_n s) (ts_buf s) @ take c p @ drop (ts_n s + c) (ts_buf s),
                   ts_n := ts_n s + c\<rparr>"
    define s2 where "s2 = (if ts_n s1 = Rate then (absorbBuf s1)\<lparr>ts_n := 0\<rparr> else s1)"
    have len: "length (take c p) = c" by (simp add: c_def)
    have fits: "ts_n s + c \<le> Rate" using 1(2,3) by (auto simp: c_def ts_ok_def min_def)
    have chunk: "fold write1 (take c p) s = s2"
      using False 1(2) len fits fold_write1_chunk [of s "take c p"]
      by (simp add: s2_def s1_def Let_def ts_ok_def)
    have "ts_ok s2" "\<not> ts_squeezing s2" using fold_write1_ok [OF 1(2,3), of "take c p"] chunk by simp_all
    with 1(1) [OF c_def _ s1_def s2_def] False have "Write_loop s2 (drop c p) = fold write1 (drop c p) s2"
      by simp
    moreover have "Write_loop s p = Write_loop s2 (drop c p)"
      using False by (subst Write_loop.simps) (simp add: s2_def s1_def Let_def flip: c_def)
    moreover have "fold write1 p s = fold write1 (drop c p) (fold write1 (take c p) s)"
      by (simp only: fold_append [symmetric, THEN fun_cong, unfolded comp_def] append_take_drop_id)
    ultimately show ?thesis by (simp add: chunk)
  qed
qed

lemma Write_append:
  assumes "ts_ok s" and "\<not> ts_squeezing s"
  shows "Write s (p @ q) = Option.bind (Write s p) (\<lambda>s. Write s q)"
  using assms fold_write1_ok [OF assms, of p] by (simp add: Write_def Write_loop_bytes)

text \<open>One byte of output, with the refill that may precede it.\<close>

definition refill :: "turboshake \<Rightarrow> turboshake" where
  "refill s = (if ts_n s = Rate then (fillBuf (s\<lparr>ts_a := permute (ts_a s)\<rparr>))\<lparr>ts_n := 0\<rparr> else s)"

definition read1 :: "turboshake \<Rightarrow> turboshake \<times> byte" where
  "read1 s = (let s = refill s in (s\<lparr>ts_n := ts_n s + 1\<rparr>, ts_buf s ! ts_n s))"

primrec readN :: "nat \<Rightarrow> turboshake \<Rightarrow> turboshake \<times> bytes" where
  "readN 0 s = (s, [])"
| "readN (Suc n) s = (let (s, b) = read1 s; (s, bs) = readN n s in (s, b # bs))"

lemma readN_add:
  "readN (m + n) s = (let (s, a) = readN m s; (s, b) = readN n s in (s, a @ b))"
  by (induction m arbitrary: s) (simp_all add: Let_def split_beta)

lemma refill_ok: "ts_ok s \<Longrightarrow> ts_squeezing s \<Longrightarrow>
    ts_ok (refill s) \<and> ts_squeezing (refill s) \<and> ts_n (refill s) < Rate"
  by (auto simp: refill_def ts_ok_def fillBuf_def Rate_def)

lemma readN_chunk:
  assumes "length (ts_buf s) = Rate" and "ts_n s + n \<le> Rate"
  shows "readN n s = (s\<lparr>ts_n := ts_n s + n\<rparr>, take n (drop (ts_n s) (ts_buf s)))"
  using assms
proof (induction n arbitrary: s)
  case (Suc n)
  then have "read1 s = (s\<lparr>ts_n := ts_n s + 1\<rparr>, ts_buf s ! ts_n s)"
    by (simp add: read1_def refill_def)
  with Suc show ?case by (simp add: Cons_nth_drop_Suc [symmetric])
qed simp

lemma readN_refill: "readN (Suc n) s = readN (Suc n) (refill s)" if "ts_n (refill s) < Rate"
  using that by (simp add: read1_def Let_def refill_def)

lemma Read_loop_bytes: "ts_ok s \<Longrightarrow> ts_squeezing s \<Longrightarrow> Read_loop s len = readN len s"
proof (induction s len rule: Read_loop.induct)
  case (1 s len)
  show ?case
  proof (cases "len = 0")
    case True
    then show ?thesis by (simp add: Read_loop.simps)
  next
    case False
    define s1 where "s1 = refill s"
    define c where "c = min len (Rate - ts_n s1)"
    have s1: "ts_ok s1" "ts_squeezing s1" "ts_n s1 < Rate" using refill_ok [OF 1(2,3)] by (simp_all add: s1_def)
    have c: "c \<noteq> 0" "c \<le> len" "ts_n s1 + c \<le> Rate" using s1(3) False by (auto simp: c_def)
    have chunk: "readN c s1 = (s1\<lparr>ts_n := ts_n s1 + c\<rparr>, take c (drop (ts_n s1) (ts_buf s1)))"
      using s1(1) c(3) by (intro readN_chunk) (simp_all add: ts_ok_def)
    have "ts_ok (s1\<lparr>ts_n := ts_n s1 + c\<rparr>)" using s1 c(3) by (simp add: ts_ok_def)
    then have IH: "Read_loop (s1\<lparr>ts_n := ts_n s1 + c\<rparr>) (len - c) = readN (len - c) (s1\<lparr>ts_n := ts_n s1 + c\<rparr>)"
      using 1(1) [OF False s1_def [unfolded refill_def] c_def c(1) refl] s1(2) by simp
    have "Read_loop s len = (let (s, rest) = Read_loop (s1\<lparr>ts_n := ts_n s1 + c\<rparr>) (len - c)
        in (s, take c (drop (ts_n s1) (ts_buf s1)) @ rest))"
      using False c(1) by (subst Read_loop.simps) (simp add: Let_def refill_def [symmetric] flip: s1_def c_def)
    also have "\<dots> = readN (c + (len - c)) s1" by (simp add: readN_add chunk IH)
    also have "\<dots> = readN len s"
      using c readN_refill [of s "len - 1"] s1(3) False by (simp add: s1_def)
    finally show ?thesis .
  qed
qed

lemma pad_ok:
  assumes "ts_ok s" and "\<not> ts_squeezing s"
  shows "ts_ok (pad s)" and "ts_squeezing (pad s)"
  using assms by (auto simp: pad_def ts_ok_def Let_def absorbBuf_def fillBuf_def)

lemma readN_ok: "ts_ok s \<Longrightarrow> ts_squeezing s \<Longrightarrow>
    ts_ok (fst (readN n s)) \<and> ts_squeezing (fst (readN n s)) \<and> length (snd (readN n s)) = n"
proof (induction n arbitrary: s)
  case (Suc n)
  have "ts_ok (fst (read1 s))" "ts_squeezing (fst (read1 s))"
    using refill_ok [OF Suc.prems] by (auto simp: read1_def Let_def ts_ok_def)
  with Suc.IH [of "fst (read1 s)"] show ?case by (simp add: split_beta Let_def)
qed simp

definition finalized :: "turboshake \<Rightarrow> turboshake" where
  "finalized s = (if \<not> ts_squeezing s then pad s else s)"

lemma finalized_ok: "ts_ok s \<Longrightarrow> ts_ok (finalized s) \<and> ts_squeezing (finalized s)"
  using pad_ok by (simp add: finalized_def)

lemma Read_bytes: "ts_ok s \<Longrightarrow> Read s len = readN len (finalized s)"
  using finalized_ok [of s] Read_loop_bytes [of "finalized s"] by (simp add: Read_def finalized_def)

lemma Read_add:
  assumes "ts_ok s"
  shows "Read s (m + n) = (let (s, a) = Read s m; (s, b) = Read s n in (s, a @ b))"
proof -
  have "ts_ok (fst (readN m (finalized s)))" "ts_squeezing (fst (readN m (finalized s)))"
    using readN_ok finalized_ok [OF assms] by blast+
  then show ?thesis
    using assms by (simp add: Read_bytes readN_add split_beta Let_def finalized_def [of "fst _"])
qed

subsection \<open>The one-shot function\<close>

text \<open>TurboSHAKE128 without buffers: absorb the full blocks of the message, absorb the padded
  last block, and read the stream off the iterated permutation.\<close>

function absorb_spec :: "64 word list \<Rightarrow> bytes \<Rightarrow> 64 word list \<times> bytes" where
  "absorb_spec a m =
     (if length m < Rate then (a, m)
      else absorb_spec (permute (xorBlock a (take Rate m))) (drop Rate m))"
  by pat_completeness auto
termination
  by (relation "measure (\<lambda>(a, m). length m)") (auto simp: Rate_def)

declare absorb_spec.simps [simp del]

definition pad_spec :: "bytes \<Rightarrow> byte \<Rightarrow> bytes" where
  "pad_spec m d =
     (let block = m @ [d] @ replicate (Rate - (length m + 1)) 0
      in block[Rate - 1 := block ! (Rate - 1) XOR 0x80])"

definition turboshake128_spec :: "bytes \<Rightarrow> byte \<Rightarrow> nat \<Rightarrow> byte" where
  "turboshake128_spec m d i =
     (let (a, rest) = absorb_spec (replicate 25 0) m;
          a = permute (xorBlock a (pad_spec rest d))
      in rateBytes ((permute ^^ (i div Rate)) a) ! (i mod Rate))"

lemma absorb_spec_snoc:
  "absorb_spec a (m @ [b]) =
     (let (a, r) = absorb_spec a m
      in if length r + 1 = Rate then (permute (xorBlock a (r @ [b])), []) else (a, r @ [b]))"
proof (induction a m rule: absorb_spec.induct)
  case (1 a m)
  show ?case
  proof (cases "length m < Rate")
    case True
    then show ?thesis
      by (subst (1 2) absorb_spec.simps) (simp add: absorb_spec.simps [of _ "[]"] Rate_def)
  next
    case False
    then show ?thesis using 1 by (subst (1 2) absorb_spec.simps) simp
  qed
qed

lemma absorb_spec_rest: "length (snd (absorb_spec a m)) < Rate"
  by (induction a m rule: absorb_spec.induct) (subst absorb_spec.simps, simp)

text \<open>The buffered state stands for the absorbed lanes and the bytes of the current block.\<close>

lemma write1_abs:
  assumes "ts_ok s" and "\<not> ts_squeezing s" and "(ts_a s, take (ts_n s) (ts_buf s)) = absorb_spec a m"
  shows "(ts_a (write1 b s), take (ts_n (write1 b s)) (ts_buf (write1 b s))) = absorb_spec a (m @ [b])"
proof -
  have n: "ts_n s < length (ts_buf s)" "length (ts_buf s) = Rate" using assms(1,2) by (simp_all add: ts_ok_def)
  have t: "take (Suc (ts_n s)) ((ts_buf s)[ts_n s := b]) = take (ts_n s) (ts_buf s) @ [b]"
    using n by (simp add: take_Suc_conv_app_nth)
  show ?thesis
  proof (cases "ts_n s + 1 = Rate")
    case True
    then have "(ts_buf s)[ts_n s := b] = take (ts_n s) (ts_buf s) @ [b]" using t n by simp
    with True n show ?thesis
      by (simp add: absorb_spec_snoc assms(3) [symmetric] write1_def absorbBuf_def)
  next
    case False
    with n t show ?thesis by (simp add: absorb_spec_snoc assms(3) [symmetric] write1_def)
  qed
qed

lemma fold_write1_abs:
  assumes "ts_ok s" and "\<not> ts_squeezing s" and "(ts_a s, take (ts_n s) (ts_buf s)) = absorb_spec a m"
  shows "(ts_a (fold write1 p s), take (ts_n (fold write1 p s)) (ts_buf (fold write1 p s)))
    = absorb_spec a (m @ p)"
  using assms
proof (induction p arbitrary: s m)
  case (Cons b p)
  from Cons.IH [OF write1_ok [OF Cons.prems(1,2)] write1_abs [OF Cons.prems]] show ?case by simp
qed simp

text \<open>A squeezing state at position \<open>i\<close> of the stream of the lanes \<open>a\<close>.\<close>

definition at_pos :: "64 word list \<Rightarrow> nat \<Rightarrow> turboshake \<Rightarrow> bool" where
  "at_pos a i s \<longleftrightarrow> ts_squeezing s \<and> ts_n s \<le> Rate \<and> ts_buf s = rateBytes (ts_a s)
     \<and> (\<exists>j. ts_a s = (permute ^^ j) a \<and> i = j * Rate + ts_n s)"

lemma read1_stream:
  assumes "at_pos a i s"
  shows "at_pos a (Suc i) (fst (read1 s))
    \<and> snd (read1 s) = rateBytes ((permute ^^ (i div Rate)) a) ! (i mod Rate)"
proof -
  obtain j where j: "ts_a s = (permute ^^ j) a" "i = j * Rate + ts_n s"
    and s: "ts_squeezing s" "ts_n s \<le> Rate" "ts_buf s = rateBytes (ts_a s)"
    using assms by (auto simp: at_pos_def)
  have pos: "0 < Rate" by (simp add: Rate_def)
  show ?thesis
  proof (cases "ts_n s = Rate")
    case True
    then have i: "i = Suc j * Rate" using j by simp
    have "i div Rate = Suc j" "i mod Rate = 0" using pos unfolding i by simp_all
    then show ?thesis
      using True s j pos
      by (auto simp: read1_def refill_def fillBuf_def at_pos_def intro!: exI [of _ "Suc j"])
  next
    case False
    then have "ts_n s < Rate" using s by simp
    then have "i div Rate = j" "i mod Rate = ts_n s" using j(2) by simp_all
    then show ?thesis
      using \<open>ts_n s < Rate\<close> s j
      by (auto simp: read1_def refill_def at_pos_def intro!: exI [of _ j])
  qed
qed

lemma readN_stream:
  "at_pos a i s \<Longrightarrow> snd (readN n s)
     = map (\<lambda>i. rateBytes ((permute ^^ (i div Rate)) a) ! (i mod Rate)) [i..<i + n]"
proof (induction n arbitrary: i s)
  case (Suc n)
  have "[i..<i + Suc n] = i # [Suc i..<Suc i + n]" by (simp add: upt_conv_Cons del: upt_Suc)
  with Suc.IH [of "Suc i" "fst (read1 s)"] read1_stream [OF Suc.prems] show ?case
    by (simp add: split_beta Let_def del: upt_Suc)
qed simp

lemma fresh_ok: "New128 d = Inr s \<Longrightarrow> ts_ok s \<and> \<not> ts_squeezing s \<and> ts_d s = d
    \<and> (ts_a s, take (ts_n s) (ts_buf s)) = absorb_spec (replicate 25 0) []"
  by (subst absorb_spec.simps) (auto simp: New128_def ts_ok_def Rate_def split: if_splits)

lemma fold_write1_d: "ts_d (fold write1 p s) = ts_d s"
  by (induction p arbitrary: s) (simp_all add: write1_def absorbBuf_def Let_def)

lemma Sum128_spec:
  "Sum128 m d len =
     (if d < 1 \<or> d > 0x7F then Some (Inl ErrDomainByte)
      else Some (Inr (map (turboshake128_spec m d) [0..<len])))"
proof (cases "New128 d")
  case (Inl e)
  then show ?thesis by (auto simp: Sum128_def New128_def split: if_splits)
next
  case (Inr s)
  then have d: "\<not> (d < 1 \<or> d > 0x7F)" by (auto simp: New128_def split: if_splits)
  define s1 where "s1 = fold write1 m s"
  note s = fresh_ok [OF Inr]
  have s1: "ts_ok s1" "\<not> ts_squeezing s1" "ts_d s1 = d"
    using fold_write1_ok [of s m] s by (simp_all add: s1_def fold_write1_d)
  have abs: "absorb_spec (replicate 25 0) m = (ts_a s1, take (ts_n s1) (ts_buf s1))"
    using fold_write1_abs [of s "replicate 25 0" "[]" m] s by (simp add: s1_def)
  define a where "a = permute (xorBlock (ts_a s1) (pad_spec (take (ts_n s1) (ts_buf s1)) d))"
  have "ts_n s1 \<le> length (ts_buf s1)" using s1 by (simp add: ts_ok_def)
  then have "at_pos a 0 (pad s1)"
    using s1(3) by (auto simp: at_pos_def pad_def pad_spec_def a_def fillBuf_def absorbBuf_def Let_def
        min_absorb2 intro!: exI [of _ 0])
  then have "snd (readN len (pad s1)) = map (turboshake128_spec m d) [0..<len]"
    by (simp add: readN_stream turboshake128_spec_def [abs_def] abs a_def)
  moreover have "Sum128 m d len = Some (Inr (snd (Read s1 len)))"
    using Inr s by (simp add: Sum128_def Write_def Write_loop_bytes s1_def)
  ultimately show ?thesis using d s1 by (simp add: Read_bytes finalized_def)
qed

subsection \<open>Properties\<close>

lemma Read_ok: "ts_ok x \<Longrightarrow> ts_ok (fst (Read x n)) \<and> length (snd (Read x n)) = n"
  using readN_ok finalized_ok by (simp add: Read_bytes)

text \<open>A caller that feeds and drains the sponge piecewise.\<close>

primrec writeAll :: "turboshake \<Rightarrow> bytes list \<Rightarrow> turboshake option" where
  "writeAll s [] = Some s"
| "writeAll s (p # ps) = (case Write s p of None \<Rightarrow> None | Some s \<Rightarrow> writeAll s ps)"

primrec readAll :: "turboshake \<Rightarrow> nat list \<Rightarrow> bytes" where
  "readAll s [] = []"
| "readAll s (n # ns) = (case Read s n of (s, bs) \<Rightarrow> bs @ readAll s ns)"

lemma Write_ok: "ts_ok s \<Longrightarrow> \<not> ts_squeezing s \<Longrightarrow> \<exists>s'. Write s p = Some s' \<and> ts_ok s' \<and> \<not> ts_squeezing s'"
  using fold_write1_ok [of s p] by (simp add: Write_def Write_loop_bytes)

lemma writeAll_concat:
  "ts_ok s \<Longrightarrow> \<not> ts_squeezing s \<Longrightarrow> writeAll s ps = Write s (concat ps)"
proof (induction ps arbitrary: s)
  case Nil
  then show ?case by (simp add: Write_def Write_loop.simps)
next
  case (Cons p ps)
  then show ?case using Write_ok [of s p] by (auto simp: Write_append)
qed

lemma readAll_sum: "ts_ok s \<Longrightarrow> readAll s ns = snd (Read s (sum_list ns))"
proof (induction ns arbitrary: s)
  case Nil
  then show ?case using Read_ok [of s 0] by simp
next
  case (Cons n ns)
  then show ?case using Read_ok [of s n] by (simp add: Read_add split_beta Let_def)
qed

text \<open>
  C26. The buffered, incremental sponge refines the TurboSHAKE128 specification: however the
  message is split over writes and the output over reads, the bytes read are those of the
  padded-block specification of the whole message.
\<close>

theorem turboshake_streaming:
  assumes "New128 d = Inr s"
  shows "map_option (\<lambda>s'. readAll s' ns) (writeAll s ps)
    = Some (map (turboshake128_spec (concat ps) d) [0..<sum_list ns])"
proof -
  have ok: "ts_ok s" "\<not> ts_squeezing s" using fresh_ok [OF assms] by simp_all
  obtain s' where s': "Write s (concat ps) = Some s'" "ts_ok s'" using Write_ok [OF ok] by blast
  have "Sum128 (concat ps) d (sum_list ns) = Some (Inr (snd (Read s' (sum_list ns))))"
    using assms s' by (simp add: Sum128_def)
  moreover have "\<not> (d < 1 \<or> d > 0x7F)" using assms by (auto simp: New128_def split: if_splits)
  ultimately show ?thesis using s' by (simp add: Sum128_spec writeAll_concat [OF ok] readAll_sum)
qed

theorem turboshake_streaming_witness:
  "\<exists>s. New128 31 = Inr s \<and> map_option (\<lambda>s'. readAll s' [5, 200]) (writeAll s [[1, 2], [], [3]])
    = Some (map (turboshake128_spec [1, 2, 3] 31) [0..<205])"
proof -
  obtain s where s: "New128 31 = Inr s" by (auto simp: New128_def)
  with turboshake_streaming [OF s, of "[5, 200]" "[[1, 2], [], [3]]"] show ?thesis by auto
qed

end
