(* ===== verification/Xof.thy ===== *)
theory Xof
  imports TurboShake "HOL-Library.Monad_Syntax"
begin

text \<open>
  \<^verbatim>\<open>pkg/vdaf/xof/xof.go\<close>: XofTurboShake128, its domain-separation tags and the
  rejection-sampled expansion into field elements. An \<open>Xof\<close> is its sponge. The sampling loop
  has no bound: \<open>NextVecField64\<close> is None where it does not return, and
  \<open>NextVecField64_returns\<close> and \<open>NextVecField64_only\<close> say when it does and what it returns.
\<close>

definition SeedSize :: nat where "SeedSize = 32"
definition Version :: "8 word" where "Version = 18"
definition algoClassVDAF :: "8 word" where "algoClassVDAF = 0"

definition UsageMeasShare :: "16 word" where "UsageMeasShare = 1"
definition UsageProofShare :: "16 word" where "UsageProofShare = 2"
definition UsageProveRandomness :: "16 word" where "UsageProveRandomness = 4"
definition UsageQueryRandomness :: "16 word" where "UsageQueryRandomness = 5"

datatype xof_error = ErrSeedSize | ErrDSTSize | TurboShakeError turboshake_error

type_synonym xof = turboshake

text \<open>The outer option is a panic of the sponge's \<open>Write\<close>.\<close>

definition Xof_New :: "bytes \<Rightarrow> bytes \<Rightarrow> bytes \<Rightarrow> (xof_error + xof) option" where
  "Xof_New seed dst bnd =
     (if length seed > 255 then Some (Inl ErrSeedSize)
      else if length dst > 65535 then Some (Inl ErrDSTSize)
      else case New128 0x01 of
             Inl err \<Rightarrow> Some (Inl (TurboShakeError err))
           | Inr ts \<Rightarrow> do {
               ts \<leftarrow> Write ts (le 2 (length dst));
               ts \<leftarrow> Write ts dst;
               ts \<leftarrow> Write ts [word_of_nat (length seed)];
               ts \<leftarrow> Write ts seed;
               ts \<leftarrow> Write ts bnd;
               Some (Inr ts)
             })"

definition Xof_Next :: "xof \<Rightarrow> nat \<Rightarrow> xof \<times> bytes" where
  "Xof_Next x n = Read x n"

partial_function (option) NextVec_loop :: "nat \<Rightarrow> elt list \<Rightarrow> xof \<Rightarrow> (xof \<times> elt list) option" where
  "NextVec_loop len out ts =
     (if length out < len then
        let (ts', buf) = Read ts 8;
            v = word_of_nat (le_val buf)
        in NextVec_loop len (if v < Modulus then out @ [v] else out) ts'
      else Some (ts, out))"

definition NextVecField64 :: "xof \<Rightarrow> nat \<Rightarrow> (xof \<times> elt list) option" where
  "NextVecField64 x len = NextVec_loop len [] x"

definition DeriveSeed :: "bytes \<Rightarrow> bytes \<Rightarrow> bytes \<Rightarrow> (xof_error + bytes) option" where
  "DeriveSeed seed dst bnd = do {
     r \<leftarrow> Xof_New seed dst bnd;
     Some (case r of Inl err \<Rightarrow> Inl err | Inr x \<Rightarrow> Inr (snd (Xof_Next x SeedSize)))
   }"

definition ExpandIntoVecField64 ::
  "bytes \<Rightarrow> bytes \<Rightarrow> bytes \<Rightarrow> nat \<Rightarrow> (xof_error + elt list) option" where
  "ExpandIntoVecField64 seed dst bnd len = do {
     r \<leftarrow> Xof_New seed dst bnd;
     case r of Inl err \<Rightarrow> Some (Inl err)
     | Inr x \<Rightarrow> do { (x, out) \<leftarrow> NextVecField64 x len; Some (Inr out) }
   }"

definition FormatDST :: "8 word \<Rightarrow> 32 word \<Rightarrow> 16 word \<Rightarrow> bytes" where
  "FormatDST algoClass algo usage = [Version, algoClass] @ be 4 (unat algo) @ be 2 (unat usage)"

definition DomainSeparationTag :: "16 word \<Rightarrow> 32 word \<Rightarrow> bytes \<Rightarrow> bytes" where
  "DomainSeparationTag usage algoID ctx = FormatDST algoClassVDAF algoID usage @ ctx"

subsection \<open>The sponge input\<close>

definition xof_message :: "bytes \<Rightarrow> bytes \<Rightarrow> bytes \<Rightarrow> bytes" where
  "xof_message seed dst bnd =
     le 2 (length dst) @ dst @ [word_of_nat (length seed)] @ seed @ bnd"

definition fresh_sponge :: turboshake where
  "fresh_sponge = \<lparr>ts_a = replicate 25 0, ts_buf = replicate Rate 0, ts_n = 0, ts_d = 1,
     ts_squeezing = False\<rparr>"

lemma New128_1: "New128 1 = Inr fresh_sponge"
  by (simp add: New128_def fresh_sponge_def)

lemma Xof_New_message:
  assumes "length seed \<le> 255" and "length dst \<le> 65535"
  shows "Xof_New seed dst bnd = Some (Inr (fold write1 (xof_message seed dst bnd) fresh_sponge))"
proof -
  have ok: "ts_ok fresh_sponge" "\<not> ts_squeezing fresh_sponge" using fresh_ok [OF New128_1] by simp_all
  have w: "Write s p = Some (fold write1 p s)" if "ts_ok s" "\<not> ts_squeezing s" for s p
    using that by (simp add: Write_def Write_loop_bytes)
  note all = fold_write1_ok [OF ok]
  show ?thesis
    using assms by (simp add: Xof_New_def New128_1 w ok all fold_write1_ok write1_ok xof_message_def)
qed

text \<open>The framing is injective: distinct seeds, tags or binders give distinct sponge inputs.\<close>

lemma xof_message_injective:
  assumes "xof_message seed dst bnd = xof_message seed' dst' bnd'"
    and "length seed \<le> 255" "length seed' \<le> 255" "length dst \<le> 65535" "length dst' \<le> 65535"
  shows "seed = seed' \<and> dst = dst' \<and> bnd = bnd'"
proof -
  have "le 2 (length dst) = le 2 (length dst')"
    and rest: "dst @ word_of_nat (length seed) # seed @ bnd
      = dst' @ word_of_nat (length seed') # seed' @ bnd'"
    using assms(1) by (auto simp: xof_message_def)
  then have "le_val (le 2 (length dst)) = le_val (le 2 (length dst'))" by simp
  then have "length dst = length dst'" using assms(4,5) by (simp add: le_val_le)
  with rest have d: "dst = dst'" and "word_of_nat (length seed) = (word_of_nat (length seed') :: byte)"
    and s: "seed @ bnd = seed' @ bnd'" by auto
  then have "unat (word_of_nat (length seed) :: byte) = unat (word_of_nat (length seed') :: byte)" by simp
  then have "length seed = length seed'" using assms(2,3) by (simp add: unat_of_nat)
  with s d show ?thesis by auto
qed

lemma length_FormatDST [simp]: "length (FormatDST c a u) = 8"
  by (simp add: FormatDST_def)

lemma DomainSeparationTag_injective:
  "DomainSeparationTag u a ctx = DomainSeparationTag u' a' ctx' \<longleftrightarrow> u = u' \<and> a = a' \<and> ctx = ctx'"
proof
  assume eq: "DomainSeparationTag u a ctx = DomainSeparationTag u' a' ctx'"
  then have "be 4 (unat a) = be 4 (unat a')" "be 2 (unat u) = be 2 (unat u')" "ctx = ctx'"
    by (auto simp: DomainSeparationTag_def FormatDST_def)
  then show "u = u' \<and> a = a' \<and> ctx = ctx'"
    using be_unat_inject [of 4 a a'] be_unat_inject [of 2 u u'] by simp
qed simp

subsection \<open>Rejection sampling\<close>

text \<open>The \<open>i\<close>-th candidate the loop reads.\<close>

definition candidate :: "xof \<Rightarrow> nat \<Rightarrow> elt" where
  "candidate x i = word_of_nat (le_val (drop (8 * i) (snd (Read x (8 * i + 8)))))"

lemma candidate_0: "candidate x 0 = word_of_nat (le_val (snd (Read x 8)))"
  by (simp add: candidate_def)

lemma candidate_Suc: "ts_ok x \<Longrightarrow> candidate x (Suc i) = candidate (fst (Read x 8)) i"
proof -
  assume x: "ts_ok x"
  have "snd (Read x (8 + (8 * i + 8))) = snd (Read x 8) @ snd (Read (fst (Read x 8)) (8 * i + 8))"
    by (simp only: Read_add [OF x] Let_def split_beta) simp
  moreover have "length (snd (Read x 8)) = 8" using Read_ok [OF x] by simp
  ultimately show ?thesis by (simp add: candidate_def)
qed

lemma candidates_Suc:
  "ts_ok x \<Longrightarrow> map (candidate x) [0..<Suc N] = candidate x 0 # map (candidate (fst (Read x 8))) [0..<N]"
  by (simp add: upt_conv_Cons map_Suc_upt [symmetric] candidate_Suc del: upt_Suc)

lemma NextVec_loop_returns:
  assumes "ts_ok x" and "len \<le> length out + length (filter canonical (map (candidate x) [0..<N]))"
    and "length out \<le> len"
  shows "\<exists>x'. NextVec_loop len out x
    = Some (x', take len (out @ filter canonical (map (candidate x) [0..<N])))"
  using assms
proof (induction N arbitrary: out x)
  case 0
  then show ?case by (subst NextVec_loop.simps) simp
next
  case (Suc N)
  show ?case
  proof (cases "length out < len")
    case False
    with Suc.prems(3) show ?thesis by (subst NextVec_loop.simps) simp
  next
    case True
    let ?x = "fst (Read x 8)" and ?v = "candidate x 0"
    let ?out = "if ?v < Modulus then out @ [?v] else out"
    have step: "NextVec_loop len out x = NextVec_loop len ?out ?x"
      using True by (subst NextVec_loop.simps) (simp add: candidate_0 split_beta Let_def)
    note candidates_Suc [OF Suc.prems(1), of N]
    then have split: "out @ filter canonical (map (candidate x) [0..<Suc N])
        = ?out @ filter canonical (map (candidate ?x) [0..<N])"
      by (simp only: filter.simps canonical_def [of ?v]) simp
    have "ts_ok ?x" using Read_ok [OF Suc.prems(1)] by simp
    moreover have "len \<le> length ?out + length (filter canonical (map (candidate ?x) [0..<N]))"
      using Suc.prems(2) split by (metis length_append)
    moreover have "length ?out \<le> len" using True by auto
    ultimately show ?thesis unfolding step split by (rule Suc.IH)
  qed
qed

text \<open>The samples are the first candidates below the modulus, whenever there are enough.\<close>

lemma NextVecField64_returns:
  assumes "ts_ok x" and "len \<le> length (filter canonical (map (candidate x) [0..<N]))"
  shows "\<exists>x'. NextVecField64 x len
    = Some (x', take len (filter canonical (map (candidate x) [0..<N])))"
  using NextVec_loop_returns [of x len "[]" N] assms by (simp add: NextVecField64_def)

text \<open>And only then does the loop return: every further draw needs one more candidate.\<close>

lemma NextVec_loop_only:
  assumes "NextVec_loop len out x = Some r"
  shows "ts_ok x \<longrightarrow> (\<exists>N. len \<le> length out + length (filter canonical (map (candidate x) [0..<N])))"
proof -
  let ?Q = "\<lambda>len out x. ts_ok x \<longrightarrow> (\<exists>N. len \<le> length out + length (filter canonical (map (candidate x) [0..<N])))"
  show ?thesis
  proof (rule NextVec_loop.raw_induct [where P = "\<lambda>len out x r. ?Q len out x", OF _ assms], intro impI, goal_cases)
    case (1 loop len out x r)
    let ?x = "fst (Read x 8)" and ?v = "candidate x 0"
    let ?out = "if ?v < Modulus then out @ [?v] else out"
    show ?case
    proof (cases "length out < len")
      case True
      then have "loop len ?out ?x = Some r" using 1(2) by (simp add: Let_def split_beta candidate_0 split del: if_split cong: if_cong)
      moreover have "ts_ok ?x" using Read_ok [OF 1(3)] by simp
      ultimately obtain N where "len \<le> length ?out + length (filter canonical (map (candidate ?x) [0..<N]))"
        using 1(1) by blast
      then have "len \<le> length out + length (filter canonical (map (candidate x) [0..<Suc N]))"
        unfolding candidates_Suc [OF 1(3)] by (auto simp: canonical_def split: if_splits)
      then show ?thesis by blast
    qed auto
  qed
qed

lemma NextVecField64_only:
  assumes "ts_ok x" and "NextVecField64 x len = Some (x', v)"
  shows "\<exists>N. len \<le> length (filter canonical (map (candidate x) [0..<N]))
    \<and> v = take len (filter canonical (map (candidate x) [0..<N]))"
proof -
  obtain N where N: "len \<le> length (filter canonical (map (candidate x) [0..<N]))"
    using NextVec_loop_only [of len "[]" x] assms by (auto simp: NextVecField64_def)
  with NextVecField64_returns [OF assms(1) N] assms(2) show ?thesis by auto
qed

text \<open>And whatever is returned has the requested length and is canonical.\<close>

lemma NextVec_loop_result:
  assumes "NextVec_loop len out x = Some r"
  shows "length out \<le> len \<longrightarrow> list_all canonical out \<longrightarrow>
    length (snd r) = len \<and> list_all canonical (snd r)"
proof -
  let ?P = "\<lambda>len out x r. length out \<le> len \<longrightarrow> list_all canonical out \<longrightarrow>
    length (snd r) = len \<and> list_all canonical (snd (r :: xof \<times> elt list))"
  show ?thesis
    by (rule NextVec_loop.raw_induct [where P = ?P, OF _ assms])
      (auto simp: Let_def split_beta canonical_def split: if_splits)
qed

lemma ExpandIntoVecField64_result:
  assumes "ExpandIntoVecField64 seed dst bnd len = Some (Inr v)"
  shows "length v = len \<and> list_all canonical v"
proof -
  obtain y where "Xof_New seed dst bnd = Some y"
    and "(case y of Inl err \<Rightarrow> Some (Inl err)
      | Inr x \<Rightarrow> do { (x, out) \<leftarrow> NextVecField64 x len; Some (Inr out) }) = Some (Inr v)"
    using assms unfolding ExpandIntoVecField64_def bind_eq_Some_conv by blast
  then obtain x x' where "NextVec_loop len [] x = Some (x', v)"
    by (cases y) (auto simp: NextVecField64_def bind_eq_Some_conv)
  from NextVec_loop_result [OF this] show ?thesis by simp
qed

subsection \<open>Properties\<close>

lemma Xof_New_Inr:
  assumes "Xof_New seed dst bnd = Some (Inr x)"
  shows "length seed \<le> 255" and "length dst \<le> 65535" and "Write fresh_sponge (xof_message seed dst bnd) = Some x"
proof -
  show len: "length seed \<le> 255" "length dst \<le> 65535" using assms by (auto simp: Xof_New_def split: if_splits)
  have "x = fold write1 (xof_message seed dst bnd) fresh_sponge" using assms Xof_New_message [OF len] by simp
  then show "Write fresh_sponge (xof_message seed dst bnd) = Some x"
    using fresh_ok [OF New128_1] by (simp add: Write_def Write_loop_bytes)
qed

text \<open>Up to one block, the sponge still holds what was written to it.\<close>

lemma Write_short:
  assumes "Write fresh_sponge w = Some x" and "length w < Rate"
  shows "w = take (ts_n x) (ts_buf x)"
proof -
  have ok: "ts_ok fresh_sponge" "\<not> ts_squeezing fresh_sponge" using fresh_ok [OF New128_1] by simp_all
  then have x: "x = fold write1 w fresh_sponge" using assms(1) by (simp add: Write_def Write_loop_bytes)
  have "(ts_a fresh_sponge, take (ts_n fresh_sponge) (ts_buf fresh_sponge)) = absorb_spec (replicate 25 0) []"
    by (simp add: fresh_sponge_def absorb_spec.simps Rate_def)
  from fold_write1_abs [OF ok this, of w] assms(2) show ?thesis
    by (simp add: x [symmetric] absorb_spec.simps [of "replicate 25 0" w])
qed

text \<open>
  C28. Domain separation of the sponges \<open>New\<close> returns: each is the fresh sponge with one byte
  string absorbed, the tag and the seed with their lengths and then the binding string, and two
  calls absorb the same string only if seed, usage, algorithm, context and binding string are all
  the same. When the strings are shorter than a block, as all of the helper's are for a context
  of DAP, the sponges themselves, and not only their inputs, differ.
\<close>

text \<open>
  C28. Domain separation of the sponges New returns: each is the fresh sponge with one byte
  string absorbed, the tag and the seed with their lengths and then the binding string, and two
  calls that succeed (a seed of at most 255 bytes, a context of at most 65527) absorb the same
  string only if seed, usage, algorithm, context and binding string are all the same. When the
  strings are shorter than a sponge block, as those of Prio3Count are for the contexts DAP
  makes, the sponges themselves differ.
\<close>

theorem xof_separation:
  assumes "Xof_New seed (DomainSeparationTag u a ctx) bnd = Some (Inr x)"
    and "Xof_New seed' (DomainSeparationTag u' a' ctx') bnd' = Some (Inr x')"
  shows "let tag = DomainSeparationTag u a ctx; tag' = DomainSeparationTag u' a' ctx';
      w = le 2 (length tag) @ tag @ [word_of_nat (length seed)] @ seed @ bnd;
      w' = le 2 (length tag') @ tag' @ [word_of_nat (length seed')] @ seed' @ bnd'
    in Write fresh_sponge w = Some x \<and> Write fresh_sponge w' = Some x'
     \<and> (w = w' \<longleftrightarrow> seed = seed' \<and> u = u' \<and> a = a' \<and> ctx = ctx' \<and> bnd = bnd')
     \<and> (length w < Rate \<and> length w' < Rate \<longrightarrow>
          (x = x' \<longleftrightarrow> seed = seed' \<and> u = u' \<and> a = a' \<and> ctx = ctx' \<and> bnd = bnd'))"
proof -
  let ?same = "seed = seed' \<and> u = u' \<and> a = a' \<and> ctx = ctx' \<and> bnd = bnd'"
  let ?w = "xof_message seed (DomainSeparationTag u a ctx) bnd" and ?w' = "xof_message seed' (DomainSeparationTag u' a' ctx') bnd'"
  note x = Xof_New_Inr [OF assms(1)] and x' = Xof_New_Inr [OF assms(2)]
  have inj: "?w = ?w' \<longleftrightarrow> ?same"
    using xof_message_injective [OF _ x(1) x'(1) x(2) x'(2)] by (auto simp: DomainSeparationTag_injective)
  have short: "length ?w < Rate \<and> length ?w' < Rate \<longrightarrow> (x = x' \<longleftrightarrow> ?same)"
  proof (intro impI, elim conjE)
    assume "length ?w < Rate" "length ?w' < Rate"
    from Write_short [OF x(3) this(1)] Write_short [OF x'(3) this(2)] have "x = x' \<Longrightarrow> ?w = ?w'" by simp
    moreover have "?w = ?w' \<Longrightarrow> x = x'" using x(3) x'(3) by simp
    ultimately have "x = x' \<longleftrightarrow> ?w = ?w'" by (rule iffI)
    also note inj
    finally show "x = x' \<longleftrightarrow> ?same" .
  qed
  show ?thesis
    unfolding Let_def xof_message_def [symmetric] by (intro conjI) (fact x(3) x'(3) inj short)+
qed

theorem xof_separation_witness:
  "\<exists>x x'. Xof_New [1] (DomainSeparationTag 1 1 [7]) [] = Some (Inr x)
    \<and> Xof_New [] (DomainSeparationTag 1 1 [7]) [1] = Some (Inr x') \<and> x \<noteq> x'"
proof -
  have tag: "length (DomainSeparationTag 1 1 [7]) = 9" by (simp add: DomainSeparationTag_def)
  obtain x x' where x: "Xof_New [1] (DomainSeparationTag 1 1 [7]) [] = Some (Inr x)"
    "Xof_New [] (DomainSeparationTag 1 1 [7]) [1] = Some (Inr x')"
    using Xof_New_message [of "[1]" "DomainSeparationTag 1 1 [7]" "[]"]
      Xof_New_message [of "[]" "DomainSeparationTag 1 1 [7]" "[1]"] by (simp add: tag)
  from xof_separation [OF this] have "x \<noteq> x'" by (simp add: Let_def tag Rate_def)
  with x show ?thesis by blast
qed

abbreviation xof_stream :: "bytes \<Rightarrow> bytes \<Rightarrow> bytes \<Rightarrow> nat \<Rightarrow> byte" where
  "xof_stream seed dst bnd \<equiv> turboshake128_spec (xof_message seed dst bnd) 1"

lemma Xof_New_stream:
  assumes "length seed \<le> 255" and "length dst \<le> 65535"
  obtains x where "Xof_New seed dst bnd = Some (Inr x)" and "ts_ok x"
    and "\<And>n. snd (Read x n) = map (xof_stream seed dst bnd) [0..<n]"
proof -
  let ?m = "xof_message seed dst bnd"
  let ?x = "fold write1 ?m fresh_sponge"
  have ok: "ts_ok fresh_sponge" "\<not> ts_squeezing fresh_sponge" using fresh_ok [OF New128_1] by simp_all
  have "Sum128 ?m 1 n = Some (Inr (snd (Read ?x n)))" for n
    using ok by (simp add: Sum128_def New128_1 Write_def Write_loop_bytes)
  then have "snd (Read ?x n) = map (xof_stream seed dst bnd) [0..<n]" for n
    by (simp add: Sum128_spec)
  with Xof_New_message [OF assms] fold_write1_ok [OF ok] show thesis by (intro that [of ?x]) auto
qed

text \<open>The \<open>i\<close>-th eight-byte word of the stream.\<close>

definition stream_word :: "bytes \<Rightarrow> bytes \<Rightarrow> bytes \<Rightarrow> nat \<Rightarrow> elt" where
  "stream_word seed dst bnd i = word_of_nat (le_val (map (xof_stream seed dst bnd) [8 * i..<8 * i + 8]))"

text \<open>
  C27. When expanding a seed terminates, and with what: an oversized seed or tag is its own
  error; otherwise the rejection-sampling loop returns exactly when some prefix of the
  TurboSHAKE128 stream of the length-prefixed input holds enough canonical little-endian words,
  and then the result is exactly the first len of them.
\<close>

theorem expand_rejection_sampling:
  "ExpandIntoVecField64 seed dst bnd len = Some r \<longleftrightarrow>
     (if length seed > 255 then r = Inl ErrSeedSize else if length dst > 65535 then r = Inl ErrDSTSize
      else \<exists>N. len \<le> length (filter canonical (map (stream_word seed dst bnd) [0..<N]))
        \<and> r = Inr (take len (filter canonical (map (stream_word seed dst bnd) [0..<N]))))"
proof (cases "length seed > 255 \<or> length dst > 65535")
  case True
  then show ?thesis by (auto simp: ExpandIntoVecField64_def Xof_New_def)
next
  case False
  then have len: "length seed \<le> 255" "length dst \<le> 65535" by simp_all
  obtain x where x: "Xof_New seed dst bnd = Some (Inr x)" "ts_ok x"
    and rd: "\<And>n. snd (Read x n) = map (xof_stream seed dst bnd) [0..<n]"
    using Xof_New_stream [OF len, of bnd] by blast
  have c: "candidate x = stream_word seed dst bnd"
    by (rule ext) (simp add: candidate_def stream_word_def rd drop_map del: upt_Suc)
  have "ExpandIntoVecField64 seed dst bnd len = Some r \<longleftrightarrow> (\<exists>x' v. NextVecField64 x len = Some (x', v) \<and> r = Inr v)"
    using x(1) by (auto simp: ExpandIntoVecField64_def bind_eq_Some_conv)
  also have "\<dots> \<longleftrightarrow> (\<exists>N. len \<le> length (filter canonical (map (candidate x) [0..<N]))
      \<and> r = Inr (take len (filter canonical (map (candidate x) [0..<N]))))"
    using NextVecField64_only [OF x(2), of len] NextVecField64_returns [OF x(2), of len] by blast
  finally show ?thesis using len by (simp add: c)
qed

theorem expand_rejection_sampling_witness:
  "ExpandIntoVecField64 [1, 2] [3] [4] 0 = Some (Inr [])"
  using expand_rejection_sampling [of "[1, 2]" "[3]" "[4]" 0 "Inr []"] by simp

text \<open>
  DeriveSeed on every branch: an oversized seed or tag is its own error, and otherwise the
  result is the first 32 bytes of the TurboSHAKE128 stream of the length-prefixed input.
\<close>

theorem DeriveSeed_spec:
  "DeriveSeed seed dst bnd =
     (if length seed > 255 then Some (Inl ErrSeedSize) else if length dst > 65535 then Some (Inl ErrDSTSize)
      else Some (Inr (map (xof_stream seed dst bnd) [0..<32])))"
proof (cases "length seed > 255 \<or> length dst > 65535")
  case True
  then show ?thesis by (auto simp: DeriveSeed_def Xof_New_def)
next
  case False
  then have "length seed \<le> 255" "length dst \<le> 65535" by simp_all
  then obtain x where "Xof_New seed dst bnd = Some (Inr x)"
    and "\<And>n. snd (Read x n) = map (xof_stream seed dst bnd) [0..<n]"
    using Xof_New_stream by blast
  with False show ?thesis by (simp add: DeriveSeed_def Xof_Next_def SeedSize_def)
qed

end
