(* ===== verification/PolyFun.thy ===== *)
theory PolyFun
  imports Field64
begin

text \<open>
  The mathematics the proof system's transforms rest on: polynomial functions over the field
  with a bound on their degree, determined by their values at enough points; the roots of unity
  of order \<open>2 ^ k\<close>; sums and products over them; and interpolation.
\<close>

subsection \<open>Polynomial functions of bounded degree\<close>

definition pval :: "gf list \<Rightarrow> gf \<Rightarrow> gf" where
  "pval cs x = foldr (\<lambda>c acc. acc * x + c) cs 0"

lemma pval_simps [simp]: "pval [] x = 0" "pval (c # cs) x = pval cs x * x + c"
  by (simp_all add: pval_def)

text \<open>Degree below \<open>n\<close>.\<close>

definition polyfun :: "nat \<Rightarrow> (gf \<Rightarrow> gf) \<Rightarrow> bool" where
  "polyfun n f \<longleftrightarrow> (\<exists>cs. length cs = n \<and> f = pval cs)"

named_theorems polyfun_intros

lemma polyfun_pval [polyfun_intros]: "length cs = n \<Longrightarrow> polyfun n (pval cs)"
  by (auto simp: polyfun_def)

lemma polyfun_0: "polyfun 0 f \<longleftrightarrow> f = (\<lambda>x. 0)"
  by (auto simp: polyfun_def fun_eq_iff)

lemma polyfun_Suc: "polyfun (Suc n) f \<longleftrightarrow> (\<exists>c g. polyfun n g \<and> f = (\<lambda>x. g x * x + c))"
proof
  assume "polyfun (Suc n) f"
  then obtain c cs where "length cs = n" "f = pval (c # cs)"
    by (auto simp: polyfun_def length_Suc_conv)
  then show "\<exists>c g. polyfun n g \<and> f = (\<lambda>x. g x * x + c)"
    by (intro exI [of _ c] exI [of _ "pval cs"]) (auto simp: polyfun_def)
next
  assume "\<exists>c g. polyfun n g \<and> f = (\<lambda>x. g x * x + c)"
  then obtain c cs where "length cs = n" "f = (\<lambda>x. pval cs x * x + c)"
    by (auto simp: polyfun_def)
  then show "polyfun (Suc n) f"
    unfolding polyfun_def by (intro exI [of _ "c # cs"]) (simp add: fun_eq_iff)
qed

lemma polyfun_zero [polyfun_intros, simp]: "polyfun n (\<lambda>x. 0)"
  by (induction n) (auto simp: polyfun_0 polyfun_Suc intro!: exI [of _ 0] exI [of _ "\<lambda>x. 0"])

lemma polyfun_const [polyfun_intros]: "0 < n \<Longrightarrow> polyfun n (\<lambda>x. c)"
  by (cases n) (auto simp: polyfun_Suc intro!: exI [of _ c] exI [of _ "\<lambda>x. 0"])

lemma polyfun_add [polyfun_intros]: "polyfun n f \<Longrightarrow> polyfun n g \<Longrightarrow> polyfun n (\<lambda>x. f x + g x)"
proof (induction n arbitrary: f g)
  case (Suc n)
  then obtain c f' d g' where f: "polyfun n f'" "f = (\<lambda>x. f' x * x + c)"
    and g: "polyfun n g'" "g = (\<lambda>x. g' x * x + d)"
    by (auto simp: polyfun_Suc)
  show ?case
    unfolding polyfun_Suc f g
    by (intro exI [of _ "c + d"] exI [of _ "\<lambda>x. f' x + g' x"] conjI Suc.IH f g)
      (simp add: algebra_simps)
qed (simp add: polyfun_0)

lemma polyfun_scale [polyfun_intros]: "polyfun n f \<Longrightarrow> polyfun n (\<lambda>x. c * f x)"
proof (induction n arbitrary: f)
  case (Suc n)
  then obtain d f' where f: "polyfun n f'" "f = (\<lambda>x. f' x * x + d)" by (auto simp: polyfun_Suc)
  show ?case
    unfolding polyfun_Suc f
    by (intro exI [of _ "c * d"] exI [of _ "\<lambda>x. c * f' x"] conjI Suc.IH f) (simp add: algebra_simps)
qed (simp add: polyfun_0)

lemma polyfun_diff: "polyfun n f \<Longrightarrow> polyfun n g \<Longrightarrow> polyfun n (\<lambda>x. f x - g x)"
  using polyfun_add [of n f "\<lambda>x. - 1 * g x"] polyfun_scale [of n g "- 1"] by simp

lemma polyfun_sum [polyfun_intros]:
  "(\<And>i. i \<in> A \<Longrightarrow> polyfun n (f i)) \<Longrightarrow> polyfun n (\<lambda>x. \<Sum>i\<in>A. f i x)"
  by (induction A rule: infinite_finite_induct) (auto intro: polyfun_add)

lemma polyfun_times_x: "polyfun n f \<Longrightarrow> polyfun (Suc n) (\<lambda>x. f x * x)"
  by (auto simp: polyfun_Suc intro!: exI [of _ 0])

lemma polyfun_Suc_mono: "polyfun n f \<Longrightarrow> polyfun (Suc n) f"
proof (induction n arbitrary: f)
  case (Suc n)
  then obtain c g where "polyfun n g" "f = (\<lambda>x. g x * x + c)" by (auto simp: polyfun_Suc)
  with Suc.IH show ?case unfolding polyfun_Suc [of "Suc n"] by blast
qed (simp add: polyfun_0)

lemma polyfun_mono: "polyfun m f \<Longrightarrow> m \<le> n \<Longrightarrow> polyfun n f"
  by (induction n) (auto simp: le_Suc_eq intro: polyfun_Suc_mono)

lemma polyfun_power [polyfun_intros]: "i < n \<Longrightarrow> polyfun n (\<lambda>x. x ^ i)"
proof (induction i arbitrary: n)
  case (Suc i)
  then obtain m where "n = Suc m" "i < m" by (cases n) auto
  with Suc.IH [of m] polyfun_times_x [of m "\<lambda>x. x ^ i"] show ?case by (simp add: mult.commute)
qed (simp add: polyfun_const)

lemma polyfun_linear_mult:
  "polyfun n f \<Longrightarrow> polyfun (Suc n) (\<lambda>x. f x * (x - a))"
  using polyfun_add [OF polyfun_times_x polyfun_Suc_mono [OF polyfun_scale [of n f "- a"]]]
  by (simp add: algebra_simps)

lemma polyfun_prod:
  "finite A \<Longrightarrow> polyfun (Suc (card A)) (\<lambda>x. \<Prod>a\<in>A. x - g a)"
proof (induction A rule: finite_induct)
  case (insert a A)
  then show ?case using polyfun_linear_mult [OF insert.IH, of "g a"] by (simp add: mult.commute)
qed (simp add: polyfun_const)

lemma polyfun_mult:
  "polyfun (Suc m) f \<Longrightarrow> polyfun (Suc n) g \<Longrightarrow> polyfun (Suc (m + n)) (\<lambda>x. f x * g x)"
proof (induction m arbitrary: f)
  case 0
  then obtain c where "f = (\<lambda>x. c)" by (auto simp: polyfun_Suc polyfun_0)
  with 0 show ?case by (simp add: polyfun_scale)
next
  case (Suc m)
  then obtain c f' where f: "polyfun (Suc m) f'" "f = (\<lambda>x. f' x * x + c)"
    by (auto simp: polyfun_Suc [of "Suc m"])
  have "polyfun (Suc (Suc m + n)) (\<lambda>x. f' x * g x * x)"
    using polyfun_times_x [OF Suc.IH [OF f(1) Suc.prems(2)]] by simp
  moreover have "polyfun (Suc (Suc m + n)) (\<lambda>x. c * g x)"
    using polyfun_scale [OF Suc.prems(2), of c] by (rule polyfun_mono) simp
  ultimately have "polyfun (Suc (Suc m + n)) (\<lambda>x. f' x * g x * x + c * g x)"
    by (rule polyfun_add)
  then show ?case by (simp add: f algebra_simps)
qed

subsection \<open>Values determine the function\<close>

lemma polyfun_factor:
  "polyfun (Suc n) f \<Longrightarrow> \<exists>q. polyfun n q \<and> (\<forall>x. f x = q x * (x - a) + f a)"
proof (induction n arbitrary: f)
  case 0
  then show ?case by (auto simp: polyfun_Suc polyfun_0)
next
  case (Suc n)
  then obtain c g where f: "polyfun (Suc n) g" "f = (\<lambda>x. g x * x + c)"
    by (auto simp: polyfun_Suc [of "Suc n"])
  from Suc.IH [OF f(1)] obtain q where q: "polyfun n q" "\<And>x. g x = q x * (x - a) + g a" by blast
  let ?h = "\<lambda>x. q x * x + g a"
  have "polyfun (Suc n) ?h" using q(1) by (auto simp: polyfun_Suc)
  moreover have "f x = ?h x * (x - a) + f a" for x
    unfolding f(2) by (subst q(2)) (simp add: algebra_simps)
  ultimately show ?case by blast
qed

lemma polyfun_roots:
  "polyfun n f \<Longrightarrow> finite A \<Longrightarrow> (\<forall>x\<in>A. f x = 0) \<Longrightarrow> n \<le> card A \<Longrightarrow> f x = 0"
proof (induction n arbitrary: f A x)
  case (Suc n)
  then obtain a where a: "a \<in> A" by (cases "A = {}") auto
  from polyfun_factor [OF Suc.prems(1), of a] obtain q
    where q: "polyfun n q" "\<And>x. f x = q x * (x - a)" using Suc.prems(3) a by auto
  have "q x = 0" for x
    by (rule Suc.IH [OF q(1), of "A - {a}"]) (use Suc.prems a q(2) in auto)
  with q(2) show ?case by simp
qed (simp add: polyfun_0)

lemma polyfun_eqI:
  assumes "polyfun n f" and "polyfun n g" and "finite A" and "n \<le> card A"
    and "\<And>x. x \<in> A \<Longrightarrow> f x = g x"
  shows "f = g"
proof
  fix x
  have "f x - g x = 0"
    using polyfun_roots [OF polyfun_diff [OF assms(1,2)] assms(3)] assms(4,5) by simp
  then show "f x = g x" by simp
qed

lemma polyfun_card_roots:
  assumes "polyfun n f" and "f y \<noteq> 0"
  shows "card {x. f x = 0} < n"
proof (rule ccontr)
  assume "\<not> card {x. f x = 0} < n"
  then have "f y = 0" by (intro polyfun_roots [OF assms(1), of "{x. f x = 0}"]) simp_all
  with assms(2) show False by simp
qed

end
