(* ===== verification/Roots.thy ===== *)
theory Roots
  imports PolyFun
begin

text \<open>
  Roots of unity of order \<open>2 ^ k\<close> in the field, the sums and products over them, and the two
  interpolation facts behind the batched evaluation and the extension of a Lagrange-basis
  polynomial.
\<close>

definition omega :: "nat \<Rightarrow> gf" where
  "omega k = gen ^ (4294967295 * 2 ^ (32 - k))"

lemma omega_power_eq_1_iff: "k \<le> 32 \<Longrightarrow> omega k ^ m = 1 \<longleftrightarrow> 2 ^ k dvd m"
  unfolding omega_def by (rule gen_root_order)

lemma omega_power_n [simp]: "k \<le> 32 \<Longrightarrow> omega k ^ 2 ^ k = 1"
  by (simp add: omega_power_eq_1_iff)

lemma omega_nonzero [simp]: "omega k \<noteq> 0"
  unfolding omega_def by (rule gen_nonzero)

lemma omega_0 [simp]: "omega 0 = 1"
  using omega_power_eq_1_iff [of 0 1] by simp

lemma omega_Suc: "k < 32 \<Longrightarrow> omega (Suc k) ^ 2 = omega k"
proof -
  assume "k < 32"
  then have "32 - k = Suc (32 - Suc k)" by simp
  then show ?thesis unfolding omega_def by (simp only: power_mult [symmetric]) (simp add: mult_ac)
qed

lemma omega_power_mod: "k \<le> 32 \<Longrightarrow> omega k ^ (m mod 2 ^ k) = omega k ^ m"
  by (subst (2) mult_div_mod_eq [of "2 ^ k" m, symmetric]) (simp only: power_add power_mult omega_power_n, simp)

lemma omega_inj:
  assumes "k \<le> 32" and "i < 2 ^ k" and "j < 2 ^ k" and "omega k ^ i = omega k ^ j"
  shows "i = j"
proof -
  have *: "i = j" if "i \<le> j" "j < 2 ^ k" "omega k ^ i = omega k ^ j" for i j
  proof -
    have "omega k ^ j = omega k ^ i * omega k ^ (j - i)"
      using that(1) by (simp flip: power_add)
    with that(3) have "omega k ^ (j - i) = 1" by simp
    then have "2 ^ k dvd j - i" using assms(1) by (simp add: omega_power_eq_1_iff)
    with that(2) show ?thesis
      using that(1) by (metis dvd_imp_le le_neq_implies_less less_imp_diff_less not_le zero_less_diff)
  qed
  show ?thesis using * [of i j] * [of j i] assms(2,3,4) by (cases "i \<le> j") auto
qed

abbreviation node :: "nat \<Rightarrow> nat \<Rightarrow> gf" where "node k i \<equiv> omega k ^ i"

lemma inj_on_node: "k \<le> 32 \<Longrightarrow> inj_on (node k) {..<2 ^ k}"
  by (intro inj_onI omega_inj) auto

lemma card_nodes: "k \<le> 32 \<Longrightarrow> card (node k ` {..<2 ^ k}) = 2 ^ k"
  by (simp add: card_image inj_on_node)

lemma of_nat_two_power_nonzero: "k \<le> 32 \<Longrightarrow> of_nat (2 ^ k) \<noteq> (0 :: gf)"
proof
  assume k: "k \<le> 32" and "of_nat (2 ^ k) = (0 :: gf)"
  then have "P dvd 2 ^ k" by (simp add: of_nat_gf gf_eq_iff zero_gf_def dvd_eq_mod_eq_0)
  moreover have "(2 :: int) ^ k \<le> 2 ^ 32" using k by (intro power_increasing) simp_all
  ultimately show False using zdvd_imp_le [of P "2 ^ k"] by simp
qed

subsection \<open>Sums over the roots\<close>

lemma sum_root_powers:
  fixes z :: gf
  assumes "z ^ n = 1"
  shows "(\<Sum>i<n. z ^ i) = (if z = 1 then of_nat n else 0)"
  using assms by (simp add: geometric_sum)

lemma sum_nodes:
  assumes "k \<le> 32"
  shows "(\<Sum>i<2 ^ k. node k e ^ i) = (if 2 ^ k dvd e then of_nat (2 ^ k) else 0)"
proof -
  have "node k e ^ 2 ^ k = 1"
    using assms by (simp add: omega_power_eq_1_iff flip: power_mult)
  then show ?thesis using assms by (simp add: sum_root_powers omega_power_eq_1_iff)
qed

subsection \<open>Products over the other roots\<close>

lemma sum_geometric_diff:
  "(x - y) * (\<Sum>t<n. x ^ t * y ^ (n - 1 - t)) = x ^ n - y ^ n" for x y :: gf
  using power_diff_sumr2 [of x n y] by (simp add: mult.commute)

lemma prod_nodes: "k \<le> 32 \<Longrightarrow> (\<Prod>m<2 ^ k. x - node k m) = x ^ 2 ^ k - 1"
proof (induction k arbitrary: x)
  case (Suc k)
  have half: "omega (Suc k) ^ 2 ^ k = - 1"
  proof -
    have "(omega (Suc k) ^ 2 ^ k) ^ 2 = 1"
      using Suc.prems omega_power_n [of "Suc k"] by (simp only: power_mult [symmetric] power_Suc2)
    moreover have "omega (Suc k) ^ 2 ^ k \<noteq> 1"
      using Suc.prems by (simp add: omega_power_eq_1_iff)
    ultimately show ?thesis by (simp add: power2_eq_1_iff)
  qed
  have "{..<2 ^ Suc k} = {..<2 ^ k} \<union> (\<lambda>m. m + 2 ^ k) ` {..<2 ^ k :: nat}"
  proof (intro set_eqI iffI)
    fix m :: nat assume "m \<in> {..<2 ^ Suc k}"
    then show "m \<in> {..<2 ^ k} \<union> (\<lambda>m. m + 2 ^ k) ` {..<2 ^ k}"
      by (cases "m < 2 ^ k") (auto intro!: image_eqI [of _ _ "m - 2 ^ k"])
  qed auto
  then have "(\<Prod>m<2 ^ Suc k. x - node (Suc k) m)
      = (\<Prod>m<2 ^ k. x - node (Suc k) m) * (\<Prod>m\<in>(\<lambda>m. m + 2 ^ k) ` {..<2 ^ k}. x - node (Suc k) m)"
    by (simp only:) (rule prod.union_disjoint, auto)
  also have "(\<Prod>m\<in>(\<lambda>m. m + 2 ^ k) ` {..<2 ^ k}. x - node (Suc k) m)
      = (\<Prod>m<2 ^ k. x + node (Suc k) m)"
    by (subst prod.reindex) (auto simp: power_add half)
  also have "(\<Prod>m<2 ^ k. x - node (Suc k) m) * (\<Prod>m<2 ^ k. x + node (Suc k) m)
      = (\<Prod>m<2 ^ k. x ^ 2 - node k m)"
    using Suc.prems unfolding prod.distrib [symmetric]
    by (intro prod.cong)
      (simp_all add: algebra_simps power2_eq_square flip: omega_Suc power_mult power_add)
  also have "\<dots> = (x ^ 2) ^ 2 ^ k - 1" using Suc by simp
  finally show ?case by (simp flip: power_mult)
qed simp

lemma punctured_prod:
  assumes k: "k \<le> 32" and l: "l < 2 ^ k"
  shows "(\<Prod>m\<in>{..<2 ^ k} - {l}. x - node k m) = (\<Sum>t<2 ^ k. x ^ t * node k l ^ (2 ^ k - 1 - t))"
proof -
  let ?n = "2 ^ k :: nat"
  let ?f = "\<lambda>x. \<Prod>m\<in>{..<?n} - {l}. x - node k m"
  let ?g = "\<lambda>x. \<Sum>t<?n. x ^ t * node k l ^ (?n - 1 - t)"
  have "?f = ?g"
  proof (rule polyfun_eqI [where A = "- {node k l}" and n = ?n])
    show "polyfun ?n ?f"
      using polyfun_prod [of "{..<?n} - {l}" "node k"] l by simp
    show "polyfun ?n ?g"
      by (rule polyfun_sum)
        (auto simp: mult.commute [of "_ ^ _" "node k l ^ _"] intro: polyfun_scale polyfun_power)
    show "?n \<le> card (- {node k l})"
    proof -
      have "?n \<le> 2 ^ 32" using k by (intro power_increasing) simp_all
      then show ?thesis by (simp add: Compl_eq_Diff_UNIV card_Diff_subset card_gf)
    qed
    fix x assume "x \<in> - {node k l}"
    then have ne: "x - node k l \<noteq> 0" by simp
    have "(x - node k l) * ?f x = (\<Prod>m<?n. x - node k m)"
      using l by (simp add: prod.remove [of "{..<?n}" l])
    also have "\<dots> = x ^ ?n - node k l ^ ?n"
      using k by (simp add: prod_nodes omega_power_eq_1_iff flip: power_mult)
    also have "\<dots> = (x - node k l) * ?g x" by (simp only: sum_geometric_diff)
    finally show "?f x = ?g x" using ne by simp
  qed simp
  then show ?thesis by (rule fun_cong)
qed

lemma prod_flip: "(\<Prod>m\<in>A. f m - x) = (- 1) ^ card A * (\<Prod>m\<in>A. x - f m)" for x :: gf
  by (induction A rule: infinite_finite_induct) (auto simp: algebra_simps)

text \<open>The interpolation formula of the batched evaluation: it gives the value anywhere of the
  polynomial of degree below \<open>n\<close> with the given values at the nodes.\<close>

lemma batched_interpolation:
  assumes k: "k \<le> 32" and f: "polyfun (2 ^ k) f"
  shows "(\<Sum>l<2 ^ k. node k l * f (node k l) * (\<Prod>m\<in>{..<2 ^ k} - {l}. node k m - x))
    = (- 1) ^ (2 ^ k - 1) * of_nat (2 ^ k) * f x"
proof -
  let ?n = "2 ^ k :: nat"
  let ?N = "node k ` {..<?n}"
  let ?summand = "\<lambda>l x. node k l * f (node k l) * (\<Prod>m\<in>{..<?n} - {l}. node k m - x)"
  have prod: "(\<Prod>m\<in>{..<?n} - {l}. node k m - x) = (- 1) ^ (?n - 1) * (\<Prod>m\<in>{..<?n} - {l}. x - node k m)"
    if "l < ?n" for l x using that by (simp add: prod_flip)
  have "(\<lambda>x. \<Sum>l<?n. ?summand l x) = (\<lambda>x. (- 1) ^ (?n - 1) * of_nat ?n * f x)"
  proof (rule polyfun_eqI [where A = ?N and n = ?n])
    have "polyfun ?n (?summand l)" if "l < ?n" for l
      using that polyfun_prod [of "{..<?n} - {l}" "node k"]
      by (simp only: prod) (intro polyfun_scale, simp)
    then show "polyfun ?n (\<lambda>x. \<Sum>l<?n. ?summand l x)" by (intro polyfun_sum) simp
    show "polyfun ?n (\<lambda>x. (- 1) ^ (?n - 1) * of_nat ?n * f x)" by (rule polyfun_scale [OF f])
    show "?n \<le> card ?N" using k by (simp add: card_nodes)
    fix y assume "y \<in> ?N"
    then obtain i where i: "i < ?n" "y = node k i" by blast
    have "(\<Sum>l<?n. ?summand l y) = ?summand i y"
    proof -
      have "?summand l y = 0" if "l \<in> {..<?n} - {i}" for l
      proof -
        have "i \<in> {..<?n} - {l}" using that i by simp
        then have "(\<Prod>m\<in>{..<?n} - {l}. node k m - y) = 0"
          unfolding i(2) by (intro prod_zero) auto
        then show ?thesis by simp
      qed
      then have "(\<Sum>l\<in>{..<?n} - {i}. ?summand l y) = 0" by (intro sum.neutral) blast
      then show ?thesis using i sum.remove [of "{..<?n}" i "\<lambda>l. ?summand l y"] by simp
    qed
    also have "\<dots> = (- 1) ^ (?n - 1) * of_nat ?n * f y * (node k i * node k i ^ (?n - 1))"
    proof -
      have "(\<Prod>m\<in>{..<?n} - {i}. y - node k m) = of_nat ?n * node k i ^ (?n - 1)"
        unfolding punctured_prod [OF k i(1)] i(2) by (simp flip: power_add)
      then show ?thesis unfolding prod [OF i(1)] by (simp add: i(2))
    qed
    also have "node k i * node k i ^ (?n - 1) = node k i ^ ?n"
      by (simp flip: power_Suc)
    also have "\<dots> = 1" using k by (simp add: omega_power_eq_1_iff flip: power_mult)
    finally show "(\<Sum>l<?n. ?summand l y) = (- 1) ^ (?n - 1) * of_nat ?n * f y" by simp
  qed simp
  then show ?thesis by (rule fun_cong)
qed

subsection \<open>Divided differences\<close>

definition divdiff :: "gf set \<Rightarrow> (gf \<Rightarrow> gf) \<Rightarrow> gf" where
  "divdiff S f = (\<Sum>a\<in>S. f a / (\<Prod>b\<in>S - {a}. a - b))"

lemma divdiff_add: "divdiff S (\<lambda>x. f x + g x) = divdiff S f + divdiff S g"
  by (simp add: divdiff_def add_divide_distrib sum.distrib)

lemma divdiff_scale: "divdiff S (\<lambda>x. c * f x) = c * divdiff S f"
  by (simp add: divdiff_def sum_distrib_left)

lemma divdiff_factor:
  assumes "a \<in> S"
  shows "divdiff S (\<lambda>x. f x * (x - a)) = divdiff (S - {a}) f"
proof -
  have "divdiff S (\<lambda>x. f x * (x - a)) = (\<Sum>y\<in>S - {a}. f y * (y - a) / (\<Prod>b\<in>S - {y}. y - b))"
    unfolding divdiff_def using assms by (simp add: sum.remove [of S a])
  also have "\<dots> = divdiff (S - {a}) f"
    unfolding divdiff_def
  proof (rule sum.cong [OF refl])
    fix y assume y: "y \<in> S - {a}"
    have "S - {a} - {y} = S - {y} - {a}" by blast
    then have "(\<Prod>b\<in>S - {y}. y - b) = (y - a) * (\<Prod>b\<in>S - {a} - {y}. y - b)"
      using assms y prod.remove [of "S - {y}" a "\<lambda>b. y - b"] by auto
    with y show "f y * (y - a) / (\<Prod>b\<in>S - {y}. y - b) = f y / (\<Prod>b\<in>S - {a} - {y}. y - b)"
      by simp
  qed
  finally show ?thesis .
qed

lemma divdiff_const: "2 \<le> card S \<Longrightarrow> divdiff S (\<lambda>x. 1) = 0"
proof (induction "card S" arbitrary: S)
  case (Suc n)
  from Suc.prems obtain a where a: "a \<in> S" by (cases "S = {}") auto
  with Suc.prems have "S - {a} \<noteq> {}" by (cases "S = {a}") auto
  then obtain b where b: "b \<in> S" "b \<noteq> a" by blast
  have "divdiff (S - {a}) (\<lambda>x. 1) = divdiff (S - {b}) (\<lambda>x. 1)"
  proof (cases "n = 1")
    case True
    then have "card S = 2" using Suc.hyps(2) by simp
    with a b have "S = {a, b}" by (auto simp: card_2_iff)
    then have "S - {a} = {b}" "S - {b} = {a}" using b by auto
    then show ?thesis by (simp add: divdiff_def)
  next
    case False
    then have "2 \<le> n" using Suc by simp
    then show ?thesis using Suc.hyps a b by simp
  qed
  then have "divdiff S (\<lambda>x. 1 * (x - a)) = divdiff S (\<lambda>x. 1 * (x - b))"
    using a b by (simp only: divdiff_factor)
  moreover have "divdiff S (\<lambda>x. 1 * (x - a)) = divdiff S (\<lambda>x. 1 * (x - b)) + divdiff S (\<lambda>x. (b - a) * 1)"
    unfolding divdiff_add [symmetric] by simp
  ultimately have "(b - a) * divdiff S (\<lambda>x. 1) = 0"
    unfolding divdiff_scale mult_1 by simp
  with b show ?case by simp
qed simp

lemma divdiff_polyfun: "polyfun n f \<Longrightarrow> n < card S \<Longrightarrow> divdiff S f = 0"
proof (induction n arbitrary: f S)
  case 0
  then show ?case by (simp add: polyfun_0 divdiff_def)
next
  case (Suc n)
  then obtain a where a: "a \<in> S" by (cases "S = {}") auto
  from polyfun_factor [OF Suc.prems(1)] obtain q
    where q: "polyfun n q" "\<And>x. f x = q x * (x - a) + f a" by blast
  have "f = (\<lambda>x. q x * (x - a) + f a * 1)"
    unfolding mult_1_right by (rule ext) (rule q(2))
  then have "divdiff S f = divdiff S (\<lambda>x. q x * (x - a) + f a * 1)" by (rule arg_cong)
  also have "\<dots> = divdiff S (\<lambda>x. q x * (x - a)) + f a * divdiff S (\<lambda>x. 1)"
    by (simp only: divdiff_add divdiff_scale)
  also have "\<dots> = 0"
    using Suc a q(1) by (simp add: divdiff_factor divdiff_const)
  finally show ?case .
qed

text \<open>The missing value at one more point, from the values at the others.\<close>

lemma next_value:
  assumes "polyfun n f" and "finite S" and "n \<le> card S" and "y \<notin> S"
  shows "f y = - (\<Prod>b\<in>S. y - b) * (\<Sum>a\<in>S. f a / ((\<Prod>b\<in>S - {a}. a - b) * (a - y)))"
proof -
  let ?p = "\<Prod>b\<in>S. y - b"
  have ne: "?p \<noteq> 0" using assms(4) by auto
  have "0 = divdiff (insert y S) f"
    using assms by (intro divdiff_polyfun [of n, symmetric]) simp_all
  also have "\<dots> = f y / ?p + (\<Sum>a\<in>S. f a / (\<Prod>b\<in>insert y S - {a}. a - b))"
    unfolding divdiff_def using assms(4) by simp
  also have "(\<Sum>a\<in>S. f a / (\<Prod>b\<in>insert y S - {a}. a - b))
      = (\<Sum>a\<in>S. f a / ((\<Prod>b\<in>S - {a}. a - b) * (a - y)))"
  proof (rule sum.cong [OF refl])
    fix a assume "a \<in> S"
    then have "insert y S - {a} = insert y (S - {a})" using assms(4) by auto
    then show "f a / (\<Prod>b\<in>insert y S - {a}. a - b) = f a / ((\<Prod>b\<in>S - {a}. a - b) * (a - y))"
      using assms(4) by (simp add: mult.commute)
  qed
  finally have "f y / ?p = - (\<Sum>a\<in>S. f a / ((\<Prod>b\<in>S - {a}. a - b) * (a - y)))"
    by (simp add: eq_neg_iff_add_eq_0)
  then show ?thesis using ne by (simp add: divide_eq_eq)
qed

end
