(* ===== verification/Lagrange.thy ===== *)
theory Lagrange
  imports Roots "HOL-Library.While_Combinator" "HOL-Library.Monad_Syntax"
begin

text \<open>
  \<^verbatim>\<open>pkg/vdaf/flp/lagrange.go\<close>: the number-theoretic transforms and the Lagrange-basis
  operations of the proof system, on words. None stands for a panic (a length that is not a
  power of two, an index out of range). Lengths are natural numbers: they are lengths of
  slices. The lemmas read the results off as values of polynomial functions over the field.
\<close>

subsection \<open>Lengths\<close>

definition isPowerOf2 :: "nat \<Rightarrow> bool" where
  "isPowerOf2 n \<longleftrightarrow> n > 0 \<and> n AND (n - 1) = 0"

definition nextPowerOf2 :: "nat \<Rightarrow> nat" where
  "nextPowerOf2 n = (if n \<le> 1 then 1 else while (\<lambda>p. p < n) (push_bit 1) 1)"

definition log2 :: "nat \<Rightarrow> nat" where
  "log2 n = snd (while (\<lambda>(n, l). n > 1) (\<lambda>(n, l). (drop_bit 1 n, l + 1)) (n, 0))"

subsection \<open>Transforms\<close>

definition rootOrPanic :: "nat \<Rightarrow> elt option" where
  "rootOrPanic n = (case NthRoot (word_of_nat n) of Inl _ \<Rightarrow> None | Inr w \<Rightarrow> Some w)"

definition nthRootPowers :: "nat \<Rightarrow> elt list option" where
  "nthRootPowers n = do {
     root \<leftarrow> rootOrPanic n;
     Some (fst (fold (\<lambda>i (out, cur). (out @ [cur], Field_Mul cur root)) [0..<n] ([], 1)))
   }"

definition evalMonomial :: "elt list \<Rightarrow> elt \<Rightarrow> elt" where
  "evalMonomial coeffs x = foldr (\<lambda>c acc. Field_Add (Field_Mul acc x) c) coeffs 0"

definition ntt :: "elt list \<Rightarrow> nat \<Rightarrow> bool \<Rightarrow> elt list option" where
  "ntt coeffs n setS = do {
     wn \<leftarrow> rootOrPanic n;
     s \<leftarrow> (if setS then rootOrPanic (2 * n) else Some 1);
     Some (fst (fold (\<lambda>i (out, point). (out @ [evalMonomial coeffs point], Field_Mul point wn))
       [0..<n] ([], s)))
   }"

definition invNtt :: "elt list \<Rightarrow> nat \<Rightarrow> elt list option" where
  "invNtt evals n = do {
     wn \<leftarrow> rootOrPanic n;
     if length evals < n then None else
       let wnInv = Field_Inv wn;
           nInv = Field_Inv (Field_New (word_of_nat n));
           coeff = (\<lambda>j.
             let wj = Field_Pow wnInv (word_of_nat j);
                 (acc, w) = fold (\<lambda>i (acc, w).
                     (Field_Add acc (Field_Mul (evals ! i) w), Field_Mul w wj)) [0..<n] (0, 1)
             in Field_Mul acc nInv)
       in Some (map coeff [0..<n])
   }"

definition doubleEvaluations :: "elt list \<Rightarrow> elt list option" where
  "doubleEvaluations p =
     (let n = length p in
      if \<not> isPowerOf2 n then None else do {
        coeffs \<leftarrow> invNtt p n;
        odd \<leftarrow> ntt coeffs n True;
        Some (concat (map (\<lambda>i. [p ! i, odd ! i]) [0..<n]))
      })"

definition polyMul :: "elt list \<Rightarrow> elt list \<Rightarrow> elt list option" where
  "polyMul p q =
     (if length p \<noteq> length q \<or> \<not> isPowerOf2 (length p) then None else do {
        p2 \<leftarrow> doubleEvaluations p;
        q2 \<leftarrow> doubleEvaluations q;
        Some (map2 Field_Mul p2 q2)
      })"

text \<open>The loop state is \<open>(k, u, d)\<close>; an empty polynomial list or an empty polynomial is an
  index out of range.\<close>

definition batchedStep ::
  "elt list \<Rightarrow> elt list list \<Rightarrow> elt \<Rightarrow> nat \<Rightarrow> elt \<times> elt list \<times> elt \<Rightarrow> elt \<times> elt list \<times> elt" where
  "batchedStep nodes polys x i = (\<lambda>(k, u, d).
     let k = Field_Mul k d;
         d = Field_Sub (nodes ! i) x;
         t = Field_Mul k (nodes ! i);
         u = map2 (\<lambda>uj p.
           let uj = Field_Mul uj d
           in if i < length p then Field_Add uj (Field_Mul t (p ! i)) else uj) u polys
     in (k, u, d))"

definition polyEvalBatched :: "elt list list \<Rightarrow> elt \<Rightarrow> elt list option" where
  "polyEvalBatched polys x =
     (case polys of [] \<Rightarrow> None
      | p0 # _ \<Rightarrow>
        (let n = length p0 in
         if \<not> isPowerOf2 n then None else do {
           nodes \<leftarrow> nthRootPowers n;
           if list_ex (\<lambda>p. p = []) polys then None else
             let (k, u, d) = fold (batchedStep nodes polys x) [1..<n]
                   (1, map hd polys, Field_Sub (nodes ! 0) x);
                 factor = Field_Inv (Field_New (word_of_nat n));
                 factor = (if (n - 1) mod 2 = 1 then Field_Neg factor else factor)
             in Some (map (\<lambda>uj. Field_Mul uj factor) u)
         }))"

definition polyEval :: "elt list \<Rightarrow> elt \<Rightarrow> elt option" where
  "polyEval p x = do { us \<leftarrow> polyEvalBatched [p] x; Some (us ! 0) }"

text \<open>The loop state is the weights \<open>w\<close> of the nodes used so far and the values \<open>p\<close>.\<close>

definition extendStep :: "elt list \<Rightarrow> nat \<Rightarrow> elt list \<times> elt list \<Rightarrow> elt list \<times> elt list" where
  "extendStep x k = (\<lambda>(w, p).
     let w = map (\<lambda>i. Field_Mul (w ! i) (Field_Sub (x ! i) (x ! k))) [0..<k];
         (yNum, yDen) = fold (\<lambda>i (yNum, yDen).
             (Field_Add (Field_Mul yNum (w ! i)) (Field_Mul yDen (p ! i)), Field_Mul yDen (w ! i)))
           [0..<length p] (0, 1);
         prod = fold (\<lambda>j prod. Field_Mul prod (Field_Sub (x ! k) (x ! j))) [0..<k] 1;
         newVal = Field_Mul (Field_Mul (Field_Neg prod) yNum) (Field_Inv yDen)
     in (w @ [prod], p @ [newVal]))"

definition extendValuesToPowerOf2 :: "elt list \<Rightarrow> nat \<Rightarrow> elt list option" where
  "extendValuesToPowerOf2 p n =
     (if \<not> isPowerOf2 n \<or> length p > n then None else do {
        x \<leftarrow> nthRootPowers n;
        let initLen = length p;
            w = map (\<lambda>i. fold (\<lambda>j prod.
                    if i \<noteq> j then Field_Mul prod (Field_Sub (x ! i) (x ! j)) else prod)
                  [0..<initLen] 1) [0..<initLen]
        in Some (snd (fold (extendStep x) [initLen..<n] (w, p)))
      })"

subsection \<open>Lengths, proved\<close>

lemma isPowerOf2_power [simp]: "isPowerOf2 (2 ^ k)"
proof -
  have "2 ^ k AND (2 ^ k - 1 :: nat) = 0"
    unfolding mask_eq_exp_minus_1 [symmetric]
    by (simp only: and.commute [of "2 ^ k"] and_exp_eq_0_iff_not_bit bit_mask_iff) simp
  then show ?thesis by (simp add: isPowerOf2_def)
qed

lemma while_double:
  "0 < p \<Longrightarrow> \<exists>j. while (\<lambda>p. p < n) (push_bit 1) p = p * 2 ^ j \<and> n \<le> p * 2 ^ j
     \<and> (p < n \<longrightarrow> p * 2 ^ j < 2 * n)" for n p :: nat
proof (induction "n - p" arbitrary: p rule: less_induct)
  case less
  show ?case
  proof (cases "p < n")
    case True
    from True less.prems have "n - p * 2 < n - p" "0 < p * 2" by auto
    from less.hyps [OF this] obtain j where
      j: "while (\<lambda>p. p < n) (push_bit 1) (p * 2) = p * 2 * 2 ^ j" "n \<le> p * 2 * 2 ^ j"
        "p * 2 < n \<longrightarrow> p * 2 * 2 ^ j < 2 * n" by auto
    have eq: "while (\<lambda>p. p < n) (push_bit 1) p = while (\<lambda>p. p < n) (push_bit 1) (p * 2)"
      using True by (subst while_unfold) (simp add: push_bit_eq_mult)
    show ?thesis
    proof (cases "p * 2 < n")
      case True
      with j eq show ?thesis by (intro exI [of _ "Suc j"]) (simp add: mult.assoc)
    next
      case False
      have "while (\<lambda>p. p < n) (push_bit 1) (p * 2) = p * 2"
        using False by (subst while_unfold) simp
      with eq False \<open>p < n\<close> show ?thesis by (intro exI [of _ "1"]) simp
    qed
  next
    case False
    then show ?thesis by (intro exI [of _ 0]) (subst while_unfold, simp)
  qed
qed

text \<open>\<open>nextPowerOf2 n\<close> is the least power of two that is at least \<open>n\<close>.\<close>

lemma nextPowerOf2_least:
  "\<exists>j. nextPowerOf2 n = 2 ^ j \<and> n \<le> 2 ^ j \<and> (\<forall>i. n \<le> 2 ^ i \<longrightarrow> j \<le> i)"
proof (cases "n \<le> 1")
  case True
  then show ?thesis by (intro exI [of _ 0]) (simp add: nextPowerOf2_def)
next
  case False
  then obtain j where j: "nextPowerOf2 n = 2 ^ j" "n \<le> 2 ^ j" "2 ^ j < 2 * n"
    using while_double [of 1 n] by (auto simp: nextPowerOf2_def)
  have "j \<le> i" if "n \<le> 2 ^ i" for i
  proof -
    from j(3) that have "(2 :: nat) ^ j < 2 ^ Suc i" by simp
    then show ?thesis by (simp only: power_strict_increasing_iff)
  qed
  with j show ?thesis by blast
qed

lemma log2_power [simp]: "log2 (2 ^ k) = k"
proof -
  have "while (\<lambda>(n, l). n > 1) (\<lambda>(n, l). (drop_bit 1 n, l + 1)) (2 ^ k, l) = (1 :: nat, l + k)"
    for l :: nat
  proof (induction k arbitrary: l)
    case (Suc k)
    have "Suc 0 < 2 * 2 ^ k" by (induction k) auto
    with Suc.IH [of "Suc l"] show ?case by (subst while_unfold) (simp add: drop_bit_eq_div)
  qed (subst while_unfold, simp)
  then show ?thesis by (simp add: log2_def)
qed

end
