(* ===== verification/Transform.thy ===== *)
theory Transform
  imports Lagrange
begin

text \<open>
  Correctness of the transforms: a list of \<open>2 ^ k\<close> canonical words is read as the values of a
  polynomial function at the \<open>2 ^ k\<close>-th roots of unity (\<open>evals_of\<close>), and each operation of
  \<^verbatim>\<open>lagrange.go\<close> is shown to return, without panic, the values it promises of the same
  function.
\<close>

definition evals_of :: "nat \<Rightarrow> elt list \<Rightarrow> (gf \<Rightarrow> gf) \<Rightarrow> bool" where
  "evals_of k p f \<longleftrightarrow> length p = 2 ^ k \<and> list_all canonical p \<and> polyfun (2 ^ k) f
     \<and> (\<forall>i<2 ^ k. gfe (p ! i) = f (node k i))"

subsection \<open>Points\<close>

lemma two_power_bound: "k \<le> 32 \<Longrightarrow> (2 :: nat) ^ k < 18446744073709551616"
proof -
  assume "k \<le> 32"
  then have "(2 :: nat) ^ k \<le> 2 ^ 32" by (intro power_increasing) simp_all
  then show ?thesis by simp
qed

lemma rootOrPanic_power:
  assumes "k \<le> 32"
  obtains w where "rootOrPanic (2 ^ k) = Some w" and "canonical w" and "gfe w = omega k"
proof -
  obtain w where "NthRoot (2 ^ k) = Inr w" "canonical w" "gfe w = omega k"
    using NthRoot_power_of_two [OF assms] unfolding omega_def by blast
  then show thesis by (intro that [of w]) (simp_all add: rootOrPanic_def)
qed

lemma gfe_length: "k \<le> 32 \<Longrightarrow> gfe (word_of_nat (2 ^ k)) = of_nat (2 ^ k)"
  by (rule gfe_of_nat) (rule two_power_bound)

definition point :: "elt \<Rightarrow> elt \<Rightarrow> nat \<Rightarrow> elt" where
  "point s w i = ((\<lambda>p. Field_Mul p w) ^^ i) s"

lemma gfe_point [simp]: "gfe (point s w i) = gfe s * gfe w ^ i"
  by (induction i) (simp_all add: point_def mult.assoc mult.commute)

lemma canonical_point [simp]: "canonical s \<Longrightarrow> canonical (point s w i)"
  by (induction i) (simp_all add: point_def)

lemma fold_points:
  "fold (\<lambda>i (out, p). (out @ [f p], Field_Mul p w)) [0..<n] ([], s)
     = (map (\<lambda>i. f (point s w i)) [0..<n], point s w n)"
  by (induction n) (simp_all add: point_def)

lemma nthRootPowers_correct:
  assumes "k \<le> 32"
  obtains xs where "nthRootPowers (2 ^ k) = Some xs" and "length xs = 2 ^ k"
    and "\<And>i. i < 2 ^ k \<Longrightarrow> canonical (xs ! i) \<and> gfe (xs ! i) = node k i"
proof -
  obtain w where w: "rootOrPanic (2 ^ k) = Some w" "gfe w = omega k"
    using rootOrPanic_power [OF assms] by blast
  show thesis
    by (rule that [of "map (point 1 w) [0..<2 ^ k]"])
      (simp_all add: nthRootPowers_def w fold_points [where f = "\<lambda>p. p"])
qed

subsection \<open>The transform and its inverse\<close>

lemma evalMonomial_correct [simp]:
  "canonical (evalMonomial cs x)" "gfe (evalMonomial cs x) = pval (map gfe cs) (gfe x)"
  by (cases cs; simp add: evalMonomial_def) (induction cs; simp add: evalMonomial_def)

lemma ntt_correct:
  assumes "k \<le> 32"
  obtains out where "ntt cs (2 ^ k) False = Some out" and "length out = 2 ^ k"
    and "\<And>i. i < 2 ^ k \<Longrightarrow> canonical (out ! i) \<and> gfe (out ! i) = pval (map gfe cs) (node k i)"
proof -
  obtain w where w: "rootOrPanic (2 ^ k) = Some w" "gfe w = omega k"
    using rootOrPanic_power [OF assms] by blast
  show thesis
    by (rule that [of "map (\<lambda>i. evalMonomial cs (point 1 w i)) [0..<2 ^ k]"])
      (simp_all add: ntt_def w fold_points)
qed

lemma omega_odd: "k < 32 \<Longrightarrow> node (Suc k) (2 * i) = node k i"
  by (simp add: power_mult omega_Suc)

lemma ntt_odd_correct:
  assumes "k < 32"
  obtains out where "ntt cs (2 ^ k) True = Some out" and "length out = 2 ^ k"
    and "\<And>i. i < 2 ^ k \<Longrightarrow>
      canonical (out ! i) \<and> gfe (out ! i) = pval (map gfe cs) (node (Suc k) (2 * i + 1))"
proof -
  obtain w where w: "rootOrPanic (2 ^ k) = Some w" "gfe w = omega k"
    using rootOrPanic_power [of k] assms by auto
  obtain s where s: "rootOrPanic (2 * 2 ^ k) = Some s" "gfe s = omega (Suc k)" "canonical s"
    using rootOrPanic_power [of "Suc k"] assms by auto
  show thesis
    by (rule that [of "map (\<lambda>i. evalMonomial cs (point s w i)) [0..<2 ^ k]"])
      (simp_all add: ntt_def w s fold_points power_add omega_odd assms)
qed

lemma pval_sum: "pval cs x = (\<Sum>j<length cs. cs ! j * x ^ j)"
  by (induction cs) (simp_all add: sum.lessThan_Suc_shift sum_distrib_left mult_ac del: sum.lessThan_Suc)

lemma fold_inner:
  "fold (\<lambda>i (acc, w). (Field_Add acc (Field_Mul (ev ! i) w), Field_Mul w wj)) [0..<n] (0, 1) = (acc, w)
   \<Longrightarrow> gfe acc = (\<Sum>i<n. gfe (ev ! i) * gfe wj ^ i) \<and> gfe w = gfe wj ^ n"
  by (induction n arbitrary: acc w) (auto split: prod.splits)

lemma invNtt_coeffs:
  assumes k: "k \<le> 32" and len: "length ev = 2 ^ k"
  obtains cs where "invNtt ev (2 ^ k) = Some cs" and "length cs = 2 ^ k"
    and "list_all canonical cs"
    and "\<And>j. j < 2 ^ k \<Longrightarrow> gfe (cs ! j)
      = (\<Sum>i<2 ^ k. gfe (ev ! i) * (inverse (omega k) ^ j) ^ i) * inverse (of_nat (2 ^ k))"
proof -
  obtain wn where wn: "rootOrPanic (2 ^ k) = Some wn" "gfe wn = omega k"
    using rootOrPanic_power [OF k] by blast
  define coeff where "coeff = (\<lambda>j.
             let wj = Field_Pow (Field_Inv wn) (word_of_nat j);
                 (acc, w) = fold (\<lambda>i (acc, w).
                     (Field_Add acc (Field_Mul (ev ! i) w), Field_Mul w wj)) [0..<2 ^ k] (0, 1)
             in Field_Mul acc (Field_Inv (Field_New (word_of_nat (2 ^ k)))))"
  have inv: "invNtt ev (2 ^ k) = Some (map coeff [0..<2 ^ k])"
    using len by (simp add: invNtt_def wn Let_def coeff_def)
  have can: "canonical (coeff j)" for j by (simp add: coeff_def Let_def split: prod.split)
  have "gfe (coeff j)
      = (\<Sum>i<2 ^ k. gfe (ev ! i) * (inverse (omega k) ^ j) ^ i) * inverse (of_nat (2 ^ k))"
    if "j < 2 ^ k" for j
  proof -
    have "unat (word_of_nat j :: 64 word) = j"
      using that two_power_bound [OF k] by (simp add: unat_of_nat)
    then show ?thesis
      using fold_inner [of ev _ "2 ^ k"] gfe_length [OF k]
      by (auto simp: coeff_def Let_def wn split: prod.split)
  qed
  with inv can show thesis
    by (intro that [of "map coeff [0..<2 ^ k]"]) (simp_all add: list_all_iff)
qed

text \<open>Inverting an evaluation: the coefficients found take the given values at the nodes.\<close>

lemma invNtt_values:
  assumes k: "k \<le> 32" and l: "l < 2 ^ k"
    and cs: "\<And>j. j < 2 ^ k \<Longrightarrow> c j
      = (\<Sum>i<2 ^ k. e i * (inverse (omega k) ^ j) ^ i) * inverse (of_nat (2 ^ k))"
  shows "(\<Sum>j<2 ^ k. c j * node k l ^ j) = e l"
proof -
  let ?n = "2 ^ k :: nat"
  let ?z = "\<lambda>i. node k l * inverse (node k i)"
  have sum: "(\<Sum>j<?n. ?z i ^ j) = (if i = l then of_nat ?n else 0)" if "i < ?n" for i
  proof -
    have "node k m ^ ?n = 1" for m
      using k by (simp add: omega_power_eq_1_iff flip: power_mult)
    then have "?z i ^ ?n = 1" by (simp only: power_mult_distrib power_inverse) simp
    moreover have "?z i = 1 \<longleftrightarrow> i = l"
    proof
      assume "?z i = 1"
      then have "node k l = node k i" by (simp add: field_simps)
      then show "i = l" using omega_inj [OF k] that l by blast
    qed simp
    ultimately show ?thesis by (simp add: sum_root_powers)
  qed
  have "(\<Sum>j<?n. c j * node k l ^ j)
      = (\<Sum>j<?n. \<Sum>i<?n. inverse (of_nat ?n) * (e i * ?z i ^ j))"
    by (intro sum.cong refl)
      (simp add: cs sum_distrib_right sum_distrib_left power_mult_distrib power_inverse mult_ac
        flip: power_mult)
  also have "\<dots> = (\<Sum>i<?n. inverse (of_nat ?n) * e i * (\<Sum>j<?n. ?z i ^ j))"
    by (subst sum.swap) (simp add: sum_distrib_left mult_ac)
  also have "\<dots> = (\<Sum>i<?n. if i = l then e i else 0)"
    using of_nat_two_power_nonzero [OF k] by (intro sum.cong refl) (simp add: sum)
  also have "\<dots> = e l" using l by (simp add: sum.delta')
  finally show ?thesis .
qed

lemma invNtt_correct:
  assumes k: "k \<le> 32" and ev: "evals_of k ev f"
  obtains cs where "invNtt ev (2 ^ k) = Some cs" and "length cs = 2 ^ k"
    and "list_all canonical cs" and "pval (map gfe cs) = f"
proof -
  have len: "length ev = 2 ^ k" using ev by (simp add: evals_of_def)
  obtain cs where cs: "invNtt ev (2 ^ k) = Some cs" "length cs = 2 ^ k" "list_all canonical cs"
    and c: "\<And>j. j < 2 ^ k \<Longrightarrow> gfe (cs ! j)
      = (\<Sum>i<2 ^ k. gfe (ev ! i) * (inverse (omega k) ^ j) ^ i) * inverse (of_nat (2 ^ k))"
    using invNtt_coeffs [OF k len] by blast
  have "pval (map gfe cs) = f"
  proof (rule polyfun_eqI [where n = "2 ^ k" and A = "node k ` {..<2 ^ k}"])
    show "polyfun (2 ^ k) (pval (map gfe cs))" by (rule polyfun_pval) (simp add: cs)
    show "polyfun (2 ^ k) f" using ev by (simp add: evals_of_def)
    fix x assume "x \<in> node k ` {..<2 ^ k}"
    then obtain l where "l < 2 ^ k" "x = node k l" by blast
    then show "pval (map gfe cs) x = f x"
      using invNtt_values [OF k, of l "\<lambda>j. gfe (cs ! j)" "\<lambda>i. gfe (ev ! i)"] c ev
      by (simp add: pval_sum cs(2) evals_of_def)
  qed (simp_all add: card_nodes k)
  with cs show thesis using that by blast
qed

text \<open>Every list of the right length is the list of values of one function.\<close>

lemma evals_of_exists:
  assumes k: "k \<le> 32" and len: "length ev = 2 ^ k" and can: "list_all canonical ev"
  obtains f where "evals_of k ev f"
proof -
  obtain cs where cs: "length cs = 2 ^ k"
    and c: "\<And>j. j < 2 ^ k \<Longrightarrow> gfe (cs ! j)
      = (\<Sum>i<2 ^ k. gfe (ev ! i) * (inverse (omega k) ^ j) ^ i) * inverse (of_nat (2 ^ k))"
    using invNtt_coeffs [OF k len] by blast
  have "pval (map gfe cs) (node k l) = gfe (ev ! l)" if "l < 2 ^ k" for l
    using invNtt_values [OF k that, of "\<lambda>j. gfe (cs ! j)" "\<lambda>i. gfe (ev ! i)"] c
    by (simp add: pval_sum cs)
  then have "evals_of k ev (pval (map gfe cs))"
    using len can cs by (auto simp: evals_of_def intro: polyfun_pval)
  then show thesis by (rule that)
qed

lemma evals_of_unique:
  assumes "k \<le> 32" and "evals_of k p f" and "evals_of k p g"
  shows "f = g"
  by (rule polyfun_eqI [where n = "2 ^ k" and A = "node k ` {..<2 ^ k}"])
    (use assms in \<open>auto simp: evals_of_def card_nodes\<close>)

lemma evals_of_ext:
  assumes "evals_of k p f" and "evals_of k q f"
  shows "p = q"
  by (rule nth_equalityI) (use assms in \<open>auto simp: evals_of_def list_all_length gfe_inject [symmetric]\<close>)

subsection \<open>Doubling and multiplication\<close>

lemma concat_pairs:
  "length (concat (map (\<lambda>i. [a i, b i]) [0..<n])) = 2 * n"
  "i < 2 * n \<Longrightarrow> concat (map (\<lambda>i. [a i, b i]) [0..<n]) ! i = (if even i then a (i div 2) else b (i div 2))"
proof -
  show len: "length (concat (map (\<lambda>i. [a i, b i]) [0..<n])) = 2 * n" for n
    by (induction n) simp_all
  show "i < 2 * n \<Longrightarrow> concat (map (\<lambda>i. [a i, b i]) [0..<n]) ! i
      = (if even i then a (i div 2) else b (i div 2))"
  proof (induction n)
    case (Suc n)
    then consider "i < 2 * n" | "i = 2 * n" | "i = 2 * n + 1" by fastforce
    then show ?case using Suc.IH len [of n] by cases (simp_all add: nth_append)
  qed simp
qed

lemma doubleEvaluations_correct:
  assumes k: "k < 32" and ev: "evals_of k p f"
  obtains q where "doubleEvaluations p = Some q" and "evals_of (Suc k) q f"
proof -
  have len: "length p = 2 ^ k" using ev by (simp add: evals_of_def)
  obtain cs where cs: "invNtt p (2 ^ k) = Some cs" "pval (map gfe cs) = f"
    using invNtt_correct [OF _ ev] k by auto
  obtain odd where odd: "ntt cs (2 ^ k) True = Some odd"
    and o: "\<And>i. i < 2 ^ k \<Longrightarrow>
      canonical (odd ! i) \<and> gfe (odd ! i) = pval (map gfe cs) (node (Suc k) (2 * i + 1))"
    using ntt_odd_correct [OF k] by blast
  define q where "q = concat (map (\<lambda>i. [p ! i, odd ! i]) [0..<2 ^ k])"
  have "doubleEvaluations p = Some q"
    by (simp add: doubleEvaluations_def len cs odd q_def)
  moreover have "canonical (q ! i) \<and> gfe (q ! i) = f (node (Suc k) i)" if "i < 2 ^ Suc k" for i
  proof (cases "even i")
    case True
    then obtain j where j: "i = 2 * j" by blast
    with that ev k show ?thesis
      by (simp add: q_def concat_pairs(2) evals_of_def list_all_length omega_odd)
  next
    case False
    then obtain j where j: "i = 2 * j + 1" using oddE by blast
    with that o [of j] show ?thesis
      using concat_pairs(2) [of i "2 ^ k" "\<lambda>i. p ! i" "\<lambda>i. odd ! i"] by (simp add: q_def cs)
  qed
  moreover have "polyfun (2 ^ Suc k) f"
    by (rule polyfun_mono [of "2 ^ k"]) (use ev in \<open>simp_all add: evals_of_def\<close>)
  ultimately show thesis
    by (intro that [of q]) (simp_all add: evals_of_def list_all_length q_def concat_pairs(1))
qed

lemma polyMul_correct:
  assumes k: "k < 32" and p: "evals_of k p f" and q: "evals_of k q g"
  obtains r where "polyMul p q = Some r" and "evals_of (Suc k) r (\<lambda>x. f x * g x)"
proof -
  obtain p2 where p2: "doubleEvaluations p = Some p2" "evals_of (Suc k) p2 f"
    using doubleEvaluations_correct [OF k p] .
  obtain q2 where q2: "doubleEvaluations q = Some q2" "evals_of (Suc k) q2 g"
    using doubleEvaluations_correct [OF k q] .
  have len: "length p = 2 ^ k" "length q = 2 ^ k" using p q by (simp_all add: evals_of_def)
  have "polyfun (2 ^ Suc k) (\<lambda>x. f x * g x)"
  proof -
    obtain n where n: "(2 :: nat) ^ k = Suc n" by (cases "(2 :: nat) ^ k") auto
    with p q have "polyfun (Suc (n + n)) (\<lambda>x. f x * g x)"
      by (intro polyfun_mult) (simp_all add: evals_of_def)
    then show ?thesis by (rule polyfun_mono) (simp add: n)
  qed
  then have "evals_of (Suc k) (map2 Field_Mul p2 q2) (\<lambda>x. f x * g x)"
    using p2(2) q2(2) by (simp add: evals_of_def list_all_length)
  moreover have "polyMul p q = Some (map2 Field_Mul p2 q2)"
    by (simp add: polyMul_def len p2 q2)
  ultimately show thesis using that by blast
qed

subsection \<open>Batched evaluation\<close>

lemma partial_sum_step:
  fixes y a :: "nat \<Rightarrow> gf"
  shows "(\<Sum>l<Suc i. a l * (\<Prod>m\<in>{..<Suc i} - {l}. y m))
    = (\<Sum>l<i. a l * (\<Prod>m\<in>{..<i} - {l}. y m)) * y i + a i * (\<Prod>m<i. y m)"
proof -
  have "(\<Prod>m\<in>{..<Suc i} - {l}. y m) = (\<Prod>m\<in>{..<i} - {l}. y m) * y i" if "l < i" for l
  proof -
    have "{..<Suc i} - {l} = insert i ({..<i} - {l})" using that by auto
    then show ?thesis by (simp add: mult.commute)
  qed
  moreover have "{..<Suc i} - {i} = {..<i}" by auto
  ultimately show ?thesis by (simp add: sum_distrib_right mult.assoc)
qed

lemma minus_one_sign: "(if m mod 2 = (1 :: nat) then - a else a) = (- 1) ^ m * (a :: gf)"
  by (cases "even m") (simp_all add: odd_iff_mod_2_eq_one)

lemma batched_loop:
  assumes nodes: "\<And>i. i < n \<Longrightarrow> canonical (nodes ! i)" and x: "canonical x"
    and polys: "\<And>p. p \<in> set polys \<Longrightarrow> length p = n" and i: "Suc i \<le> n" and 1: "gfe (nodes ! 0) = 1"
    and res: "fold (batchedStep nodes polys x) [1..<Suc i] (1, map hd polys, Field_Sub (nodes ! 0) x)
      = (k, u, d)"
  shows "gfe k = (\<Prod>m<i. gfe (nodes ! m) - gfe x) \<and> gfe d = gfe (nodes ! i) - gfe x
    \<and> length u = length polys
    \<and> (\<forall>j<length polys. gfe (u ! j) = (\<Sum>l<Suc i. gfe (nodes ! l) * gfe (polys ! j ! l)
        * (\<Prod>m\<in>{..<Suc i} - {l}. gfe (nodes ! m) - gfe x)))"
  using i res
proof (induction i arbitrary: k u d)
  case 0
  have "hd p = p ! 0" if "p \<in> set polys" for p
    using polys [OF that] 0 by (intro hd_conv_nth) auto
  with 0 nodes x 1 show ?case by auto
next
  case (Suc i)
  obtain k' u' d' where st: "fold (batchedStep nodes polys x) [1..<Suc i]
      (1, map hd polys, Field_Sub (nodes ! 0) x) = (k', u', d')" by (rule prod_cases3)
  from Suc.prems have "(k, u, d) = batchedStep nodes polys x (Suc i) (k', u', d')"
    using st by simp
  then have kud: "k = Field_Mul k' d'" "d = Field_Sub (nodes ! Suc i) x"
    "u = map2 (\<lambda>uj p. let uj = Field_Mul uj d
       in if Suc i < length p then Field_Add uj (Field_Mul (Field_Mul k (nodes ! Suc i)) (p ! Suc i)) else uj)
       u' polys"
    by (auto simp: batchedStep_def Let_def)
  have IH: "gfe k' = (\<Prod>m<i. gfe (nodes ! m) - gfe x)" "gfe d' = gfe (nodes ! i) - gfe x"
    "length u' = length polys"
    "\<And>j. j < length polys \<Longrightarrow> gfe (u' ! j) = (\<Sum>l<Suc i. gfe (nodes ! l) * gfe (polys ! j ! l)
        * (\<Prod>m\<in>{..<Suc i} - {l}. gfe (nodes ! m) - gfe x))"
    using Suc.IH [OF _ st] Suc.prems(1) by auto
  have k: "gfe k = (\<Prod>m<Suc i. gfe (nodes ! m) - gfe x)" by (simp add: kud IH)
  have d: "gfe d = gfe (nodes ! Suc i) - gfe x"
    using Suc.prems(1) nodes x by (simp add: kud)
  have "gfe (u ! j) = (\<Sum>l<Suc (Suc i). gfe (nodes ! l) * gfe (polys ! j ! l)
        * (\<Prod>m\<in>{..<Suc (Suc i)} - {l}. gfe (nodes ! m) - gfe x))" if j: "j < length polys" for j
  proof -
    have "Suc i < length (polys ! j)" using Suc.prems(1) polys [OF nth_mem [OF j]] by simp
    then have "gfe (u ! j) = gfe (u' ! j) * gfe d + gfe (nodes ! Suc i) * gfe (polys ! j ! Suc i) * gfe k"
      using j IH(3) by (simp add: kud(3) Let_def mult_ac)
    then show ?thesis
      unfolding partial_sum_step [of "\<lambda>l. gfe (nodes ! l) * gfe (polys ! j ! l)"] IH(4) [OF j] d k .
  qed
  with k d IH(3) show ?case by (simp add: kud)
qed

lemma polyEvalBatched_correct:
  assumes k: "k \<le> 32" and x: "canonical x" and ne: "polys \<noteq> []"
    and ev: "list_all2 (evals_of k) polys fs"
  obtains us where "polyEvalBatched polys x = Some us" and "list_all canonical us"
    and "map gfe us = map (\<lambda>f. f (gfe x)) fs"
proof -
  let ?n = "2 ^ k :: nat"
  obtain nodes where nodes: "nthRootPowers ?n = Some nodes"
    and nd: "\<And>i. i < ?n \<Longrightarrow> canonical (nodes ! i) \<and> gfe (nodes ! i) = node k i"
    using nthRootPowers_correct [OF k] by blast
  have len: "length p = ?n" if "p \<in> set polys" for p
    using ev that by (auto simp: list_all2_conv_all_nth in_set_conv_nth evals_of_def)
  obtain m where m: "?n = Suc m" by (cases ?n) auto
  obtain kk u d where st: "fold (batchedStep nodes polys x) [1..<Suc m]
      (1, map hd polys, Field_Sub (nodes ! 0) x) = (kk, u, d)" by (rule prod_cases3)
  have u: "length u = length polys"
    "\<And>j. j < length polys \<Longrightarrow> gfe (u ! j) = (\<Sum>l<?n. gfe (nodes ! l) * gfe (polys ! j ! l)
        * (\<Prod>m\<in>{..<?n} - {l}. gfe (nodes ! m) - gfe x))"
    using batched_loop [of ?n nodes x polys m, OF _ x _ _ _ st] nd len nd [of 0] unfolding m by auto
  define factor where "factor = (let factor = Field_Inv (Field_New (word_of_nat ?n))
    in if (?n - 1) mod 2 = 1 then Field_Neg factor else factor)"
  have factor: "gfe factor = (- 1) ^ (?n - 1) * inverse (of_nat ?n)"
    unfolding factor_def Let_def minus_one_sign [symmetric]
    by (simp add: gfe_length [OF k, simplified])
  have val: "gfe (u ! j) * gfe factor = (fs ! j) (gfe x)" if j: "j < length polys" for j
  proof -
    have e: "evals_of k (polys ! j) (fs ! j)" using ev j by (simp add: list_all2_conv_all_nth)
    then have "gfe (u ! j) = (\<Sum>l<?n. node k l * (fs ! j) (node k l)
        * (\<Prod>m\<in>{..<?n} - {l}. node k m - gfe x))"
      unfolding u(2) [OF j] by (intro sum.cong refl) (simp add: nd evals_of_def)
    also have "\<dots> = (- 1) ^ (?n - 1) * of_nat ?n * (fs ! j) (gfe x)"
      using e by (intro batched_interpolation [OF k]) (simp add: evals_of_def)
    finally have "gfe (u ! j) * gfe factor = ((- 1) ^ (?n - 1) * (- 1) ^ (?n - 1))
        * (of_nat ?n * inverse (of_nat ?n)) * (fs ! j) (gfe x)"
      unfolding factor by (simp only: mult_ac)
    moreover have "of_nat ?n * inverse (of_nat ?n) = (1 :: gf)"
      using of_nat_two_power_nonzero [OF k] by (rule right_inverse)
    moreover have "(- 1) ^ (?n - 1) * (- 1) ^ (?n - 1) = (1 :: gf)"
      by (simp flip: power_mult_distrib)
    ultimately show ?thesis by (simp only: mult_1)
  qed
  obtain p0 ps where ps: "polys = p0 # ps" using ne by (cases polys) auto
  have "\<not> list_ex (\<lambda>p. p = []) polys" using len m by (force simp: list_ex_iff)
  then have "polyEvalBatched polys x = Some (map (\<lambda>uj. Field_Mul uj factor) u)"
    using st nodes len [of p0] unfolding polyEvalBatched_def
    by (simp add: ps m factor_def Let_def isPowerOf2_power [of k, unfolded m])
  moreover have "map gfe (map (\<lambda>uj. Field_Mul uj factor) u) = map (\<lambda>f. f (gfe x)) fs"
    using ev u(1) val by (intro nth_equalityI) (simp_all add: list_all2_conv_all_nth)
  ultimately show thesis using that by (simp add: list_all_iff)
qed

lemma polyEval_correct:
  assumes "k \<le> 32" and "canonical x" and "evals_of k p f"
  obtains v where "polyEval p x = Some v" and "canonical v" and "gfe v = f (gfe x)"
proof -
  obtain us where "polyEvalBatched [p] x = Some us" "list_all canonical us"
    "map gfe us = map (\<lambda>f. f (gfe x)) [f]"
    using polyEvalBatched_correct [OF assms(1,2), of "[p]" "[f]"] assms(3) by auto
  then show thesis by (intro that [of "us ! 0"]) (auto simp: polyEval_def)
qed

subsection \<open>Extending to a power of two\<close>

text \<open>The weights after \<open>k\<close> nodes, and one round of the loop.\<close>

definition weights :: "nat \<Rightarrow> nat \<Rightarrow> elt list \<Rightarrow> bool" where
  "weights K k w \<longleftrightarrow> length w = k
     \<and> (\<forall>i<k. gfe (w ! i) = (\<Prod>j\<in>{..<k} - {i}. node K i - node K j))"

lemma fold_fraction:
  assumes "\<And>i. i < n \<Longrightarrow> gfe (w ! i) \<noteq> 0"
    and "fold (\<lambda>i (yNum, yDen).
        (Field_Add (Field_Mul yNum (w ! i)) (Field_Mul yDen (p ! i)), Field_Mul yDen (w ! i)))
      [0..<n] (0, 1) = (yNum, yDen)"
  shows "gfe yDen \<noteq> 0 \<and> gfe yNum = gfe yDen * (\<Sum>i<n. gfe (p ! i) / gfe (w ! i))"
  using assms
proof (induction n arbitrary: yNum yDen)
  case (Suc n)
  let ?f = "\<lambda>i (yNum, yDen).
      (Field_Add (Field_Mul yNum (w ! i)) (Field_Mul yDen (p ! i)), Field_Mul yDen (w ! i))"
  obtain a b where ab: "fold ?f [0..<n] (0, 1) = (a, b)" by (rule prod.exhaust)
  from Suc.prems(2) have eqs: "yNum = Field_Add (Field_Mul a (w ! n)) (Field_Mul b (p ! n))"
    "yDen = Field_Mul b (w ! n)" by (simp_all add: ab)
  have IH: "gfe b \<noteq> 0" "gfe a = gfe b * (\<Sum>i<n. gfe (p ! i) / gfe (w ! i))"
    using Suc.IH [OF _ ab] Suc.prems(1) by simp_all
  have "gfe (w ! n) \<noteq> 0" using Suc.prems(1) by simp
  with IH show ?case by (simp add: eqs field_simps)
qed simp

lemma fold_diffs:
  assumes "canonical c" and "\<And>j. j < n \<Longrightarrow> canonical (x ! j)"
  shows "gfe (fold (\<lambda>j prod. Field_Mul prod (Field_Sub c (x ! j))) [0..<n] 1)
      = (\<Prod>j<n. gfe c - gfe (x ! j))"
  using assms(2) by (induction n) (simp_all add: assms(1))

lemma fold_diffs_except:
  assumes "canonical c" and "\<And>j. j < n \<Longrightarrow> canonical (x ! j)"
  shows "gfe (fold (\<lambda>j prod. if i \<noteq> j then Field_Mul prod (Field_Sub c (x ! j)) else prod) [0..<n] 1)
      = (\<Prod>j\<in>{..<n} - {i}. gfe c - gfe (x ! j))"
  using assms(2)
proof (induction n)
  case (Suc n)
  have "{..<Suc n} - {i} = (if i = n then {..<n} - {i} else insert n ({..<n} - {i}))" by auto
  with Suc show ?case by (cases "i = n") (auto simp: assms(1) mult.commute)
qed simp

text \<open>The next value of a polynomial function from its values at the first nodes.\<close>

lemma next_node_value:
  assumes K: "K \<le> 32" and k: "k < 2 ^ K" and m: "polyfun m f" "m \<le> k"
  shows "f (node K k) = - (\<Prod>j<k. node K k - node K j)
    * (\<Sum>i<k. f (node K i) / ((\<Prod>j\<in>{..<k} - {i}. node K i - node K j) * (node K i - node K k)))"
proof -
  define S where "S = node K ` {..<k}"
  have inj: "inj_on (node K) {..<k}"
    by (rule inj_on_subset [OF inj_on_node [OF K]]) (use k in auto)
  have sumS: "(\<Sum>a\<in>S. g a) = (\<Sum>i<k. g (node K i))" for g :: "gf \<Rightarrow> gf"
    unfolding S_def using inj by (simp add: sum.reindex)
  have kS: "node K k \<notin> S"
  proof
    assume "node K k \<in> S"
    then obtain i where "i < k" "node K k = node K i" by (auto simp: S_def)
    then show False using omega_inj [OF K k, of i] k by simp
  qed
  have prodS: "(\<Prod>j\<in>{..<k} - {i}. node K i - node K j) = (\<Prod>b\<in>S - {node K i}. node K i - b)"
    if "i < k" for i
  proof -
    have "S - {node K i} = node K ` ({..<k} - {i})"
      using inj that by (simp add: S_def inj_on_image_set_diff [OF inj])
    then show ?thesis using inj_on_subset [OF inj] by (simp add: prod.reindex)
  qed
  have "f (node K k) = - (\<Prod>b\<in>S. node K k - b)
      * (\<Sum>a\<in>S. f a / ((\<Prod>b\<in>S - {a}. a - b) * (a - node K k)))"
    using kS m by (intro next_value [of m]) (simp_all add: S_def card_image inj)
  also have "(\<Sum>a\<in>S. f a / ((\<Prod>b\<in>S - {a}. a - b) * (a - node K k)))
      = (\<Sum>i<k. f (node K i) / ((\<Prod>j\<in>{..<k} - {i}. node K i - node K j) * (node K i - node K k)))"
    unfolding sumS by (simp add: prodS)
  also have "(\<Prod>b\<in>S. node K k - b) = (\<Prod>j<k. node K k - node K j)"
    unfolding S_def using inj by (simp add: prod.reindex)
  finally show ?thesis .
qed

lemma weights_step:
  assumes "length w1 = k" and pr: "gfe pr = (\<Prod>j<k. node K k - node K j)"
    and w1: "\<And>i. i < k \<Longrightarrow> gfe (w1 ! i) = (\<Prod>j\<in>{..<k} - {i}. node K i - node K j) * (node K i - node K k)"
  shows "weights K (Suc k) (w1 @ [pr])"
  unfolding weights_def
proof (intro conjI allI impI)
  show "length (w1 @ [pr]) = Suc k" by (simp add: assms(1))
  fix i assume "i < Suc k"
  then consider "i < k" | "i = k" by linarith
  then show "gfe ((w1 @ [pr]) ! i) = (\<Prod>j\<in>{..<Suc k} - {i}. node K i - node K j)"
  proof cases
    case 1
    then have "{..<Suc k} - {i} = insert k ({..<k} - {i})" by auto
    then show ?thesis using 1 by (simp add: nth_append assms(1) w1 mult.commute)
  next
    case 2
    then have "{..<Suc k} - {i} = {..<k}" by auto
    then show ?thesis using 2 pr by (simp add: nth_append assms(1))
  qed
qed

lemma extendStep_correct:
  assumes K: "K \<le> 32" and k: "k < 2 ^ K" and m: "polyfun m f" "m \<le> k"
    and x: "\<And>i. i < 2 ^ K \<Longrightarrow> canonical (x ! i) \<and> gfe (x ! i) = node K i"
    and w: "weights K k w" and p: "length p = k" "\<And>i. i < k \<Longrightarrow> gfe (p ! i) = f (node K i)"
    and st: "extendStep x k (w, p) = (w', p')"
  shows "weights K (Suc k) w' \<and> (\<exists>v. p' = p @ [v] \<and> canonical v \<and> gfe v = f (node K k))"
proof -
  define w1 where "w1 = map (\<lambda>i. Field_Mul (w ! i) (Field_Sub (x ! i) (x ! k))) [0..<k]"
  define pr where "pr = fold (\<lambda>j prod. Field_Mul prod (Field_Sub (x ! k) (x ! j))) [0..<k] 1"
  obtain a b where ab: "fold (\<lambda>i (yNum, yDen).
        (Field_Add (Field_Mul yNum (w1 ! i)) (Field_Mul yDen (p ! i)), Field_Mul yDen (w1 ! i)))
      [0..<length p] (0, 1) = (a, b)" by (rule prod.exhaust)
  have w': "w' = w1 @ [pr]" and p': "p' = p @ [Field_Mul (Field_Mul (Field_Neg pr) a) (Field_Inv b)]"
    using st ab by (auto simp: extendStep_def Let_def w1_def pr_def split: prod.splits)
  have prc: "canonical pr" by (cases k) (simp_all add: pr_def)
  have pr: "gfe pr = (\<Prod>j<k. node K k - node K j)"
    using k x by (simp add: pr_def fold_diffs)
  have w1: "gfe (w1 ! i) = (\<Prod>j\<in>{..<k} - {i}. node K i - node K j) * (node K i - node K k)"
    if "i < k" for i using that k x w by (simp add: w1_def weights_def)
  have weights: "weights K (Suc k) w'" unfolding w' by (rule weights_step [OF _ pr w1]) (simp_all add: w1_def)
  have ne: "gfe (w1 ! i) \<noteq> 0" if "i < k" for i
  proof -
    have "node K i \<noteq> node K j" if "j < Suc k" "j \<noteq> i" for j
      using omega_inj [OF K, of i j] that \<open>i < k\<close> k by auto
    then show ?thesis using that by (simp add: w1)
  qed
  have b: "gfe b \<noteq> 0" "gfe a = gfe b * (\<Sum>i<k. gfe (p ! i) / gfe (w1 ! i))"
    using fold_fraction [OF _ ab] ne p(1) by auto
  have "f (node K k) = - gfe pr * (\<Sum>i<k. gfe (p ! i) / gfe (w1 ! i))"
    unfolding next_node_value [OF K k m] pr by (simp add: w1 p(2))
  also have "\<dots> = gfe (Field_Mul (Field_Mul (Field_Neg pr) a) (Field_Inv b))"
    using b prc by (simp add: field_simps)
  finally show ?thesis using weights p' by auto
qed

lemma extend_loop:
  assumes K: "K \<le> 32" and m: "polyfun m f"
    and x: "\<And>i. i < 2 ^ K \<Longrightarrow> canonical (x ! i) \<and> gfe (x ! i) = node K i"
    and w: "weights K m w" and p: "length p = m" "list_all canonical p"
      "\<And>i. i < m \<Longrightarrow> gfe (p ! i) = f (node K i)"
    and k: "m \<le> k" "k \<le> 2 ^ K"
    and st: "fold (extendStep x) [m..<k] (w, p) = (w', p')"
  shows "weights K k w' \<and> length p' = k \<and> list_all canonical p' \<and> take m p' = p
    \<and> (\<forall>i<k. gfe (p' ! i) = f (node K i))"
  using k st
proof (induction k arbitrary: w' p' rule: dec_induct)
  case base
  with w p show ?case by simp
next
  case (step k)
  obtain w1 p1 where 1: "fold (extendStep x) [m..<k] (w, p) = (w1, p1)" by (rule prod.exhaust)
  have IH: "weights K k w1" "length p1 = k" "list_all canonical p1" "take m p1 = p"
    "\<And>i. i < k \<Longrightarrow> gfe (p1 ! i) = f (node K i)"
    using step.IH [OF _ 1] step.prems(1) by auto
  have "extendStep x k (w1, p1) = (w', p')" using step 1 by simp
  from extendStep_correct [OF K _ m step(1) x IH(1,2,5) this] step.prems(1) obtain v
    where "weights K (Suc k) w'" "p' = p1 @ [v]" "canonical v" "gfe v = f (node K k)" by auto
  with IH step(1) show ?case by (auto simp: nth_append less_Suc_eq)
qed

lemma extendValuesToPowerOf2_correct:
  assumes K: "K \<le> 32" and m: "polyfun m f" and p: "length p = m" "m \<le> 2 ^ K" "list_all canonical p"
    "\<And>i. i < m \<Longrightarrow> gfe (p ! i) = f (node K i)"
  obtains q where "extendValuesToPowerOf2 p (2 ^ K) = Some q" and "evals_of K q f" and "take m q = p"
proof -
  obtain x where x: "nthRootPowers (2 ^ K) = Some x"
    and nd: "\<And>i. i < 2 ^ K \<Longrightarrow> canonical (x ! i) \<and> gfe (x ! i) = node K i"
    using nthRootPowers_correct [OF K] by blast
  define w where "w = map (\<lambda>i. fold (\<lambda>j prod.
      if i \<noteq> j then Field_Mul prod (Field_Sub (x ! i) (x ! j)) else prod) [0..<m] 1) [0..<m]"
  have "weights K m w"
    using nd p(2) by (simp add: weights_def w_def fold_diffs_except)
  moreover obtain w' q where q: "fold (extendStep x) [m..<2 ^ K] (w, p) = (w', q)"
    by (rule prod.exhaust)
  ultimately have "length q = 2 ^ K" "list_all canonical q" "take m q = p"
    "\<forall>i<2 ^ K. gfe (q ! i) = f (node K i)"
    using extend_loop [OF K m nd _ p(1,3,4,2) order_refl q] by auto
  moreover have "polyfun (2 ^ K) f" using m p(2) by (rule polyfun_mono)
  moreover have "extendValuesToPowerOf2 p (2 ^ K) = Some q"
    using p(1,2) q by (simp add: extendValuesToPowerOf2_def x w_def Let_def)
  ultimately show thesis using that by (simp add: evals_of_def)
qed

text \<open>Values at any distinct points belong to a polynomial of that degree bound.\<close>

lemma interpolation_exists:
  assumes "inj_on y {..<n}"
  obtains f where "polyfun n f" and "\<And>i. i < n \<Longrightarrow> f (y i) = (v i :: gf)"
proof -
  have "\<exists>f. polyfun n f \<and> (\<forall>i<n. f (y i) = v i)" using assms
  proof (induction n)
    case 0
    show ?case by (intro exI [of _ "\<lambda>x. 0"]) simp
  next
    case (Suc n)
    then have "inj_on y {..<n}" by (auto intro: inj_on_subset)
    with Suc.IH obtain f where f: "polyfun n f" "\<And>i. i < n \<Longrightarrow> f (y i) = v i" by blast
    let ?h = "\<lambda>x. \<Prod>j\<in>{..<n}. x - y j"
    have "y n \<noteq> y j" if "j < n" for j using Suc.prems that by (auto dest!: inj_onD)
    then have ne: "?h (y n) \<noteq> 0" by simp
    have zero: "?h (y i) = 0" if "i < n" for i using that by (intro prod_zero) auto
    let ?g = "\<lambda>x. f x + (v n - f (y n)) / ?h (y n) * ?h x"
    have "polyfun (Suc n) ?g"
      using polyfun_prod [of "{..<n}" y]
      by (intro polyfun_add polyfun_scale polyfun_Suc_mono [OF f(1)]) simp
    moreover have "?g (y i) = v i" if "i < Suc n" for i
      using that f(2) zero ne by (cases "i = n") (simp_all add: less_Suc_eq)
    ultimately show ?case by blast
  qed
  then show thesis using that by blast
qed

subsection \<open>Properties\<close>

lemma evals_of_ntt:
  assumes "k \<le> 32" and "length cs \<le> 2 ^ k"
  obtains out where "ntt cs (2 ^ k) False = Some out" and "evals_of k out (pval (map gfe cs))"
proof -
  obtain out where out: "ntt cs (2 ^ k) False = Some out" "length out = 2 ^ k"
    "\<And>i. i < 2 ^ k \<Longrightarrow> canonical (out ! i) \<and> gfe (out ! i) = pval (map gfe cs) (node k i)"
    using ntt_correct [OF assms(1)] by blast
  have "polyfun (2 ^ k) (pval (map gfe cs))"
    using assms(2) polyfun_pval [OF refl, of "map gfe cs"] by (auto intro: polyfun_mono)
  with out show thesis by (intro that [of out]) (auto simp: evals_of_def list_all_length)
qed

text \<open>Coefficients are determined by the polynomial function.\<close>

lemma pval_inject:
  assumes "pval cs = pval ds" and "length cs = length ds" and "length cs \<le> 2 ^ 32"
  shows "cs = ds"
  using assms
proof (induction cs arbitrary: ds)
  case (Cons c cs)
  then obtain d es where ds: "ds = d # es" "length es = length cs" by (cases ds) auto
  have eq: "pval cs x * x + c = pval es x * x + d" for x
    using fun_cong [OF Cons.prems(1), of x] by (simp add: ds)
  have cd: "c = d" using eq [of 0] by simp
  have "pval cs = pval es"
  proof (rule polyfun_eqI [where A = "node 32 ` {..<2 ^ 32}"])
    show "polyfun (length cs) (pval cs)" "polyfun (length cs) (pval es)"
      using ds by (auto intro: polyfun_pval)
    show "length cs \<le> card (node 32 ` {..<2 ^ 32})" using Cons.prems(3) card_nodes [of 32] by simp
    show "pval cs x = pval es x" if "x \<in> node 32 ` {..<2 ^ 32}" for x
      using eq [of x] that by (auto simp: cd)
  qed simp
  with Cons ds cd show ?case by simp
qed simp

text \<open>
  C22. For every power of two up to 2^32 the forward and the inverse transform return and are
  inverse to each other in both directions.
\<close>

theorem ntt_invNtt_roundtrip:
  assumes k: "k \<le> 32" and len: "length v = 2 ^ k" and can: "list_all canonical v"
  shows "(\<exists>ev. ntt v (2 ^ k) False = Some ev \<and> length ev = 2 ^ k \<and> invNtt ev (2 ^ k) = Some v)
    \<and> (\<exists>cs. invNtt v (2 ^ k) = Some cs \<and> length cs = 2 ^ k \<and> ntt cs (2 ^ k) False = Some v)"
proof
  obtain f where f: "evals_of k v f" using evals_of_exists [OF k len can] .
  obtain cs where cs: "invNtt v (2 ^ k) = Some cs" "length cs = 2 ^ k" "pval (map gfe cs) = f"
    using invNtt_correct [OF k f] by blast
  obtain w where w: "ntt cs (2 ^ k) False = Some w" "evals_of k w (pval (map gfe cs))"
    using evals_of_ntt [OF k, of cs] cs by auto
  with f cs evals_of_ext have "w = v" by blast
  with cs w show "\<exists>cs. invNtt v (2 ^ k) = Some cs \<and> length cs = 2 ^ k \<and> ntt cs (2 ^ k) False = Some v"
    by blast
  obtain ev where ev: "ntt v (2 ^ k) False = Some ev" "evals_of k ev (pval (map gfe v))"
    using evals_of_ntt [OF k, of v] len by auto
  obtain ds where ds: "invNtt ev (2 ^ k) = Some ds" "length ds = 2 ^ k" "list_all canonical ds"
      "pval (map gfe ds) = pval (map gfe v)"
    using invNtt_correct [OF k ev(2)] by blast
  have "map gfe ds = map gfe v"
    using ds len k power_increasing [of k 32 "2 :: nat"] by (intro pval_inject) simp_all
  with ds can have "ds = v" by (simp add: gfe_list_inject)
  with ev ds show "\<exists>ev. ntt v (2 ^ k) False = Some ev \<and> length ev = 2 ^ k \<and> invNtt ev (2 ^ k) = Some v"
    by (auto simp: evals_of_def)
qed

theorem ntt_roundtrip_witness:
  "\<exists>ev. ntt [1, 2, 3, 18446744069414584320] 4 False = Some ev \<and> length ev = 4
     \<and> invNtt ev 4 = Some [1, 2, 3, 18446744069414584320]"
  using ntt_invNtt_roundtrip [of 2 "[1, 2, 3, 18446744069414584320]"] by (simp add: canonical_iff)

text \<open>
  C24. The batched barycentric evaluation of a polynomial from its values at the roots of unity
  agrees with Horner evaluation of its coefficients at every canonical point, roots of unity
  included.
\<close>

theorem polyEval_ntt:
  assumes "k \<le> 32" and "length cs \<le> 2 ^ k" and "canonical x"
  shows "Option.bind (ntt cs (2 ^ k) False) (\<lambda>p. polyEval p x) = Some (evalMonomial cs x)"
proof -
  obtain p where p: "ntt cs (2 ^ k) False = Some p" "evals_of k p (pval (map gfe cs))"
    using evals_of_ntt [OF assms(1,2)] .
  obtain v where "polyEval p x = Some v" "canonical v" "gfe v = pval (map gfe cs) (gfe x)"
    using polyEval_correct [OF assms(1,3) p(2)] .
  moreover from this have "v = evalMonomial cs x" by (simp add: gfe_inject [symmetric])
  ultimately show ?thesis using p(1) by simp
qed

theorem polyEval_ntt_witness:
  "Option.bind (ntt [5, 7, 1] 4 False) (\<lambda>p. polyEval p 10) = Some (evalMonomial [5, 7, 1] 10)"
  using polyEval_ntt [of 2 "[5, 7, 1]" 10] by (simp add: canonical_iff)

text \<open>
  C23. Multiplying two polynomials given by their values at the roots of unity returns the
  values of the product: evaluating the result anywhere gives the product of the evaluations of
  the factors.
\<close>

theorem polyMul_ntt:
  assumes k: "k < 32" and as: "length as \<le> 2 ^ k" and bs: "length bs \<le> 2 ^ k" and x: "canonical x"
  shows "do { p \<leftarrow> ntt as (2 ^ k) False; q \<leftarrow> ntt bs (2 ^ k) False; r \<leftarrow> polyMul p q; polyEval r x }
    = Some (Field_Mul (evalMonomial as x) (evalMonomial bs x))"
proof -
  obtain p where p: "ntt as (2 ^ k) False = Some p" "evals_of k p (pval (map gfe as))"
    using evals_of_ntt [of k as] k as by auto
  obtain q where q: "ntt bs (2 ^ k) False = Some q" "evals_of k q (pval (map gfe bs))"
    using evals_of_ntt [of k bs] k bs by auto
  obtain r where r: "polyMul p q = Some r" "evals_of (Suc k) r (\<lambda>x. pval (map gfe as) x * pval (map gfe bs) x)"
    using polyMul_correct [OF k p(2) q(2)] .
  obtain v where v: "polyEval r x = Some v" "canonical v" "gfe v = pval (map gfe as) (gfe x) * pval (map gfe bs) (gfe x)"
    using polyEval_correct [OF _ x r(2)] k by auto
  then have "v = Field_Mul (evalMonomial as x) (evalMonomial bs x)" by (simp add: gfe_inject [symmetric])
  with p q r v show ?thesis by simp
qed

theorem polyMul_ntt_witness:
  "do { p \<leftarrow> ntt [5, 1] 2 False; q \<leftarrow> ntt [7, 2] 2 False; r \<leftarrow> polyMul p q; polyEval r 10 }
    = Some (Field_Mul (evalMonomial [5, 1] 10) (evalMonomial [7, 2] 10))"
  using polyMul_ntt [of 1 "[5, 1]" "[7, 2]" 10] by (simp add: canonical_iff)

text \<open>
  C25. Extending the first m values of a polynomial with at most m coefficients to a power of
  two recovers exactly the remaining values of the transform.
\<close>

theorem extendValues_ntt:
  assumes "k \<le> 32" and "length cs \<le> m" and "m \<le> 2 ^ k"
  shows "Option.bind (ntt cs (2 ^ k) False) (\<lambda>ev. extendValuesToPowerOf2 (take m ev) (2 ^ k)) = ntt cs (2 ^ k) False"
proof -
  obtain p where p: "ntt cs (2 ^ k) False = Some p" "evals_of k p (pval (map gfe cs))"
    using evals_of_ntt [of k cs] assms by auto
  have "polyfun m (pval (map gfe cs))"
    using assms(2) polyfun_pval [OF refl, of "map gfe cs"] by (auto intro: polyfun_mono)
  then obtain q where "extendValuesToPowerOf2 (take m p) (2 ^ k) = Some q" "evals_of k q (pval (map gfe cs))"
  proof (rule extendValuesToPowerOf2_correct [OF assms(1)])
    show "length (take m p) = m" "m \<le> 2 ^ k" "list_all canonical (take m p)"
      using p(2) assms(3) by (simp_all add: evals_of_def list_all_length)
    show "\<And>i. i < m \<Longrightarrow> gfe (take m p ! i) = pval (map gfe cs) (node k i)"
      using p(2) assms(3) by (simp add: evals_of_def)
  qed (rule that)
  with evals_of_ext [OF p(2)] p(1) show ?thesis by auto
qed

theorem extendValues_ntt_witness:
  "Option.bind (ntt [5, 1, 9] 4 False) (\<lambda>ev. extendValuesToPowerOf2 (take 3 ev) 4) = ntt [5, 1, 9] 4 False"
  using extendValues_ntt [of 2 "[5, 1, 9]" 3] by simp

end
