(* ===== verification/Flp.thy ===== *)
theory Flp
  imports Transform
begin

text \<open>
  \<^verbatim>\<open>pkg/vdaf/flp/gadget.go\<close>, \<^verbatim>\<open>flp.go\<close> and \<^verbatim>\<open>count.go\<close>: gadgets, the recorders a circuit
  calls them through, the generic proof system over the \<open>Valid\<close> interface, and the Count
  circuit. The two Go interfaces are records of their methods; None is a panic.
\<close>

subsection \<open>Gadgets\<close>

record gadget =
  g_Arity :: nat
  g_Degree :: nat
  g_Eval :: "elt list \<Rightarrow> elt option"
  g_EvalPoly :: "elt list list \<Rightarrow> elt list option"

definition Mul_Eval :: "elt list \<Rightarrow> elt option" where
  "Mul_Eval inp = (case inp of a # b # _ \<Rightarrow> Some (Field_Mul a b) | _ \<Rightarrow> None)"

definition Mul_EvalPoly :: "elt list list \<Rightarrow> elt list option" where
  "Mul_EvalPoly inpPoly = (case inpPoly of p # q # _ \<Rightarrow> polyMul p q | _ \<Rightarrow> None)"

definition Mul :: gadget where
  "Mul = \<lparr>g_Arity = 2, g_Degree = 2, g_Eval = Mul_Eval, g_EvalPoly = Mul_EvalPoly\<rparr>"

record gadget_call =
  gc_inner :: gadget
  gc_wires :: "elt list list"
  gc_k :: nat
  gc_poly :: "elt list option"
  gc_step :: nat

definition wirePolyLen :: "nat \<Rightarrow> nat" where
  "wirePolyLen gadgetCalls = nextPowerOf2 (1 + gadgetCalls)"

definition gadgetPolyLen :: "nat \<Rightarrow> nat \<Rightarrow> nat" where
  "gadgetPolyLen gadgetDegree wirePolynomialLen = gadgetDegree * (wirePolynomialLen - 1) + 1"

text \<open>The wires of a new recorder: zero but for the seeds in front.\<close>

definition seedWires :: "gadget \<Rightarrow> nat \<Rightarrow> elt list \<Rightarrow> elt list list option" where
  "seedWires g p wireSeeds =
     (if length wireSeeds < g_Arity g \<or> p = 0 \<and> 0 < g_Arity g then None
      else Some (map (\<lambda>j. (replicate p 0)[0 := wireSeeds ! j]) [0..<g_Arity g]))"

definition newProveCall :: "gadget \<Rightarrow> nat \<Rightarrow> elt list \<Rightarrow> gadget_call option" where
  "newProveCall g p wireSeeds = do {
     wires \<leftarrow> seedWires g p wireSeeds;
     Some \<lparr>gc_inner = g, gc_wires = wires, gc_k = 0, gc_poly = None, gc_step = 0\<rparr>
   }"

text \<open>\<^verbatim>\<open>for len(poly) < size { poly = doubleEvaluations(poly) }\<close>\<close>

partial_function (option) doubleUpTo :: "nat \<Rightarrow> elt list \<Rightarrow> elt list option" where
  "doubleUpTo size' poly =
     (if length poly < size' then do { poly \<leftarrow> doubleEvaluations poly; doubleUpTo size' poly }
      else Some poly)"

definition newQueryCall :: "gadget \<Rightarrow> nat \<Rightarrow> elt list \<Rightarrow> elt list \<Rightarrow> gadget_call option" where
  "newQueryCall g p wireSeeds gadgetPoly = do {
     wires \<leftarrow> seedWires g p wireSeeds;
     poly \<leftarrow> extendValuesToPowerOf2 gadgetPoly (nextPowerOf2 (length gadgetPoly));
     let size' = nextPowerOf2 (gadgetPolyLen (g_Degree g) p);
     poly \<leftarrow> doubleUpTo size' poly;
     if log2 size' < log2 p then None
     else Some \<lparr>gc_inner = g, gc_wires = wires, gc_k = 0, gc_poly = Some poly,
                gc_step = push_bit (log2 size' - log2 p) 1\<rparr>
   }"

definition Call :: "gadget_call \<Rightarrow> elt list \<Rightarrow> (gadget_call \<times> elt) option" where
  "Call gc inp =
     (let k = gc_k gc + 1; arity = g_Arity (gc_inner gc) in
      if length inp < arity \<or> length (gc_wires gc) < arity
        \<or> list_ex (\<lambda>w. length w \<le> k) (take arity (gc_wires gc)) then None
      else
        let gc = gc\<lparr>gc_k := k,
                     gc_wires := map (\<lambda>j. (gc_wires gc ! j)[k := inp ! j]) [0..<arity]
                       @ drop arity (gc_wires gc)\<rparr>
        in case gc_poly gc of
             Some poly \<Rightarrow>
               if k * gc_step gc < length poly then Some (gc, poly ! (k * gc_step gc)) else None
           | None \<Rightarrow> map_option (Pair gc) (g_Eval (gc_inner gc) inp))"

subsection \<open>Circuits\<close>

datatype flp_error = ErrTestPointRootOfUnity | ErrInvalidMeasurement

record valid =
  v_Gadgets :: "gadget list"
  v_GadgetCalls :: "nat list"
  v_MeasLen :: nat
  v_JointRandLen :: nat
  v_OutputLen :: nat
  v_EvalOutputLen :: nat
  v_Encode :: "int \<Rightarrow> flp_error + elt list"
  v_Eval :: "gadget_call list \<Rightarrow> elt list \<Rightarrow> elt list \<Rightarrow> nat \<Rightarrow> (gadget_call list \<times> elt list) option"
  v_Truncate :: "elt list \<Rightarrow> elt list"
  v_Decode :: "elt list \<Rightarrow> nat \<Rightarrow> int option"

definition ProveRandLen :: "valid \<Rightarrow> nat" where
  "ProveRandLen f = sum_list (map g_Arity (v_Gadgets f))"

definition QueryRandLen :: "valid \<Rightarrow> nat" where
  "QueryRandLen f = length (v_Gadgets f) + (if v_EvalOutputLen f > 1 then v_EvalOutputLen f else 0)"

definition ProofLen :: "valid \<Rightarrow> nat" where
  "ProofLen f = sum_list (map2 (\<lambda>g calls. g_Arity g + gadgetPolyLen (g_Degree g) (wirePolyLen calls))
     (v_Gadgets f) (v_GadgetCalls f))"

definition VerifierLen :: "valid \<Rightarrow> nat" where
  "VerifierLen f = 1 + sum_list (map (\<lambda>g. g_Arity g + 1) (v_Gadgets f))"

subsection \<open>Prove\<close>

text \<open>The loops over the gadgets, the call counts and the recorders in step; the rest of the
  randomness or of the proof is what the offset has not passed.\<close>

fun newProveCalls :: "gadget list \<Rightarrow> nat list \<Rightarrow> elt list \<Rightarrow> gadget_call list option" where
  "newProveCalls [] calls proveRand = Some []"
| "newProveCalls (g # gs) [] proveRand = None"
| "newProveCalls (g # gs) (n # calls) proveRand =
     (if length proveRand < g_Arity g then None else do {
        gc \<leftarrow> newProveCall g (wirePolyLen n) (take (g_Arity g) proveRand);
        gcs \<leftarrow> newProveCalls gs calls (drop (g_Arity g) proveRand);
        Some (gc # gcs)
      })"

fun proofParts :: "gadget list \<Rightarrow> nat list \<Rightarrow> gadget_call list \<Rightarrow> elt list option" where
  "proofParts [] calls gcs = Some []"
| "proofParts (g # gs) (n # calls) (gc # gcs) = do {
     gadgetPoly \<leftarrow> g_EvalPoly g (gc_wires gc);
     let plen = gadgetPolyLen (g_Degree g) (wirePolyLen n);
     if length gadgetPoly < plen then None else do {
       rest \<leftarrow> proofParts gs calls gcs;
       Some (map hd (take (g_Arity g) (gc_wires gc)) @ take plen gadgetPoly @ rest)
     }
   }"
| "proofParts (g # gs) _ _ = None"

definition Prove :: "valid \<Rightarrow> elt list \<Rightarrow> elt list \<Rightarrow> elt list \<Rightarrow> elt list option" where
  "Prove f meas proveRand jointRand = do {
     gc \<leftarrow> newProveCalls (v_Gadgets f) (v_GadgetCalls f) proveRand;
     (gc, out) \<leftarrow> v_Eval f gc meas jointRand 1;
     proofParts (v_Gadgets f) (v_GadgetCalls f) gc
   }"

subsection \<open>Query and Decide\<close>

fun newQueryCalls :: "gadget list \<Rightarrow> nat list \<Rightarrow> elt list \<Rightarrow> gadget_call list option" where
  "newQueryCalls [] calls proof = Some []"
| "newQueryCalls (g # gs) [] proof = None"
| "newQueryCalls (g # gs) (n # calls) proof =
     (let p = wirePolyLen n; gpLen = gadgetPolyLen (g_Degree g) p in
      if length proof < g_Arity g + gpLen then None else do {
        gc \<leftarrow> newQueryCall g p (take (g_Arity g) proof) (take gpLen (drop (g_Arity g) proof));
        gcs \<leftarrow> newQueryCalls gs calls (drop (g_Arity g + gpLen) proof);
        Some (gc # gcs)
      })"

fun queryParts :: "gadget list \<Rightarrow> gadget_call list \<Rightarrow> elt list \<Rightarrow> (flp_error + elt list) option" where
  "queryParts [] gcs queryRand = Some (Inr [])"
| "queryParts (g # gs) (gc # gcs) (t # queryRand) =
     (case gc_wires gc of [] \<Rightarrow> None
      | w0 # _ \<Rightarrow>
        if Field_Pow t (word_of_nat (length w0)) = 1 then Some (Inl ErrTestPointRootOfUnity)
        else do {
          wireChecks \<leftarrow> polyEvalBatched (gc_wires gc) t;
          poly \<leftarrow> gc_poly gc;
          gadgetCheck \<leftarrow> polyEval poly t;
          rest \<leftarrow> queryParts gs gcs queryRand;
          Some (case rest of Inl err \<Rightarrow> Inl err
                | Inr vs \<Rightarrow> Inr (wireChecks @ [gadgetCheck] @ vs))
        })"
| "queryParts (g # gs) _ _ = None"

definition Query ::
  "valid \<Rightarrow> elt list \<Rightarrow> elt list \<Rightarrow> elt list \<Rightarrow> elt list \<Rightarrow> nat \<Rightarrow> (flp_error + elt list) option" where
  "Query f meas proof queryRand jointRand numShares = do {
     gc \<leftarrow> newQueryCalls (v_Gadgets f) (v_GadgetCalls f) proof;
     (gc, out) \<leftarrow> v_Eval f gc meas jointRand numShares;
     (v, queryRand) \<leftarrow>
       (if v_EvalOutputLen f > 1 then
          let rand = take (v_EvalOutputLen f) queryRand in
          if length rand < v_EvalOutputLen f \<or> length out < length rand then None
          else Some (fold (\<lambda>(r, o') v. Field_Add v (Field_Mul r o')) (zip rand out) 0,
                     drop (v_EvalOutputLen f) queryRand)
        else if out = [] then None else Some (hd out, queryRand));
     parts \<leftarrow> queryParts (v_Gadgets f) gc queryRand;
     Some (case parts of Inl err \<Rightarrow> Inl err | Inr vs \<Rightarrow> Inr (v # vs))
   }"

fun decideParts :: "gadget list \<Rightarrow> elt list \<Rightarrow> bool option" where
  "decideParts [] verifier = Some True"
| "decideParts (g # gs) verifier =
     (if length verifier \<le> g_Arity g then None else do {
        e \<leftarrow> g_Eval g (take (g_Arity g) verifier);
        if e \<noteq> verifier ! g_Arity g then Some False
        else decideParts gs (drop (g_Arity g + 1) verifier)
      })"

definition Decide :: "valid \<Rightarrow> elt list \<Rightarrow> bool option" where
  "Decide f verifier =
     (case verifier of [] \<Rightarrow> None
      | v # vs \<Rightarrow> if v \<noteq> 0 then Some False else decideParts (v_Gadgets f) vs)"

subsection \<open>The Count circuit\<close>

definition Count_Encode :: "int \<Rightarrow> flp_error + elt list" where
  "Count_Encode measurement =
     (if measurement \<noteq> 0 \<and> measurement \<noteq> 1 then Inl ErrInvalidMeasurement
      else Inr [Field_New (word_of_int measurement)])"

definition Count_Eval ::
  "gadget_call list \<Rightarrow> elt list \<Rightarrow> elt list \<Rightarrow> nat \<Rightarrow> (gadget_call list \<times> elt list) option" where
  "Count_Eval calls meas jointRand numShares =
     (case (calls, meas) of
        (c # cs, m # _) \<Rightarrow> do {
          (c, squared) \<leftarrow> Call c [m, m];
          Some (c # cs, [Field_Sub squared m])
        }
      | _ \<Rightarrow> None)"

definition Count_Truncate :: "elt list \<Rightarrow> elt list" where
  "Count_Truncate meas = meas"

text \<open>The conversion of a uint64 to a 64-bit int reads the word as signed.\<close>

definition Count_Decode :: "elt list \<Rightarrow> nat \<Rightarrow> int option" where
  "Count_Decode output numMeasurements =
     (case output of [] \<Rightarrow> None | o' # _ \<Rightarrow> Some (sint o'))"

definition Count :: valid where
  "Count = \<lparr>v_Gadgets = [Mul], v_GadgetCalls = [1], v_MeasLen = 1, v_JointRandLen = 0,
     v_OutputLen = 1, v_EvalOutputLen = 1, v_Encode = Count_Encode, v_Eval = Count_Eval,
     v_Truncate = Count_Truncate, v_Decode = Count_Decode\<rparr>"

end
