(* ===== verification/FlpCount.thy ===== *)
theory FlpCount
  imports Flp
begin

text \<open>
  The proof system on the Count circuit: what \<open>Prove\<close> and \<open>Query\<close> compute, as field
  expressions in the measurement, the proof and the query point; completeness and linearity in
  the shares follow from the expressions, soundness from the degree of the gadget identity.
\<close>

subsection \<open>Lengths of Count\<close>

lemma nextPowerOf2_eq:
  assumes "n \<le> 2 ^ j" and "2 ^ j < 2 * n"
  shows "nextPowerOf2 n = 2 ^ j"
proof -
  obtain i where i: "nextPowerOf2 n = 2 ^ i" "n \<le> 2 ^ i" "\<And>l. n \<le> 2 ^ l \<Longrightarrow> i \<le> l"
    using nextPowerOf2_least by blast
  have "i \<le> j" using i(3) assms(1) .
  moreover have "j \<le> i"
  proof -
    from assms(2) i(2) have "(2 :: nat) ^ j < 2 ^ Suc i" by simp
    then show ?thesis by (simp only: power_strict_increasing_iff)
  qed
  ultimately show ?thesis using i(1) by simp
qed

lemma Count_lengths [simp]:
  "wirePolyLen (Suc 0) = 2" "gadgetPolyLen 2 2 = 3" "nextPowerOf2 (Suc (Suc (Suc 0))) = 4"
  "nextPowerOf2 3 = 4" "log2 4 = 2" "log2 2 = 1"
  "isPowerOf2 4" "isPowerOf2 2"
  using nextPowerOf2_eq [of "Suc (Suc 0)" 1] nextPowerOf2_eq [of 3 2] log2_power [of 2] log2_power [of 1]
    isPowerOf2_power [of 2] isPowerOf2_power [of 1]
  by (simp_all add: wirePolyLen_def gadgetPolyLen_def numeral_3_eq_3)

lemma Count_sizes:
  "ProveRandLen Count = 2" "QueryRandLen Count = 1" "ProofLen Count = 5" "VerifierLen Count = 4"
  "v_MeasLen Count = 1" "v_OutputLen Count = 1"
  by (simp_all add: ProveRandLen_def QueryRandLen_def ProofLen_def VerifierLen_def Count_def Mul_def)

lemma omega_1: "omega 1 = - 1"
proof -
  have "omega 1 ^ 2 = 1" "omega 1 \<noteq> 1"
    using omega_power_eq_1_iff [of 1 2] omega_power_eq_1_iff [of 1 1] by simp_all
  then show ?thesis by (simp add: power2_eq_1_iff)
qed

lemma omega_2_sq: "omega 2 ^ 2 = - 1"
  using omega_Suc [of 1] omega_1 by (simp add: numeral_2_eq_2)

lemma two_nonzero [simp]: "(2 :: gf) \<noteq> 0"
  using of_nat_two_power_nonzero [of 1] by simp

lemma nodes_2: "node 2 0 = 1" "node 2 (Suc 0) = omega 2" "node 2 2 = - 1"
  by (simp_all add: omega_2_sq)

lemma omega_2_distinct: "omega 2 \<noteq> 1" "omega 2 \<noteq> - 1" "(1 :: gf) \<noteq> - 1"
proof -
  show "omega 2 \<noteq> 1" using omega_power_eq_1_iff [of 2 1] by simp
  show "omega 2 \<noteq> - 1"
  proof
    assume "omega 2 = - 1"
    then have "omega 2 ^ 2 = 1" by simp
    then show False using omega_power_eq_1_iff [of 2 2] by simp
  qed
  show "(1 :: gf) \<noteq> - 1"
  proof
    assume "(1 :: gf) = - 1"
    then have "(2 :: gf) = 0" by (simp add: eq_neg_iff_add_eq_0)
    then show False by simp
  qed
qed

subsection \<open>The wire and gadget polynomials\<close>

text \<open>The line through \<open>(1, s)\<close> and \<open>(- 1, x)\<close>, and the quadratic through given values at the
  first three fourth roots of unity.\<close>

definition wire :: "gf \<Rightarrow> gf \<Rightarrow> gf \<Rightarrow> gf" where
  "wire s x t = s * ((t + 1) / 2) + x * ((1 - t) / 2)"

definition quad :: "gf \<Rightarrow> gf \<Rightarrow> gf \<Rightarrow> gf \<Rightarrow> gf" where
  "quad a b c t =
     a * ((t - omega 2) * (t + 1) / ((1 - omega 2) * 2))
     + b * ((t - 1) * (t + 1) / ((omega 2 - 1) * (omega 2 + 1)))
     + c * ((t - 1) * (t - omega 2) / (2 * (1 + omega 2)))"

lemma wire_values: "wire s x 1 = s" "wire s x (- 1) = x"
  by (simp_all add: wire_def)

lemma wire_polyfun: "polyfun 2 (wire s x)"
proof -
  have "wire s x = pval [(s + x) / 2, (s - x) / 2]"
    by (simp add: fun_eq_iff wire_def add_divide_distrib diff_divide_distrib algebra_simps)
  then show ?thesis by (simp add: polyfun_pval)
qed

lemma quad_values: "quad a b c 1 = a" "quad a b c (omega 2) = b" "quad a b c (- 1) = c"
proof -
  have ne: "omega 2 - 1 \<noteq> 0" "omega 2 + 1 \<noteq> 0" "1 - omega 2 \<noteq> 0" "1 + omega 2 \<noteq> 0"
    using omega_2_distinct by (simp_all add: eq_neg_iff_add_eq_0 add.commute)
  then show "quad a b c 1 = a" "quad a b c (omega 2) = b" by (simp_all add: quad_def)
  have "(- 1 - 1) * (- 1 - omega 2) = 2 * (1 + omega 2)" by (simp add: algebra_simps)
  moreover have "2 * (1 + omega 2) \<noteq> 0" using ne(4) by (simp only: mult_eq_0_iff two_nonzero) simp
  ultimately show "quad a b c (- 1) = c" by (simp only: quad_def divide_self) simp
qed

lemma polyfun_quadratic: "polyfun 3 (\<lambda>t. c * ((t - u) * (t - v) / d))"
proof -
  have "polyfun (Suc (Suc (Suc 0))) (\<lambda>t. 1 * (t - u) * (t - v))"
    by (intro polyfun_linear_mult polyfun_const) simp
  then have "polyfun 3 (\<lambda>t. (c / d) * ((t - u) * (t - v)))"
    by (intro polyfun_scale) (simp add: numeral_3_eq_3)
  then show ?thesis by simp
qed

lemma quad_polyfun: "polyfun 3 (quad a b c)"
  unfolding quad_def [abs_def]
  using polyfun_quadratic [of _ _ "- 1"] polyfun_quadratic [of _ 1 "- 1"] polyfun_quadratic [of _ 1]
  by (intro polyfun_add) simp_all

text \<open>Both are linear in the values.\<close>

lemma wire_add: "wire (s + s') (x + x') t = wire s x t + wire s' x' t"
  by (simp only: wire_def distrib_right add_ac)

lemma quad_add: "quad (a + a') (b + b') (c + c') t = quad a b c t + quad a' b' c' t"
  by (simp only: quad_def distrib_right add_ac)

lemma nth_less_2: "(\<forall>i<2. Q i) \<longleftrightarrow> Q 0 \<and> Q (Suc 0)"
  by (auto simp: less_2_cases_iff)

lemma evals_of_wire:
  assumes "canonical s" and "canonical x"
  shows "evals_of 1 [s, x] (wire (gfe s) (gfe x))"
  using assms wire_polyfun omega_1
  by (auto simp: evals_of_def nth_less_2 wire_values)

subsection \<open>What Query computes\<close>

lemma nth_less_3: "(\<forall>i<3. Q i) \<longleftrightarrow> Q 0 \<and> Q (Suc 0) \<and> Q 2"
  by (auto simp: numeral_3_eq_3 numeral_2_eq_2 less_Suc_eq)

text \<open>The query recorder of Count: the extended gadget polynomial keeps the given values.\<close>

lemma newQueryCall_Count:
  assumes can: "list_all canonical [s0, s1, g0, g1, g2]"
  obtains poly where "newQueryCall Mul 2 [s0, s1] [g0, g1, g2]
      = Some \<lparr>gc_inner = Mul, gc_wires = [[s0, 0], [s1, 0]], gc_k = 0, gc_poly = Some poly, gc_step = 2\<rparr>"
    and "evals_of 2 poly (quad (gfe g0) (gfe g1) (gfe g2))" and "poly ! 2 = g2"
proof -
  let ?q = "quad (gfe g0) (gfe g1) (gfe g2)"
  have "\<forall>i<3. gfe ([g0, g1, g2] ! i) = ?q (node 2 i)"
    unfolding nth_less_3 nodes_2 by (simp add: quad_values)
  then have vals: "\<And>i. i < 3 \<Longrightarrow> gfe ([g0, g1, g2] ! i) = ?q (node 2 i)" by blast
  have len: "length [g0, g1, g2] = 3" "(3 :: nat) \<le> 2 ^ 2" "(2 :: nat) \<le> 32" by simp_all
  have c: "list_all canonical [g0, g1, g2]" using can by simp
  obtain poly where poly: "extendValuesToPowerOf2 [g0, g1, g2] (2 ^ 2) = Some poly"
    "evals_of 2 poly ?q" "take 3 poly = [g0, g1, g2]"
    using extendValuesToPowerOf2_correct [OF len(3) quad_polyfun len(1,2) c vals] by blast
  have "poly ! 2 = take 3 poly ! 2" by simp
  then have "poly ! 2 = g2" by (simp only: poly(3)) simp
  moreover have "doubleUpTo 4 poly = Some poly"
    using poly(2) by (subst doubleUpTo.simps) (simp add: evals_of_def)
  moreover have "seedWires Mul 2 [s0, s1] = Some [[s0, 0], [s1, 0]]"
    by (simp add: seedWires_def Mul_def numeral_2_eq_2)
  ultimately show thesis
    using poly by (intro that [of poly]) (simp_all add: newQueryCall_def Mul_def)
qed

definition count_verifier :: "gf \<Rightarrow> gf \<Rightarrow> gf \<Rightarrow> gf \<Rightarrow> gf \<Rightarrow> gf \<Rightarrow> gf \<Rightarrow> gf list" where
  "count_verifier x s0 s1 g0 g1 g2 t = [g2 - x, wire s0 x t, wire s1 x t, quad g0 g1 g2 t]"

lemma Field_Pow_2_eq_1: "Field_Pow t 2 = 1 \<longleftrightarrow> gfe t ^ 2 = 1"
  using gfe_inject [of "Field_Pow t 2" 1] by simp

lemma Mul_simps [simp]:
  "g_Arity Mul = 2" "g_Degree Mul = 2" "g_Eval Mul = Mul_Eval" "g_EvalPoly Mul = Mul_EvalPoly"
  by (simp_all add: Mul_def)

lemma Query_Count_setup:
  assumes can: "list_all canonical [x, s0, s1, g0, g1, g2]"
  obtains gc0 gc poly where "newQueryCalls [Mul] [1] [s0, s1, g0, g1, g2] = Some [gc0]"
    and "Count_Eval [gc0] [x] jr n = Some ([gc], [Field_Sub g2 x])"
    and "gc_wires gc = [[s0, x], [s1, x]]" and "gc_poly gc = Some poly"
    and "evals_of 2 poly (quad (gfe g0) (gfe g1) (gfe g2))"
proof -
  obtain poly where call: "newQueryCall Mul 2 [s0, s1] [g0, g1, g2]
      = Some \<lparr>gc_inner = Mul, gc_wires = [[s0, 0], [s1, 0]], gc_k = 0, gc_poly = Some poly, gc_step = 2\<rparr>"
    and poly: "evals_of 2 poly (quad (gfe g0) (gfe g1) (gfe g2))" "poly ! 2 = g2"
    using newQueryCall_Count [of s0 s1 g0 g1 g2] can by auto
  have len: "length poly = 4" using poly(1) by (simp add: evals_of_def)
  define gc0 where "gc0 = \<lparr>gc_inner = Mul, gc_wires = [[s0, 0], [s1, 0]], gc_k = 0, gc_poly = Some poly, gc_step = 2\<rparr>"
  define gc where "gc = \<lparr>gc_inner = Mul, gc_wires = [[s0, x], [s1, x]], gc_k = 1, gc_poly = Some poly, gc_step = 2\<rparr>"
  have "newQueryCalls [Mul] [1] [s0, s1, g0, g1, g2] = Some [gc0]"
    using call by (simp add: gc0_def)
  moreover have "Call gc0 [x, x] = Some (gc, g2)"
    using len poly(2) by (simp add: Call_def gc_def gc0_def numeral_2_eq_2)
  ultimately show thesis
    using poly(1) by (intro that [of gc0 gc poly]) (simp_all add: Count_Eval_def gc_def)
qed

lemma Query_Count:
  assumes can: "list_all canonical [x, s0, s1, g0, g1, g2]" and t: "canonical t" "gfe t ^ 2 \<noteq> 1"
  obtains vs where "Query Count [x] [s0, s1, g0, g1, g2] [t] jr n = Some (Inr vs)"
    and "list_all canonical vs"
    and "map gfe vs = count_verifier (gfe x) (gfe s0) (gfe s1) (gfe g0) (gfe g1) (gfe g2) (gfe t)"
proof -
  obtain gc0 gc poly where calls: "newQueryCalls [Mul] [1] [s0, s1, g0, g1, g2] = Some [gc0]"
    and ev: "Count_Eval [gc0] [x] jr n = Some ([gc], [Field_Sub g2 x])"
    and gc: "gc_wires gc = [[s0, x], [s1, x]]" "gc_poly gc = Some poly"
    and poly: "evals_of 2 poly (quad (gfe g0) (gfe g1) (gfe g2))"
    by (rule Query_Count_setup [OF can])
  have w: "list_all2 (evals_of 1) [[s0, x], [s1, x]] [wire (gfe s0) (gfe x), wire (gfe s1) (gfe x)]"
    using evals_of_wire can by simp
  obtain us where us: "polyEvalBatched [[s0, x], [s1, x]] t = Some us" "list_all canonical us"
    "map gfe us = map (\<lambda>f. f (gfe t)) [wire (gfe s0) (gfe x), wire (gfe s1) (gfe x)]"
    using polyEvalBatched_correct [OF _ t(1) _ w] by auto
  obtain v where v: "polyEval poly t = Some v" "canonical v" "gfe v = quad (gfe g0) (gfe g1) (gfe g2) (gfe t)"
    using polyEval_correct [OF _ t(1) poly] by auto
  have "queryParts [Mul] [gc] [t] = Some (Inr (us @ [v]))"
    using us(1) v(1) t(2) by (simp add: gc Field_Pow_2_eq_1)
  then have "Query Count [x] [s0, s1, g0, g1, g2] [t] jr n = Some (Inr (Field_Sub g2 x # us @ [v]))"
    using calls ev by (simp add: Query_def Count_def)
  then show thesis
    using us v can by (intro that [of "Field_Sub g2 x # us @ [v]"]) (auto simp: count_verifier_def)
qed

lemma Query_Count_root:
  assumes can: "list_all canonical [x, s0, s1, g0, g1, g2]" and t: "gfe t ^ 2 = 1"
  shows "Query Count [x] [s0, s1, g0, g1, g2] [t] jr n = Some (Inl ErrTestPointRootOfUnity)"
proof -
  obtain gc0 gc poly where calls: "newQueryCalls [Mul] [1] [s0, s1, g0, g1, g2] = Some [gc0]"
    and ev: "Count_Eval [gc0] [x] jr n = Some ([gc], [Field_Sub g2 x])"
    and gc: "gc_wires gc = [[s0, x], [s1, x]]" "gc_poly gc = Some poly"
    by (rule Query_Count_setup [OF can])
  have "queryParts [Mul] [gc] [t] = Some (Inl ErrTestPointRootOfUnity)"
    using t by (simp add: gc Field_Pow_2_eq_1)
  then show ?thesis using calls ev by (simp add: Query_def Count_def)
qed

subsection \<open>Prove and Decide\<close>

lemma Decide_Count: "Decide Count [v, a, b, c] = Some (v = 0 \<and> Field_Mul a b = c)"
  by (auto simp: Decide_def Count_def Mul_def Mul_Eval_def numeral_2_eq_2)

definition gadget_poly :: "gf \<Rightarrow> gf \<Rightarrow> gf \<Rightarrow> gf \<Rightarrow> gf" where
  "gadget_poly r0 r1 x t = wire r0 x t * wire r1 x t"

lemma gadget_poly_polyfun: "polyfun 3 (gadget_poly r0 r1 x)"
  using polyfun_mult [of 1 "wire r0 x" 1 "wire r1 x"] wire_polyfun
  by (simp add: gadget_poly_def [abs_def] numeral_2_eq_2 numeral_3_eq_3)

lemma quad_interpolates:
  assumes "polyfun 3 f"
  shows "quad (f 1) (f (omega 2)) (f (- 1)) = f"
proof (rule polyfun_eqI [OF quad_polyfun assms, where A = "{1, omega 2, - 1}"])
  have "card {1, omega 2, - 1} = 3" 
    using omega_2_distinct omega_2_distinct [symmetric] by simp
  then show "3 \<le> card {1, omega 2, - 1}" by simp
qed (auto simp: quad_values)

lemma Prove_Count:
  assumes can: "list_all canonical [x, r0, r1]"
  obtains m0 m1 m2 where "Prove Count [x] [r0, r1] jr = Some [r0, r1, m0, m1, m2]"
    and "list_all canonical [m0, m1, m2]"
    and "quad (gfe m0) (gfe m1) (gfe m2) = gadget_poly (gfe r0) (gfe r1) (gfe x)"
proof -
  let ?M = "gadget_poly (gfe r0) (gfe r1) (gfe x)"
  define gc where "gc = \<lparr>gc_inner = Mul, gc_wires = [[r0, x], [r1, x]], gc_k = 1, gc_poly = None, gc_step = 0\<rparr>"
  define gc0 where "gc0 = \<lparr>gc_inner = Mul, gc_wires = [[r0, 0], [r1, 0]], gc_k = 0, gc_poly = None, gc_step = 0\<rparr>"
  have "seedWires Mul 2 [r0, r1] = Some [[r0, 0], [r1, 0]]"
    by (simp add: seedWires_def numeral_2_eq_2)
  then have calls: "newProveCalls [Mul] [1] [r0, r1] = Some [gc0]"
    by (simp add: newProveCall_def gc0_def)
  have ev: "Count_Eval [gc0] [x] jr 1 = Some ([gc], [Field_Sub (Field_Mul x x) x])"
    by (simp add: Count_Eval_def Call_def gc_def gc0_def Mul_Eval_def numeral_2_eq_2)
  obtain q where q: "polyMul [r0, x] [r1, x] = Some q" "evals_of 2 q ?M"
    using polyMul_correct [OF _ evals_of_wire evals_of_wire, of r0 x r1 x] can
    by (auto simp: gadget_poly_def [abs_def] numeral_2_eq_2)
  then have len: "length q = 4" by (simp add: evals_of_def)
  then obtain m0 m1 m2 m3 where m: "q = [m0, m1, m2, m3]"
    by (auto simp: length_Suc_conv numeral_eq_Suc)
  have "\<forall>i<4. canonical (q ! i) \<and> gfe (q ! i) = ?M (node 2 i)"
    using q(2) by (simp add: evals_of_def list_all_length)
  then have "\<forall>i<3. canonical (q ! i) \<and> gfe (q ! i) = ?M (node 2 i)" by simp
  then have vals: "list_all canonical [m0, m1, m2]"
    "gfe m0 = ?M 1" "gfe m1 = ?M (omega 2)" "gfe m2 = ?M (- 1)"
    unfolding nth_less_3 nodes_2 m by simp_all
  have proofParts: "proofParts [Mul] [1] [gc] = Some [r0, r1, m0, m1, m2]"
    using q(1) by (simp add: gc_def Mul_EvalPoly_def m)
  have "Prove Count [x] [r0, r1] jr = Some [r0, r1, m0, m1, m2]"
    using calls ev proofParts by (simp add: Prove_def Count_def)
  then show thesis
    using vals quad_interpolates [OF gadget_poly_polyfun] by (intro that [of m0 m1 m2]) simp_all
qed

subsection \<open>Completeness and soundness\<close>

text \<open>The verifier is linear in the measurement and the proof.\<close>

lemma count_verifier_add:
  "count_verifier (x + x') (s0 + s0') (s1 + s1') (g0 + g0') (g1 + g1') (g2 + g2') t
     = map2 (+) (count_verifier x s0 s1 g0 g1 g2 t) (count_verifier x' s0' s1' g0' g1' g2' t)"
  by (simp add: count_verifier_def wire_add quad_add)

text \<open>A verifier that is the one of an honest proof is accepted.\<close>

lemma honest_verifier_accepted:
  assumes x: "gfe x * gfe x = gfe x" and c: "list_all canonical [x, r0, r1]"
    and p: "Prove Count [x] [r0, r1] jr = Some [s0, s1, g0, g1, g2]"
    and vs: "list_all canonical vs"
      "map gfe vs = count_verifier (gfe x) (gfe s0) (gfe s1) (gfe g0) (gfe g1) (gfe g2) t"
  shows "Decide Count vs = Some True"
proof -
  have p': "s0 = r0" "s1 = r1" "quad (gfe g0) (gfe g1) (gfe g2) = gadget_poly (gfe r0) (gfe r1) (gfe x)"
    using Prove_Count [OF c, of jr] p by auto
  have "gfe g2 = gadget_poly (gfe r0) (gfe r1) (gfe x) (- 1)"
    using quad_values(3) [of "gfe g0" "gfe g1" "gfe g2"] by (simp only: p')
  then have g2: "gfe g2 = gfe x" by (simp add: gadget_poly_def wire_values x)
  obtain v a b d where v: "vs = [v, a, b, d]" using vs(2) by (auto simp: count_verifier_def)
  have "v = 0" using vs g2 gfe_inject [of v 0] by (simp add: v count_verifier_def)
  moreover have "Field_Mul a b = d"
    using vs p' gfe_inject [of "Field_Mul a b" d] by (simp add: v count_verifier_def gadget_poly_def)
  ultimately show ?thesis by (simp add: v Decide_Count)
qed

text \<open>Whatever the proof, a measurement outside \<open>{0, 1}\<close> is accepted at two query points at
  most.\<close>

lemma Count_soundness:
  assumes c: "list_all canonical [x, s0, s1, g0, g1, g2]" and x: "gfe x * gfe x \<noteq> gfe x"
  shows "card {t. canonical t \<and> (\<exists>vs. Query Count [x] [s0, s1, g0, g1, g2] [t] jr n = Some (Inr vs)
    \<and> Decide Count vs = Some True)} \<le> 2"
proof -
  let ?A = "{t. canonical t \<and> (\<exists>vs. Query Count [x] [s0, s1, g0, g1, g2] [t] jr n = Some (Inr vs)
    \<and> Decide Count vs = Some True)}"
  let ?f = "\<lambda>t. gadget_poly (gfe s0) (gfe s1) (gfe x) t - quad (gfe g0) (gfe g1) (gfe g2) t"
  have acc: "gfe g2 = gfe x \<and> ?f (gfe t) = 0" if "t \<in> ?A" for t
  proof -
    from that obtain vs where t: "canonical t" and q: "Query Count [x] [s0, s1, g0, g1, g2] [t] jr n = Some (Inr vs)"
      and d: "Decide Count vs = Some True" by blast
    have t2: "gfe t ^ 2 \<noteq> 1" using Query_Count_root [OF c] q by auto
    have vs: "map gfe vs = count_verifier (gfe x) (gfe s0) (gfe s1) (gfe g0) (gfe g1) (gfe g2) (gfe t)"
      using Query_Count [OF c t t2, of jr n] q by auto
    then obtain v a b d where "vs = [v, a, b, d]" by (auto simp: count_verifier_def)
    with d vs show ?thesis by (auto simp: Decide_Count count_verifier_def gadget_poly_def)
  qed
  show ?thesis
  proof (cases "gfe g2 = gfe x")
    case True
    have "card (gfe ` ?A) \<le> card {t. ?f t = 0}" using acc by (intro card_mono) auto
    also have "\<dots> < 3"
    proof (rule polyfun_card_roots)
      show "polyfun 3 ?f" by (intro polyfun_diff gadget_poly_polyfun quad_polyfun)
      show "?f (- 1) \<noteq> 0" using x True by (simp add: gadget_poly_def wire_values quad_values)
    qed
    finally have "card (gfe ` ?A) \<le> 2" by simp
    moreover have "inj_on gfe ?A" by (rule inj_onI) (simp add: gfe_inject)
    ultimately show ?thesis by (simp add: card_image)
  next
    case False
    then have "?A = {}" using acc by blast
    then show ?thesis by (simp only: card.empty)
  qed
qed

subsection \<open>Properties\<close>

lemma Field_New_id: "canonical x \<Longrightarrow> Field_New x = x"
  by (auto simp: Field_New_def canonical_def)

lemma Count_Encode_Inr:
  "v_Encode Count m = Inr meas \<longleftrightarrow> (m = 0 \<or> m = 1) \<and> meas = [word_of_int m]"
  by (auto simp: Count_def Count_Encode_def Field_New_id)

lemma list_5:
  assumes "length p = 5"
  shows "p = [p ! 0, p ! 1, p ! 2, p ! 3, p ! 4]"
  using assms by (auto simp: length_Suc_conv numeral_eq_Suc)

lemma test_point:
  assumes "canonical t" and "Field_Mul t t \<noteq> 1"
  shows "gfe t ^ 2 \<noteq> 1"
  using assms gfe_inject [of "Field_Mul t t" 1] Field_Mul_correct [of t t]
  by (simp add: canonical_iff power2_eq_square)

text \<open>
  Completeness of the proof system on the Count circuit: an encoded measurement 0 or 1
  proved with any randomness is accepted at every query point whose square is not 1.
\<close>

theorem flp_count_complete:
  assumes "m = 0 \<or> m = 1" and can: "canonical r0" "canonical r1" "canonical t" and t: "Field_Mul t t \<noteq> 1"
  shows "\<exists>meas pf vs. v_Encode Count m = Inr meas \<and> Prove Count meas [r0, r1] [] = Some pf
    \<and> Query Count meas pf [t] [] 1 = Some (Inr vs) \<and> Decide Count vs = Some True"
proof -
  let ?x = "word_of_int m :: elt"
  have x: "canonical ?x" "gfe ?x * gfe ?x = gfe ?x" using assms(1) by (auto simp: canonical_iff)
  have c: "list_all canonical [?x, r0, r1]" using x can by simp
  obtain m0 m1 m2 where pf: "Prove Count [?x] [r0, r1] [] = Some [r0, r1, m0, m1, m2]"
    and mc: "list_all canonical [m0, m1, m2]" using Prove_Count [OF c] by metis
  have "gfe t ^ 2 \<noteq> 1"
    using t gfe_inject [of "Field_Mul t t" 1] Field_Mul_correct [of t t] by (simp add: canonical_iff power2_eq_square)
  then obtain vs where vs: "Query Count [?x] [r0, r1, m0, m1, m2] [t] [] 1 = Some (Inr vs)"
    "list_all canonical vs"
    "map gfe vs = count_verifier (gfe ?x) (gfe r0) (gfe r1) (gfe m0) (gfe m1) (gfe m2) (gfe t)"
    using Query_Count [of ?x r0 r1 m0 m1 m2 t "[]" 1] can x mc by auto
  have "Decide Count vs = Some True" by (rule honest_verifier_accepted [OF x(2) c pf vs(2,3)])
  moreover have "v_Encode Count m = Inr [?x]" using assms(1) by (simp add: Count_Encode_Inr)
  ultimately show ?thesis using pf vs(1) by blast
qed

theorem flp_count_complete_witness:
  "\<exists>meas pf vs. v_Encode Count 1 = Inr meas \<and> Prove Count meas [3, 4] [] = Some pf
    \<and> Query Count meas pf [5] [] 1 = Some (Inr vs) \<and> Decide Count vs = Some True"
proof -
  have "Field_Mul 5 5 \<noteq> 1" by (simp add: Field_Mul_def Mul64_def Sub64_def Add64_def Modulus_def epsilon_def)
  then show ?thesis using flp_count_complete [of 1 3 4 5] by (simp add: canonical_iff)
qed

text \<open>
  C8. Soundness of the proof system on the Count circuit: whatever five field elements an
  adversary sends as a proof, a measurement other than 0 and 1 is accepted for at most two of
  the field's query points.
\<close>

theorem flp_count_sound:
  assumes "list_all canonical (x # proof)" and "length proof = 5" and "x \<noteq> 0" and "x \<noteq> 1"
  shows "card {t. canonical t \<and> (\<exists>vs. Query Count [x] proof [t] jr n = Some (Inr vs) \<and> Decide Count vs = Some True)} \<le> 2"
proof -
  obtain s0 s1 g0 g1 g2 where p: "proof = [s0, s1, g0, g1, g2]"
    using list_5 [OF assms(2)] by blast
  have "gfe x \<noteq> 0" "gfe x \<noteq> 1"
    using assms gfe_inject [of x 0] gfe_inject [of x 1] by (simp_all add: canonical_iff)
  then have "gfe x * gfe x \<noteq> gfe x" by simp
  with Count_soundness [of x s0 s1 g0 g1 g2] assms(1) show ?thesis by (simp add: p)
qed

theorem flp_count_sound_witness:
  "card {t. canonical t \<and> (\<exists>vs. Query Count [2] [1, 2, 3, 4, 5] [t] [] 1 = Some (Inr vs) \<and> Decide Count vs = Some True)} \<le> 2"
  using flp_count_sound [of 2 "[1, 2, 3, 4, 5]"] by (simp add: canonical_iff)

end
