(* ===== verification/Prio3.thy ===== *)
theory Prio3
  imports Xof FlpCount
begin

text \<open>
  \<^verbatim>\<open>pkg/vdaf/prio3\<close>: the Prio3Count VDAF over the field, the XOF and the proof system. A
  result is None where the code panics or an expansion does not return, \<open>Inl\<close> an error value,
  \<open>Inr\<close> a result. The instance's \<open>Flp\<close> is always the one over the Count circuit.

  The XOF enters through one function, \<^verbatim>\<open>xof.ExpandIntoVecField64\<close>; the operations that call it
  take it as their argument \<open>xp\<close>, so that what is proved of them rests on the contract
  \<open>field_xof\<close> only. The code's operations are those at \<open>ExpandIntoVecField64\<close>, which meets it.
\<close>

subsection \<open>The XOF interface\<close>

type_synonym expander = "bytes \<Rightarrow> bytes \<Rightarrow> bytes \<Rightarrow> nat \<Rightarrow> (xof_error + elt list) option"

locale field_xof =
  fixes xp :: expander
  assumes expand_result: "xp seed dst bnd len = Some (Inr v) \<Longrightarrow> length v = len \<and> list_all canonical v"

interpretation turbo: field_xof ExpandIntoVecField64
  by unfold_locales (rule ExpandIntoVecField64_result)

subsection \<open>count.go\<close>

datatype prio3_error =
    ErrNonceSize | ErrRandSize | ErrShareCount | ErrVerifyFailed | ErrAggID | ErrShareSize
  | ErrVerifierMessage | XofError xof_error | FlpError flp_error | FieldError field_error

type_synonym 'a res = "(prio3_error + 'a) option"

text \<open>\<^verbatim>\<open>x, err := ...; if err != nil { return err }\<close>\<close>

definition andThen :: "'a res \<Rightarrow> ('a \<Rightarrow> 'b res) \<Rightarrow> 'b res" where
  "andThen r f = (case r of None \<Rightarrow> None | Some (Inl err) \<Rightarrow> Some (Inl err) | Some (Inr x) \<Rightarrow> f x)"

definition wrapErr :: "('e \<Rightarrow> prio3_error) \<Rightarrow> ('e + 'a) option \<Rightarrow> 'a res" where
  "wrapErr w r = (case r of None \<Rightarrow> None | Some (Inl err) \<Rightarrow> Some (Inl (w err)) | Some (Inr x) \<Rightarrow> Some (Inr x))"

definition panics :: "'a option \<Rightarrow> 'a res" where
  "panics r = map_option Inr r"

lemma andThen_simps [simp]:
  "andThen None f = None" "andThen (Some (Inl e)) f = Some (Inl e)" "andThen (Some (Inr x)) f = f x"
  by (simp_all add: andThen_def)

lemma andThen_Inr_iff:
  "andThen r f = Some (Inr y) \<longleftrightarrow> (\<exists>x. r = Some (Inr x) \<and> f x = Some (Inr y))"
  by (auto simp: andThen_def split: option.splits sum.splits)

lemma wrapErr_Inr_iff [simp]: "wrapErr w r = Some (Inr x) \<longleftrightarrow> r = Some (Inr x)"
  by (auto simp: wrapErr_def split: option.splits sum.splits)

lemma panics_simps [simp]:
  "panics None = None" "panics (Some x) = Some (Inr x)" "panics r = Some (Inr y) \<longleftrightarrow> r = Some y"
  by (auto simp: panics_def)

definition algorithmID :: "32 word" where "algorithmID = 1"
definition NonceSize :: nat where "NonceSize = 16"
definition VerifyKeySize :: nat where "VerifyKeySize = 32"
definition proofs :: nat where "proofs = 1"

record prio3_count =
  c_shares :: "8 word"
  c_ctx :: bytes

record input_share =
  is_AggID :: "8 word"
  is_MeasShare :: "elt list"
  is_ProofsShare :: "elt list"
  is_Seed :: bytes

definition NewCount :: "8 word \<Rightarrow> bytes \<Rightarrow> prio3_error + prio3_count" where
  "NewCount numShares ctx =
     (if numShares < 2 then Inl ErrShareCount else Inr \<lparr>c_shares = numShares, c_ctx = ctx\<rparr>)"

definition RandSize :: "prio3_count \<Rightarrow> nat" where
  "RandSize c = SeedSize * unat (c_shares c)"

definition dst :: "prio3_count \<Rightarrow> 16 word \<Rightarrow> bytes" where
  "dst c usage = DomainSeparationTag usage algorithmID (c_ctx c)"

definition helperMeasShare :: "expander \<Rightarrow> prio3_count \<Rightarrow> 8 word \<Rightarrow> bytes \<Rightarrow> elt list res" where
  "helperMeasShare xp c aggID seed =
     wrapErr XofError (xp seed (dst c UsageMeasShare) [aggID] (v_MeasLen Count))"

definition helperProofsShare :: "expander \<Rightarrow> prio3_count \<Rightarrow> 8 word \<Rightarrow> bytes \<Rightarrow> elt list res" where
  "helperProofsShare xp c aggID seed =
     wrapErr XofError (xp seed (dst c UsageProofShare) [word_of_nat proofs, aggID]
       (ProofLen Count * proofs))"

definition proveRands :: "expander \<Rightarrow> prio3_count \<Rightarrow> bytes \<Rightarrow> elt list res" where
  "proveRands xp c seed =
     wrapErr XofError (xp seed (dst c UsageProveRandomness) [word_of_nat proofs]
       (ProveRandLen Count * proofs))"

definition queryRands :: "expander \<Rightarrow> prio3_count \<Rightarrow> bytes \<Rightarrow> bytes \<Rightarrow> elt list res" where
  "queryRands xp c verifyKey nonce =
     wrapErr XofError (xp verifyKey (dst c UsageQueryRandomness)
       (word_of_nat proofs # nonce) (QueryRandLen Count * proofs))"

text \<open>The loop that subtracts the helpers' expanded shares, from helper \<open>j + 1\<close> on.\<close>

primrec subShares ::
  "(8 word \<Rightarrow> bytes \<Rightarrow> elt list res) \<Rightarrow> nat \<Rightarrow> bytes list \<Rightarrow> elt list \<Rightarrow> elt list res" where
  "subShares expand j [] acc = Some (Inr acc)"
| "subShares expand j (seed # seeds) acc =
     andThen (expand (word_of_nat (j + 1)) seed) (\<lambda>h.
       case VecSub acc h of
         Inl err \<Rightarrow> Some (Inl (FieldError err))
       | Inr acc \<Rightarrow> subShares expand (j + 1) seeds acc)"

text \<open>With \<open>proofs = 1\<close> the loop over the proofs runs once, on the whole of its vector.\<close>

definition Shard ::
  "expander \<Rightarrow> prio3_count \<Rightarrow> int \<Rightarrow> bytes \<Rightarrow> bytes \<Rightarrow> (bytes \<times> input_share list) res" where
  "Shard xp c measurement nonce rand =
     (if length nonce \<noteq> NonceSize then Some (Inl ErrNonceSize)
      else if length rand \<noteq> RandSize c then Some (Inl ErrRandSize)
      else
        let shares = unat (c_shares c);
            seeds = map (\<lambda>i. take SeedSize (drop (i * SeedSize) rand)) [0..<shares]
        in andThen (wrapErr FlpError (Some (v_Encode Count measurement))) (\<lambda>meas.
           let helperSeeds = take (shares - 1) seeds;
               proveSeed = seeds ! (shares - 1)
           in andThen (subShares (helperMeasShare xp c) 0 helperSeeds meas) (\<lambda>leaderMeas.
              andThen (proveRands xp c proveSeed) (\<lambda>pr.
              andThen (panics (Prove Count meas (take (ProveRandLen Count) pr) [])) (\<lambda>pf.
              andThen (subShares (helperProofsShare xp c) 0 helperSeeds pf) (\<lambda>leaderProofs.
                Some (Inr ([],
                  \<lparr>is_AggID = 0, is_MeasShare = leaderMeas, is_ProofsShare = leaderProofs, is_Seed = []\<rparr>
                  # map (\<lambda>j. \<lparr>is_AggID = word_of_nat (j + 1), is_MeasShare = [], is_ProofsShare = [],
                              is_Seed = helperSeeds ! j\<rparr>) [0..<shares - 1]))))))))"

definition expandInputShare :: "expander \<Rightarrow> prio3_count \<Rightarrow> input_share \<Rightarrow> (elt list \<times> elt list) res" where
  "expandInputShare xp c in' =
     (if is_AggID in' = 0 then Some (Inr (is_MeasShare in', is_ProofsShare in'))
      else andThen (helperMeasShare xp c (is_AggID in') (is_Seed in')) (\<lambda>measShare.
           andThen (helperProofsShare xp c (is_AggID in') (is_Seed in')) (\<lambda>proofsShare.
             Some (Inr (measShare, proofsShare)))))"

text \<open>\<open>VerifyState\<close> and \<open>VerifierShare\<close> each hold one vector.\<close>

definition VerifyInit ::
  "expander \<Rightarrow> prio3_count \<Rightarrow> bytes \<Rightarrow> 8 word \<Rightarrow> bytes \<Rightarrow> bytes \<Rightarrow> input_share \<Rightarrow> (elt list \<times> elt list) res" where
  "VerifyInit xp c verifyKey aggID nonce publicShare in' =
     (if unat aggID \<ge> unat (c_shares c) then Some (Inl ErrAggID)
      else if is_AggID in' \<noteq> aggID then Some (Inl ErrAggID)
      else andThen (expandInputShare xp c in') (\<lambda>(measShare, proofsShare).
        let outShare = v_Truncate Count measShare in
        andThen (queryRands xp c verifyKey nonce) (\<lambda>qr.
        if length proofsShare < ProofLen Count then None
        else
          let proofShare = take (ProofLen Count) proofsShare;
              qr = take (QueryRandLen Count) qr
          in andThen (wrapErr FlpError
               (Query Count measShare proofShare qr [] (unat (c_shares c)))) (\<lambda>v.
               Some (Inr (outShare, v))))))"

primrec sumVectors :: "elt list \<Rightarrow> elt list list \<Rightarrow> field_error + elt list" where
  "sumVectors acc [] = Inr acc"
| "sumVectors acc (v # vs) =
     (case VecAdd acc v of Inl err \<Rightarrow> Inl err | Inr acc \<Rightarrow> sumVectors acc vs)"

definition VerifierSharesToMessage :: "prio3_count \<Rightarrow> elt list list \<Rightarrow> bytes res" where
  "VerifierSharesToMessage c shares =
     (case sumVectors (replicate (VerifierLen Count * proofs) 0) shares of
        Inl err \<Rightarrow> Some (Inl (FieldError err))
      | Inr verifiers \<Rightarrow>
          andThen (panics (Decide Count (take (VerifierLen Count) verifiers))) (\<lambda>ok.
            if \<not> ok then Some (Inl ErrVerifyFailed) else Some (Inr [])))"

definition VerifyNext :: "prio3_count \<Rightarrow> elt list \<Rightarrow> bytes \<Rightarrow> elt list res" where
  "VerifyNext c state verifierMessage =
     (if length verifierMessage \<noteq> 0 then Some (Inl ErrVerifierMessage) else Some (Inr state))"

definition AggregateInit :: "prio3_count \<Rightarrow> elt list" where
  "AggregateInit c = replicate (v_OutputLen Count) 0"

definition AggregateUpdate :: "prio3_count \<Rightarrow> elt list \<Rightarrow> elt list \<Rightarrow> field_error + elt list" where
  "AggregateUpdate c aggShare outShare = VecAdd aggShare outShare"

definition Unshard :: "prio3_count \<Rightarrow> elt list list \<Rightarrow> nat \<Rightarrow> int res" where
  "Unshard c aggShares numMeasurements =
     (case sumVectors (replicate (v_OutputLen Count) 0) aggShares of
        Inl err \<Rightarrow> Some (Inl (FieldError err))
      | Inr merged \<Rightarrow> panics (v_Decode Count merged numMeasurements))"

subsection \<open>encode.go\<close>

definition EncodeInputShare :: "prio3_count \<Rightarrow> input_share \<Rightarrow> bytes" where
  "EncodeInputShare c in' =
     (if is_AggID in' = 0 then EncodeVec (is_MeasShare in') @ EncodeVec (is_ProofsShare in')
      else is_Seed in')"

definition EncodeVerifierShare :: "prio3_count \<Rightarrow> elt list \<Rightarrow> bytes" where
  "EncodeVerifierShare c s = EncodeVec s"

definition DecodeVerifierShare :: "prio3_count \<Rightarrow> bytes \<Rightarrow> prio3_error + elt list" where
  "DecodeVerifierShare c b =
     (if length b \<noteq> VerifierLen Count * proofs * EncodedSize then Inl ErrShareSize
      else case DecodeVec b of Inl err \<Rightarrow> Inl (FieldError err) | Inr v \<Rightarrow> Inr v)"

definition EncodePublicShare :: "prio3_count \<Rightarrow> bytes" where
  "EncodePublicShare c = []"

definition EncodeOutShare :: "prio3_count \<Rightarrow> elt list \<Rightarrow> bytes" where
  "EncodeOutShare c out = EncodeVec out"

definition EncodeAggShare :: "prio3_count \<Rightarrow> elt list \<Rightarrow> bytes" where
  "EncodeAggShare c agg = EncodeVec agg"

definition DecodeInputShare :: "prio3_count \<Rightarrow> 8 word \<Rightarrow> bytes \<Rightarrow> prio3_error + input_share" where
  "DecodeInputShare c aggID b =
     (if aggID \<ge> c_shares c then Inl ErrAggID
      else if aggID = 0 then
        let measLen = v_MeasLen Count * EncodedSize;
            proofsLen = ProofLen Count * proofs * EncodedSize
        in if length b \<noteq> measLen + proofsLen then Inl ErrShareSize
           else case DecodeVec (take measLen b) of
                  Inl err \<Rightarrow> Inl (FieldError err)
                | Inr meas \<Rightarrow> (case DecodeVec (drop measLen b) of
                      Inl err \<Rightarrow> Inl (FieldError err)
                    | Inr proofsV \<Rightarrow> Inr \<lparr>is_AggID = 0, is_MeasShare = meas, is_ProofsShare = proofsV,
                        is_Seed = []\<rparr>)
      else if length b \<noteq> SeedSize then Inl ErrShareSize
      else Inr \<lparr>is_AggID = aggID, is_MeasShare = [], is_ProofsShare = [], is_Seed = b\<rparr>)"

end
