(* ===== verification/Prio3Correct.thy ===== *)
theory Prio3Correct
  imports Prio3
begin

text \<open>
  Prio3Count end to end: the shares of \<open>Shard\<close> add up to the measurement and to an honest
  proof, every aggregator's preparation succeeds on them, the combined verifier is accepted and
  the output shares add up to the measurement, for any number of shares and any batch of
  reports; and the encodings are inverted by the decoders.
\<close>

subsection \<open>The expansions\<close>

context field_xof
begin

lemma expansion_lengths:
  "helperMeasShare xp c i s = Some (Inr v) \<Longrightarrow> length v = 1 \<and> list_all canonical v"
  "helperProofsShare xp c i s = Some (Inr v) \<Longrightarrow> length v = 5 \<and> list_all canonical v"
  "proveRands xp c s = Some (Inr v) \<Longrightarrow> length v = 2 \<and> list_all canonical v"
  "queryRands xp c k n = Some (Inr v) \<Longrightarrow> length v = 1 \<and> list_all canonical v"
  by (auto simp: helperMeasShare_def helperProofsShare_def proveRands_def queryRands_def proofs_def
      Count_sizes dest: expand_result)

end

lemma VecSub_Inr:
  assumes "VecSub a b = Inr r" and "list_all canonical a" and "list_all canonical b"
  shows "length b = length a \<and> length r = length a \<and> list_all canonical r
    \<and> (\<forall>k<length a. gfe (r ! k) = gfe (a ! k) - gfe (b ! k))"
  using assms by (auto simp: VecSub_def list_all_length split: if_splits)

lemma subShares_sum:
  assumes "subShares f j seeds acc = Some (Inr r)" and "list_all canonical acc"
    and f: "\<forall>i s v. f i s = Some (Inr v) \<longrightarrow> list_all canonical v"
  shows "\<exists>hs. length hs = length seeds \<and> length r = length acc \<and> list_all canonical r
    \<and> (\<forall>i<length seeds. f (word_of_nat (j + i + 1)) (seeds ! i) = Some (Inr (hs ! i)) \<and> length (hs ! i) = length acc)
    \<and> (\<forall>k<length acc. gfe (acc ! k) = gfe (r ! k) + (\<Sum>i<length seeds. gfe (hs ! i ! k)))"
  using assms(1,2)
proof (induction seeds arbitrary: j acc)
  case Nil
  then show ?case by simp
next
  case (Cons seed seeds)
  obtain h where h: "f (word_of_nat (j + 1)) seed = Some (Inr h)"
    and h': "(case VecSub acc h of Inl err \<Rightarrow> Some (Inl (FieldError err))
      | Inr acc \<Rightarrow> subShares f (j + 1) seeds acc) = Some (Inr r)"
    using Cons.prems(1) unfolding subShares.simps andThen_Inr_iff by blast
  from h' obtain a where a: "VecSub acc h = Inr a"
    and r: "subShares f (j + 1) seeds a = Some (Inr r)"
    by (cases "VecSub acc h") simp_all
  note sub = VecSub_Inr [OF a Cons.prems(2) f [rule_format, OF h]]
  obtain hs where hs: "length hs = length seeds" "length r = length a" "list_all canonical r"
    "\<And>i. i < length seeds \<Longrightarrow> f (word_of_nat (j + 1 + i + 1)) (seeds ! i) = Some (Inr (hs ! i)) \<and> length (hs ! i) = length a"
    "\<And>k. k < length a \<Longrightarrow> gfe (a ! k) = gfe (r ! k) + (\<Sum>i<length seeds. gfe (hs ! i ! k))"
    using Cons.IH [OF r] sub by blast
  have "f (word_of_nat (j + i + 1)) ((seed # seeds) ! i) = Some (Inr ((h # hs) ! i))
      \<and> length ((h # hs) ! i) = length acc" if "i < length (seed # seeds)" for i
    using that h hs(4) [of "i - 1"] sub by (cases i) simp_all
  moreover have "gfe (acc ! k) = gfe (r ! k) + (\<Sum>i<length (seed # seeds). gfe ((h # hs) ! i ! k))"
    if "k < length acc" for k
  proof -
    have "gfe (acc ! k) = gfe (a ! k) + gfe (h ! k)" using sub that by simp
    then show ?thesis
      using hs(5) [of k] that sub
      by (simp add: sum.lessThan_Suc_shift diff_eq_eq add_ac del: sum.lessThan_Suc)
  qed
  ultimately show ?case using hs(1-3) sub by (intro exI [of _ "h # hs"]) auto
qed

subsection \<open>Sharding\<close>

lemma shares_bounds:
  "NewCount n ctx = Inr c \<Longrightarrow> c_shares c = n \<and> c_ctx c = ctx \<and> 2 \<le> unat n"
  by (auto simp: NewCount_def word_less_nat_alt split: if_splits)

lemma unat_8_bound: "unat (n :: 8 word) < 256"
  using unsigned_less [of n] by simp

lemma nonzero_index: "i < 255 \<Longrightarrow> word_of_nat (Suc i) \<noteq> (0 :: 8 word)"
proof
  assume i: "i < 255" and "word_of_nat (Suc i) = (0 :: 8 word)"
  then have "unat (word_of_nat (Suc i) :: 8 word) = 0" by (simp only: unat_0)
  with i show False by (simp add: unat_of_nat del: of_nat_Suc)
qed

context field_xof
begin

text \<open>What a successful call computes, and the shape of what it returns.\<close>

lemma Shard_parts:
  assumes c: "NewCount n ctx = Inr c" and sh: "Shard xp c m nonce rand = Some (Inr (ps, ins))"
  obtains hseeds lm pr pf lp where "m = 0 \<or> m = 1" and "length pr = 2" and "list_all canonical pr"
    and "Prove Count [word_of_int m] pr [] = Some pf" and "length pf = 5" and "list_all canonical pf"
    and "length hseeds = unat n - 1" and "\<forall>s\<in>set hseeds. length s = SeedSize" and "ps = []"
    and "subShares (helperMeasShare xp c) 0 hseeds [word_of_int m] = Some (Inr lm)"
    and "subShares (helperProofsShare xp c) 0 hseeds pf = Some (Inr lp)"
    and "ins = \<lparr>is_AggID = 0, is_MeasShare = lm, is_ProofsShare = lp, is_Seed = []\<rparr>
      # map (\<lambda>j. \<lparr>is_AggID = word_of_nat (j + 1), is_MeasShare = [], is_ProofsShare = [],
                  is_Seed = hseeds ! j\<rparr>) [0..<unat n - 1]"
proof -
  define N where "N = unat n"
  have n: "c_shares c = n" using shares_bounds [OF c] by simp
  define seeds where "seeds = map (\<lambda>i. take SeedSize (drop (i * SeedSize) rand)) [0..<N]"
  define hseeds where "hseeds = take (N - Suc 0) seeds"
  obtain meas lm pr pf lp where enc: "v_Encode Count m = Inr meas" and len: "length rand = SeedSize * N" and "ps = []"
    and lm: "subShares (helperMeasShare xp c) 0 hseeds meas = Some (Inr lm)"
    and pr: "proveRands xp c (seeds ! (N - 1)) = Some (Inr pr)"
    and pf: "Prove Count meas (take (ProveRandLen Count) pr) [] = Some pf"
    and lp: "subShares (helperProofsShare xp c) 0 hseeds pf = Some (Inr lp)"
    and ins: "ins = \<lparr>is_AggID = 0, is_MeasShare = lm, is_ProofsShare = lp, is_Seed = []\<rparr>
      # map (\<lambda>j. \<lparr>is_AggID = word_of_nat (j + 1), is_MeasShare = [], is_ProofsShare = [],
                  is_Seed = hseeds ! j\<rparr>) [0..<N - 1]"
    using sh
    by (auto simp: Shard_def n N_def [symmetric] seeds_def [symmetric] hseeds_def [symmetric] Let_def RandSize_def
        andThen_Inr_iff split: if_splits)
  have m: "m = 0 \<or> m = 1" "meas = [word_of_int m]" using enc by (simp_all add: Count_Encode_Inr)
  have prl: "length pr = 2" "list_all canonical pr" using expansion_lengths(3) [OF pr] by simp_all
  have pf': "Prove Count [word_of_int m] pr [] = Some pf" using pf m prl by (simp add: Count_sizes)
  obtain r0 r1 where r: "pr = [r0, r1]" using prl by (auto simp: length_Suc_conv numeral_2_eq_2)
  have rc: "list_all canonical [word_of_int m, r0, r1]" using m(1) prl(2) r by auto
  obtain m0 m1 m2 where "Prove Count [word_of_int m] [r0, r1] [] = Some [r0, r1, m0, m1, m2]"
    and "list_all canonical [m0, m1, m2]" by (rule Prove_Count [OF rc])
  then have pfc: "length pf = 5" "list_all canonical pf" using pf' rc r by auto
  have "length s = SeedSize" if "s \<in> set hseeds" for s
  proof -
    have s: "s \<in> set seeds" using that by (auto simp: hseeds_def dest: in_set_takeD)
    then obtain i where i: "i < N" "s = take SeedSize (drop (i * SeedSize) rand)" by (auto simp: seeds_def)
    from i(1) have "Suc i * SeedSize \<le> N * SeedSize" by (intro mult_le_mono1) simp
    then show ?thesis using len i(2) by (simp add: mult.commute)
  qed
  moreover have "length hseeds = unat n - 1" by (simp add: hseeds_def seeds_def N_def)
  ultimately show thesis
    using m lm lp prl pf' pfc ins \<open>ps = []\<close> that [of pr pf hseeds lm lp] unfolding N_def by blast
qed

text \<open>What sharding guarantees: share \<open>i\<close> carries the aggregator index \<open>i\<close> and expands to vectors
  whose sums are the encoded measurement and the proof made from it.\<close>

lemma Shard_shares:
  assumes c: "NewCount n ctx = Inr c" and sh: "Shard xp c m nonce rand = Some (Inr (ps, ins))"
  obtains pr pf ms ps' where "m = 0 \<or> m = 1" and "length ins = unat n"
    and "length pr = 2" and "list_all canonical pr"
    and "Prove Count [word_of_int m] pr [] = Some pf"
    and "\<And>i. i < unat n \<Longrightarrow> is_AggID (ins ! i) = word_of_nat i
      \<and> expandInputShare xp c (ins ! i) = Some (Inr (ms i, ps' i))
      \<and> length (ms i) = 1 \<and> length (ps' i) = length pf
      \<and> list_all canonical (ms i) \<and> list_all canonical (ps' i)"
    and "(\<Sum>i<unat n. gfe (ms i ! 0)) = of_int m"
    and "\<And>k. k < length pf \<Longrightarrow> (\<Sum>i<unat n. gfe (ps' i ! k)) = gfe (pf ! k)"
proof -
  define N where "N = unat n"
  have n: "2 \<le> N" "N < 256" using shares_bounds [OF c] unat_8_bound by (auto simp: N_def)
  obtain hseeds lm pr pf lp where m: "m = 0 \<or> m = 1" and prl: "length pr = 2" "list_all canonical pr"
    and pf': "Prove Count [word_of_int m] pr [] = Some pf" and pfc: "list_all canonical pf"
    and hl: "length hseeds = N - 1"
    and lm: "subShares (helperMeasShare xp c) 0 hseeds [word_of_int m] = Some (Inr lm)"
    and lp: "subShares (helperProofsShare xp c) 0 hseeds pf = Some (Inr lp)"
    and ins: "ins = \<lparr>is_AggID = 0, is_MeasShare = lm, is_ProofsShare = lp, is_Seed = []\<rparr>
      # map (\<lambda>j. \<lparr>is_AggID = word_of_nat (j + 1), is_MeasShare = [], is_ProofsShare = [],
                  is_Seed = hseeds ! j\<rparr>) [0..<N - 1]"
    by (rule Shard_parts [OF c sh, folded N_def])
  have mc: "list_all canonical [word_of_int m :: elt]" "gfe (word_of_int m) = of_int m" using m(1) by auto
  have hm: "\<forall>i s v. helperMeasShare xp c i s = Some (Inr v) \<longrightarrow> list_all canonical v"
    and hp: "\<forall>i s v. helperProofsShare xp c i s = Some (Inr v) \<longrightarrow> list_all canonical v"
    using expansion_lengths(1,2) by blast+
  from subShares_sum [OF lm mc(1) hm] hl obtain hms
    where hms: "length lm = 1" "list_all canonical lm"
    "\<And>i. i < N - 1 \<Longrightarrow> helperMeasShare xp c (word_of_nat (0 + i + 1)) (hseeds ! i) = Some (Inr (hms ! i))"
    "gfe (word_of_int m) = gfe (lm ! 0) + (\<Sum>i<N - 1. gfe (hms ! i ! 0))" by auto
  from subShares_sum [OF lp pfc hp, unfolded hl] obtain hps
    where hps: "length lp = length pf" "list_all canonical lp"
    "\<And>i. i < N - 1 \<Longrightarrow> helperProofsShare xp c (word_of_nat (0 + i + 1)) (hseeds ! i) = Some (Inr (hps ! i))
       \<and> length (hps ! i) = length pf"
    "\<And>k. k < length pf \<Longrightarrow> gfe (pf ! k) = gfe (lp ! k) + (\<Sum>i<N - 1. gfe (hps ! i ! k))" by blast
  define ms where "ms = (\<lambda>i. if i = 0 then lm else hms ! (i - 1))"
  define qs where "qs = (\<lambda>i. if i = 0 then lp else hps ! (i - 1))"
  have split: "(\<Sum>i<N. g i) = g 0 + (\<Sum>i<N - 1. g (Suc i))" for g :: "nat \<Rightarrow> gf"
    using n(1) sum.lessThan_Suc_shift [of g "N - 1"] by simp
  have each: "is_AggID (ins ! i) = word_of_nat i \<and> expandInputShare xp c (ins ! i) = Some (Inr (ms i, qs i))
      \<and> length (ms i) = 1 \<and> length (qs i) = length pf \<and> list_all canonical (ms i) \<and> list_all canonical (qs i)"
    if "i < N" for i
  proof (cases i)
    case 0
    then show ?thesis using hms hps by (simp add: ins expandInputShare_def ms_def qs_def)
  next
    case (Suc j)
    then have j: "j < N - 1" using that by simp
    with Suc hms(3) [OF j] hps(3) [OF j] expansion_lengths(1) [OF hms(3) [OF j]]
      expansion_lengths(2) [OF hps(3) [OF j, THEN conjunct1]] nonzero_index [of j] n(2) show ?thesis
      by (simp add: ins expandInputShare_def ms_def qs_def)
  qed
  show thesis
  proof (rule that [of pr pf ms qs])
    show "length ins = unat n" using n by (simp add: ins N_def)
    show "(\<Sum>i<unat n. gfe (ms i ! 0)) = of_int m"
      using hms(4) mc(2) split [of "\<lambda>i. gfe (ms i ! 0)"] by (simp add: N_def [symmetric] ms_def)
    show "(\<Sum>i<unat n. gfe (qs i ! k)) = gfe (pf ! k)" if "k < length pf" for k
      using hps(4) [OF that] split [of "\<lambda>i. gfe (qs i ! k)"] by (simp add: N_def [symmetric] qs_def)
  qed (use m(1) prl pf' each in \<open>simp_all add: N_def\<close>)
qed

end

subsection \<open>Verification\<close>

lemma sumVectors_sum:
  assumes "\<forall>v\<in>set vs. length v = length acc" and "list_all canonical acc"
  obtains r where "sumVectors acc vs = Inr r" and "length r = length acc" and "list_all canonical r"
    and "\<And>k. k < length acc \<Longrightarrow> gfe (r ! k) = gfe (acc ! k) + (\<Sum>i<length vs. gfe (vs ! i ! k))"
proof -
  have "\<exists>r. sumVectors acc vs = Inr r \<and> length r = length acc \<and> list_all canonical r
      \<and> (\<forall>k<length acc. gfe (r ! k) = gfe (acc ! k) + (\<Sum>i<length vs. gfe (vs ! i ! k)))"
    using assms
  proof (induction vs arbitrary: acc)
    case (Cons v vs)
    have len: "length v = length acc" using Cons.prems(1) by simp
    let ?a = "map2 Field_Add acc v"
    have a: "VecAdd acc v = Inr ?a" "length ?a = length acc" "list_all canonical ?a"
      using len by (simp_all add: VecAdd_def list_all_length)
    have "\<forall>u\<in>set vs. length u = length ?a" using Cons.prems(1) len by simp
    from Cons.IH [OF this a(3)] obtain r where r: "sumVectors ?a vs = Inr r" "length r = length acc"
      "list_all canonical r" "\<And>k. k < length acc \<Longrightarrow> gfe (r ! k) = gfe (?a ! k) + (\<Sum>i<length vs. gfe (vs ! i ! k))"
      using a(2) by auto
    have "gfe (r ! k) = gfe (acc ! k) + (\<Sum>i<length (v # vs). gfe ((v # vs) ! i ! k))"
      if "k < length acc" for k
      using r(4) [OF that] that len
      by (simp add: sum.lessThan_Suc_shift add.assoc del: sum.lessThan_Suc)
    with a(1) r show ?case by (auto simp del: map2_map_map)
  qed simp
  then show thesis using that by blast
qed

text \<open>The verifier of the summed shares is the sum of the verifiers.\<close>

lemma count_verifier_sum:
  assumes "k < 4"
  shows "(\<Sum>i\<in>A. count_verifier (x i) (s0 i) (s1 i) (g0 i) (g1 i) (g2 i) t ! k)
    = count_verifier (\<Sum>i\<in>A. x i) (\<Sum>i\<in>A. s0 i) (\<Sum>i\<in>A. s1 i) (\<Sum>i\<in>A. g0 i) (\<Sum>i\<in>A. g1 i) (\<Sum>i\<in>A. g2 i) t ! k"
proof -
  have wire: "(\<Sum>i\<in>A. wire (s i) (x i) t) = wire (\<Sum>i\<in>A. s i) (\<Sum>i\<in>A. x i) t" for s
    by (simp only: wire_def sum.distrib sum_distrib_right)
  have quad: "(\<Sum>i\<in>A. quad (g0 i) (g1 i) (g2 i) t) = quad (\<Sum>i\<in>A. g0 i) (\<Sum>i\<in>A. g1 i) (\<Sum>i\<in>A. g2 i) t"
    by (simp only: quad_def sum.distrib sum_distrib_right)
  consider "k = 0" | "k = 1" | "k = 2" | "k = 3" using assms by linarith
  then show ?thesis
    by cases (simp_all add: count_verifier_def sum_subtractf wire quad)
qed

context field_xof
begin

lemma VerifyInit_share:
  assumes c: "unat i < unat (c_shares c)" "is_AggID in' = i"
    and ex: "expandInputShare xp c in' = Some (Inr (ms, pf))" "length ms = 1" "length pf = 5"
      "list_all canonical ms" "list_all canonical pf"
    and q: "queryRands xp c vk nonce = Some (Inr [t])" "gfe t ^ 2 \<noteq> 1"
  obtains vs where "VerifyInit xp c vk i nonce ps in' = Some (Inr (ms, vs))" and "length vs = 4"
    and "list_all canonical vs"
    and "map gfe vs = count_verifier (gfe (ms ! 0)) (gfe (pf ! 0)) (gfe (pf ! 1)) (gfe (pf ! 2))
      (gfe (pf ! 3)) (gfe (pf ! 4)) (gfe t)"
proof -
  have ms: "ms = [ms ! 0]" using ex(2) by (auto simp: length_Suc_conv)
  note pf = list_5 [OF ex(3)]
  have pfc: "canonical (pf ! 0)" "canonical (pf ! 1)" "canonical (pf ! 2)" "canonical (pf ! 3)" "canonical (pf ! 4)"
    using ex(3,5) by (simp_all add: list_all_length)
  have tc: "canonical t" using expansion_lengths(4) [OF q(1)] by simp
  have msc: "canonical (ms ! 0)" using ex(2,4) by (simp add: list_all_length)
  have can: "list_all canonical [ms ! 0, pf ! 0, pf ! 1, pf ! 2, pf ! 3, pf ! 4]"
    using msc pfc by simp
  obtain vs where vs: "Query Count [ms ! 0] [pf ! 0, pf ! 1, pf ! 2, pf ! 3, pf ! 4] [t] []
      (unat (c_shares c)) = Some (Inr vs)" "list_all canonical vs"
    "map gfe vs = count_verifier (gfe (ms ! 0)) (gfe (pf ! 0)) (gfe (pf ! 1)) (gfe (pf ! 2))
      (gfe (pf ! 3)) (gfe (pf ! 4)) (gfe t)"
    by (rule Query_Count [OF can tc q(2)])
  have "Query Count ms pf [t] [] (unat (c_shares c)) = Some (Inr vs)"
    using vs(1) by (simp only: ms [symmetric] pf [symmetric])
  then have "VerifyInit xp c vk i nonce ps in' = Some (Inr (ms, vs))"
    using c ex q by (simp add: VerifyInit_def Count_sizes wrapErr_def Count_def [THEN arg_cong, of v_Truncate] Count_Truncate_def)
  moreover have "length vs = 4" using arg_cong [OF vs(3), of length] by (simp add: count_verifier_def)
  ultimately show thesis using vs that by blast
qed

text \<open>Verifier shares add up to the verifier of the summed shares.\<close>

lemma verifier_shares_sum:
  assumes vss: "\<And>i. i < N \<Longrightarrow> length (vss i) = 4 \<and> list_all canonical (vss i)
      \<and> map gfe (vss i) = count_verifier (gfe (ms i ! 0)) (gfe (qs i ! 0)) (gfe (qs i ! 1))
        (gfe (qs i ! 2)) (gfe (qs i ! 3)) (gfe (qs i ! 4)) t"
  obtains r where "sumVectors (replicate 4 0) (map vss [0..<N]) = Inr r" and "length r = 4" and "list_all canonical r"
    and "map gfe r = count_verifier (\<Sum>i<N. gfe (ms i ! 0)) (\<Sum>i<N. gfe (qs i ! 0)) (\<Sum>i<N. gfe (qs i ! 1))
      (\<Sum>i<N. gfe (qs i ! 2)) (\<Sum>i<N. gfe (qs i ! 3)) (\<Sum>i<N. gfe (qs i ! 4)) t"
proof -
  have len: "\<forall>v\<in>set (map vss [0..<N]). length v = length (replicate 4 (0 :: elt))"
    using vss by auto
  have can0: "list_all canonical (replicate 4 0)" by (simp add: list_all_length)
  obtain r where rs: "sumVectors (replicate 4 0) (map vss [0..<N]) = Inr r" "length r = 4" "list_all canonical r"
    and sum: "\<And>k. k < 4 \<Longrightarrow> gfe (r ! k) = (\<Sum>i<N. gfe (vss i ! k))"
  proof (rule sumVectors_sum [OF len can0])
    fix r assume r: "sumVectors (replicate 4 0) (map vss [0..<N]) = Inr r"
      "length r = length (replicate 4 (0 :: elt))" "list_all canonical r"
      "\<And>k. k < length (replicate 4 (0 :: elt)) \<Longrightarrow> gfe (r ! k) = gfe (replicate 4 0 ! k)
        + (\<Sum>i<length (map vss [0..<N]). gfe (map vss [0..<N] ! i ! k))"
    show thesis by (rule that [OF r(1)]) (use r(2-4) in simp_all)
  qed
  have each: "gfe (vss i ! k) = count_verifier (gfe (ms i ! 0)) (gfe (qs i ! 0)) (gfe (qs i ! 1))
      (gfe (qs i ! 2)) (gfe (qs i ! 3)) (gfe (qs i ! 4)) t ! k" if "i < N" "k < 4" for i k
    using vss [OF that(1)] that(2) by (metis nth_map)
  have "map gfe r = count_verifier (\<Sum>i<N. gfe (ms i ! 0)) (\<Sum>i<N. gfe (qs i ! 0)) (\<Sum>i<N. gfe (qs i ! 1))
      (\<Sum>i<N. gfe (qs i ! 2)) (\<Sum>i<N. gfe (qs i ! 3)) (\<Sum>i<N. gfe (qs i ! 4)) t" (is "_ = ?v")
  proof (rule nth_equalityI)
    show "length (map gfe r) = length ?v" using rs(2) by (simp add: count_verifier_def)
    fix k assume "k < length (map gfe r)"
    then have k: "k < 4" using rs(2) by simp
    then show "map gfe r ! k = ?v ! k"
      using sum [OF k] each [OF _ k] rs(2) by (simp add: count_verifier_sum)
  qed
  with rs show thesis by (rule that)
qed

text \<open>Verifier shares whose parts add up to those of an honest proof are accepted.\<close>

lemma honest_shares_accepted:
  assumes m: "m = 0 \<or> m = 1" and rc: "list_all canonical [word_of_int m, r0, r1]"
    and honest: "Prove Count [word_of_int m] [r0, r1] [] = Some [r0, r1, m0, m1, m2]"
    and vss: "\<And>i. i < N \<Longrightarrow> length (vss i) = 4 \<and> list_all canonical (vss i)
      \<and> map gfe (vss i) = count_verifier (gfe (ms i ! 0)) (gfe (qs i ! 0)) (gfe (qs i ! 1))
        (gfe (qs i ! 2)) (gfe (qs i ! 3)) (gfe (qs i ! 4)) (gfe t)"
    and sums: "(\<Sum>i<N. gfe (ms i ! 0)) = of_int m"
      "\<And>k. k < 5 \<Longrightarrow> (\<Sum>i<N. gfe (qs i ! k)) = gfe ([r0, r1, m0, m1, m2] ! k)"
  shows "VerifierSharesToMessage c (map vss [0..<N]) = Some (Inr [])"
proof (rule verifier_shares_sum [of N vss ms qs "gfe t"])
  fix r assume r: "sumVectors (replicate 4 0) (map vss [0..<N]) = Inr r" "length r = 4" "list_all canonical r"
    "map gfe r = count_verifier (\<Sum>i<N. gfe (ms i ! 0)) (\<Sum>i<N. gfe (qs i ! 0)) (\<Sum>i<N. gfe (qs i ! 1))
      (\<Sum>i<N. gfe (qs i ! 2)) (\<Sum>i<N. gfe (qs i ! 3)) (\<Sum>i<N. gfe (qs i ! 4)) (gfe t)"
  have "map gfe r = count_verifier (of_int m) (gfe r0) (gfe r1) (gfe m0) (gfe m1) (gfe m2) (gfe t)"
    unfolding r(4) sums(1) using sums(2) [of 0] sums(2) [of 1] sums(2) [of 2] sums(2) [of 3] sums(2) [of 4] by simp
  then have "Decide Count r = Some True"
    using honest_verifier_accepted [OF _ rc honest r(3)] m by auto
  with r(1,2) show ?thesis by (simp add: VerifierSharesToMessage_def Count_sizes proofs_def)
qed (use vss in blast)

text \<open>Every aggregator's preparation of an honestly sharded report succeeds, the proof is
  accepted, and the output shares add up to the measurement.\<close>

lemma Prio3_complete:
  assumes c: "NewCount n ctx = Inr c" and sh: "Shard xp c m nonce rand = Some (Inr (ps, ins))"
    and q: "queryRands xp c vk nonce = Some (Inr [t])" "gfe t ^ 2 \<noteq> 1"
  obtains outs vss where
    "\<And>i. i < unat n \<Longrightarrow> VerifyInit xp c vk (word_of_nat i) nonce ps (ins ! i) = Some (Inr (outs i, vss i))"
    and "VerifierSharesToMessage c (map vss [0..<unat n]) = Some (Inr [])"
    and "\<And>i. i < unat n \<Longrightarrow> length (outs i) = 1 \<and> list_all canonical (outs i)"
    and "(\<Sum>i<unat n. gfe (outs i ! 0)) = of_int m"
    and "\<And>i. i < unat n \<Longrightarrow> length (vss i) = 4 \<and> list_all canonical (vss i)"
proof -
  obtain pr pf ms qs where m: "m = 0 \<or> m = 1" and "length ins = unat n" and pr: "length pr = 2" "list_all canonical pr"
    and pf: "Prove Count [word_of_int m] pr [] = Some pf"
    and each: "\<And>i. i < unat n \<Longrightarrow> is_AggID (ins ! i) = word_of_nat i
      \<and> expandInputShare xp c (ins ! i) = Some (Inr (ms i, qs i)) \<and> length (ms i) = 1 \<and> length (qs i) = length pf
      \<and> list_all canonical (ms i) \<and> list_all canonical (qs i)"
    and sums: "(\<Sum>i<unat n. gfe (ms i ! 0)) = of_int m"
      "\<And>k. k < length pf \<Longrightarrow> (\<Sum>i<unat n. gfe (qs i ! k)) = gfe (pf ! k)"
  proof -
    show thesis by (rule Shard_shares [OF c sh]) (rule that)
  qed
  obtain r0 r1 where r: "pr = [r0, r1]" using pr by (auto simp: length_Suc_conv numeral_2_eq_2)
  have mc: "canonical (word_of_int m)" "gfe (word_of_int m) = of_int m" "of_int m * of_int m = (of_int m :: gf)"
    using m by auto
  have rc: "list_all canonical [word_of_int m, r0, r1]" using mc pr r by simp
  obtain m0 m1 m2 where honest: "Prove Count [word_of_int m] [r0, r1] [] = Some [r0, r1, m0, m1, m2]"
    by (rule Prove_Count [OF rc])
  then have pf5: "pf = [r0, r1, m0, m1, m2]" using pf r by simp
  have "\<exists>vs. VerifyInit xp c vk (word_of_nat i) nonce ps (ins ! i) = Some (Inr (ms i, vs)) \<and> length vs = 4
      \<and> list_all canonical vs \<and> map gfe vs = count_verifier (gfe (ms i ! 0)) (gfe (qs i ! 0)) (gfe (qs i ! 1))
        (gfe (qs i ! 2)) (gfe (qs i ! 3)) (gfe (qs i ! 4)) (gfe t)" if i: "i < unat n" for i
  proof -
    have "unat (word_of_nat i :: 8 word) = i" using i unat_8_bound [of n] by (simp add: unat_of_nat)
    then have "unat (word_of_nat i :: 8 word) < unat (c_shares c)" using i shares_bounds [OF c] by simp
    note e = each [OF i]
    have "length (qs i) = 5" using e pf5 by simp
    with e obtain vs where "VerifyInit xp c vk (word_of_nat i) nonce ps (ins ! i) = Some (Inr (ms i, vs))"
      "length vs = 4" "list_all canonical vs"
      "map gfe vs = count_verifier (gfe (ms i ! 0)) (gfe (qs i ! 0)) (gfe (qs i ! 1))
        (gfe (qs i ! 2)) (gfe (qs i ! 3)) (gfe (qs i ! 4)) (gfe t)"
      using VerifyInit_share [OF \<open>unat (word_of_nat i) < _\<close>, of "ins ! i" "ms i" "qs i" vk nonce t ps] q by blast
    then show ?thesis by blast
  qed
  then obtain vss where vss: "\<And>i. i < unat n \<Longrightarrow> VerifyInit xp c vk (word_of_nat i) nonce ps (ins ! i)
      = Some (Inr (ms i, vss i)) \<and> length (vss i) = 4 \<and> list_all canonical (vss i)
      \<and> map gfe (vss i) = count_verifier (gfe (ms i ! 0)) (gfe (qs i ! 0)) (gfe (qs i ! 1))
        (gfe (qs i ! 2)) (gfe (qs i ! 3)) (gfe (qs i ! 4)) (gfe t)" by metis
  have "VerifierSharesToMessage c (map vss [0..<unat n]) = Some (Inr [])"
    by (rule honest_shares_accepted [OF m rc honest _ sums(1), of vss qs]) (use vss sums(2) in \<open>auto simp: pf5\<close>)
  with vss each sums(1) show thesis by (intro that [of ms vss]) auto
qed

text \<open>Sharding a measurement of 0 or 1 returns whenever the expansions do.\<close>

lemma subShares_returns:
  assumes f: "\<forall>i s. \<exists>v. f i s = Some (Inr v) \<and> length v = length acc"
  shows "\<exists>r. subShares f j seeds acc = Some (Inr r)"
  using assms
proof (induction seeds arbitrary: j acc)
  case (Cons seed seeds)
  obtain v where v: "f (word_of_nat (j + 1)) seed = Some (Inr v)" "length v = length acc"
    using Cons.prems by blast
  let ?a = "map2 Field_Sub acc v"
  have "VecSub acc v = Inr ?a" "length ?a = length acc" using v(2) by (simp_all add: VecSub_def)
  with v Cons.IH [of ?a "j + 1"] Cons.prems show ?case by simp
qed simp

lemma Shard_returns:
  assumes c: "NewCount n ctx = Inr c" and total: "\<forall>seed dst bnd len. \<exists>v. xp seed dst bnd len = Some (Inr v)"
    and "m = 0 \<or> m = 1" and "length nonce = NonceSize" and "length rand = RandSize c"
  shows "\<exists>ins. Shard xp c m nonce rand = Some (Inr ([], ins))"
proof -
  define N where "N = unat n"
  define seeds where "seeds = map (\<lambda>i. take SeedSize (drop (i * SeedSize) rand)) [0..<N]"
  have n: "c_shares c = n" using shares_bounds [OF c] by simp
  have hm: "\<forall>i s. \<exists>v. helperMeasShare xp c i s = Some (Inr v) \<and> length v = length [word_of_int m :: elt]"
    using total expansion_lengths(1) [of c] by (fastforce simp: helperMeasShare_def)
  have mc: "canonical (word_of_int m)" using assms(3) by auto
  obtain lm where lm: "subShares (helperMeasShare xp c) 0 (take (N - 1) seeds) [word_of_int m] = Some (Inr lm)"
    using subShares_returns [OF hm] by blast
  obtain pr where pr: "proveRands xp c (seeds ! (N - 1)) = Some (Inr pr)"
    using total by (fastforce simp: proveRands_def)
  then obtain r0 r1 where r: "pr = [r0, r1]" "list_all canonical [r0, r1]"
    using expansion_lengths(3) [OF pr] by (auto simp: length_Suc_conv numeral_2_eq_2)
  then have rc: "list_all canonical [word_of_int m, r0, r1]" using mc by simp
  obtain m0 m1 m2 where pf: "Prove Count [word_of_int m] [r0, r1] [] = Some [r0, r1, m0, m1, m2]"
    by (rule Prove_Count [OF rc])
  have hp: "\<forall>i s. \<exists>v. helperProofsShare xp c i s = Some (Inr v) \<and> length v = length [r0, r1, m0, m1, m2]"
    using total expansion_lengths(2) [of c] by (fastforce simp: helperProofsShare_def)
  obtain lp where lp: "subShares (helperProofsShare xp c) 0 (take (N - 1) seeds) [r0, r1, m0, m1, m2] = Some (Inr lp)"
    using subShares_returns [OF hp] by blast
  have enc: "v_Encode Count m = Inr [word_of_int m]" using assms(3) by (simp add: Count_Encode_Inr)
  show ?thesis
    using assms(4,5) lm pr pf lp r enc
    by (simp add: Shard_def n Let_def wrapErr_def Count_sizes N_def [symmetric] seeds_def [symmetric])
qed

end

subsection \<open>Aggregating a batch\<close>

text \<open>An aggregator adds its output shares one by one.\<close>

primrec aggregateAll :: "prio3_count \<Rightarrow> elt list \<Rightarrow> elt list list \<Rightarrow> field_error + elt list" where
  "aggregateAll c agg [] = Inr agg"
| "aggregateAll c agg (out # outs) =
     (case AggregateUpdate c agg out of Inl err \<Rightarrow> Inl err | Inr agg \<Rightarrow> aggregateAll c agg outs)"

lemma aggregateAll_sumVectors: "aggregateAll c agg outs = sumVectors agg outs"
  by (induction outs arbitrary: agg) (simp_all add: AggregateUpdate_def split: sum.split)

lemma sumVectors_1:
  assumes "\<forall>v\<in>set vs. length v = 1"
  obtains r where "sumVectors [0] vs = Inr [r]" and "canonical r"
    and "gfe r = (\<Sum>i<length vs. gfe (vs ! i ! 0))"
proof -
  have "\<forall>v\<in>set vs. length v = length [0 :: elt]" "list_all canonical [0]" using assms by simp_all
  then obtain r where r: "sumVectors [0] vs = Inr r" "length r = length [0 :: elt]" "list_all canonical r"
    "\<And>k. k < length [0 :: elt] \<Longrightarrow> gfe (r ! k) = gfe ([0] ! k) + (\<Sum>i<length vs. gfe (vs ! i ! k))"
  proof -
    assume "\<forall>v\<in>set vs. length v = length [0 :: elt]" "list_all canonical [0 :: elt]"
    then show thesis by (rule sumVectors_sum) (rule that)
  qed
  then obtain x where "r = [x]" by (auto simp: length_Suc_conv)
  with r show thesis by (intro that [of x]) auto
qed

lemma sint_of_residue:
  assumes "canonical r" and "gfe r = of_int z" and "0 \<le> z" and "z < 9223372036854775808"
  shows "sint r = z"
proof -
  have u: "uint r < P" "0 \<le> uint r" using assms(1) uint_bounds by (simp_all add: canonical_iff)
  have "uint r mod P = z mod P"
    using assms(2) by (simp only: gfe_def of_int_gf gf_of_eq_iff)
  with u assms(3,4) have "uint r = z" by simp
  then have "sint r = signed_take_bit 63 z" by (simp add: sint_uint)
  then show ?thesis using assms(3,4) by (simp add: signed_take_bit_int_eq_self)
qed

lemma Unshard_count:
  assumes "\<forall>v\<in>set aggs. length v = 1" and "(\<Sum>i<length aggs. gfe (aggs ! i ! 0)) = of_int z"
    and "0 \<le> z" and "z < 9223372036854775808"
  shows "Unshard c aggs k = Some (Inr z)"
proof -
  obtain r where r: "sumVectors [0] aggs = Inr [r]" "canonical r" "gfe r = (\<Sum>i<length aggs. gfe (aggs ! i ! 0))"
    by (rule sumVectors_1 [OF assms(1)])
  then have "sint r = z" using assms by (intro sint_of_residue) simp_all
  with r show ?thesis
    by (simp add: Unshard_def Count_sizes) (simp add: Count_def Count_Decode_def)
qed

lemma bit_sum_bounds:
  assumes "\<forall>r<R. m r = 0 \<or> m r = (1 :: int)"
  shows "0 \<le> (\<Sum>r<R. m r) \<and> (\<Sum>r<R. m r) \<le> int R"
proof -
  have "0 \<le> m r \<and> m r \<le> 1" if "r < R" for r using assms [rule_format, OF that] by auto
  then show ?thesis using sum_bounded_above [of "{..<R}" m 1] by (auto intro: sum_nonneg)
qed

text \<open>A batch of honest reports: aggregator \<open>i\<close> adds its output shares of all reports, and the
  aggregate shares unshard to the sum of the measurements.\<close>

lemma aggregate_batch:
  assumes R: "int R < 9223372036854775808"
    and out: "\<forall>r<R. \<forall>i<N. length (outs r i) = 1"
    and sums: "\<forall>r<R. (\<Sum>i<N. gfe (outs r i ! 0)) = of_int (m r)" and m: "\<forall>r<R. m r = 0 \<or> m r = 1"
  obtains aggs where
    "\<And>i. i < N \<Longrightarrow> aggregateAll c (AggregateInit c) (map (\<lambda>r. outs r i) [0..<R]) = Inr (aggs i)"
    and "Unshard c (map aggs [0..<N]) R = Some (Inr (\<Sum>r<R. m r))"
proof -
  have "\<exists>a. sumVectors [0] (map (\<lambda>r. outs r i) [0..<R]) = Inr [a]
      \<and> gfe a = (\<Sum>r<R. gfe (outs r i ! 0))" if "i < N" for i
  proof -
    have "\<forall>v\<in>set (map (\<lambda>r. outs r i) [0..<R]). length v = 1" using out that by simp
    then obtain a where "sumVectors [0] (map (\<lambda>r. outs r i) [0..<R]) = Inr [a]"
      "gfe a = (\<Sum>r<length (map (\<lambda>r. outs r i) [0..<R]). gfe (map (\<lambda>r. outs r i) [0..<R] ! r ! 0))"
      by (rule sumVectors_1)
    then show ?thesis by auto
  qed
  then obtain a where a: "\<And>i. i < N \<Longrightarrow> sumVectors [0] (map (\<lambda>r. outs r i) [0..<R]) = Inr [a i]
      \<and> gfe (a i) = (\<Sum>r<R. gfe (outs r i ! 0))" by metis
  have bounds: "0 \<le> (\<Sum>r<R. m r)" "(\<Sum>r<R. m r) \<le> int R" using bit_sum_bounds [OF m] by blast+
  have "(\<Sum>i<N. gfe (a i)) = (\<Sum>i<N. \<Sum>r<R. gfe (outs r i ! 0))" using a by simp
  also have "\<dots> = (\<Sum>r<R. of_int (m r))" using sums by (subst sum.swap) simp
  finally have "(\<Sum>i<N. gfe (a i)) = of_int (\<Sum>r<R. m r)" by simp
  then have "Unshard c (map (\<lambda>i. [a i]) [0..<N]) R = Some (Inr (\<Sum>r<R. m r))"
    using bounds R by (intro Unshard_count) simp_all
  with a show thesis
    by (intro that [of "\<lambda>i. [a i]"]) (simp_all add: aggregateAll_sumVectors AggregateInit_def Count_sizes)
qed

subsection \<open>Encodings\<close>

lemma DecodeInputShare_leader:
  assumes "0 < c_shares c" and "length ms = 1" and "length pf = 5"
    and "list_all canonical ms" and "list_all canonical pf"
  shows "DecodeInputShare c 0 (EncodeInputShare c
      \<lparr>is_AggID = 0, is_MeasShare = ms, is_ProofsShare = pf, is_Seed = []\<rparr>)
    = Inr \<lparr>is_AggID = 0, is_MeasShare = ms, is_ProofsShare = pf, is_Seed = []\<rparr>"
  using assms DecodeVec_EncodeVec
  by (simp add: DecodeInputShare_def EncodeInputShare_def Count_sizes proofs_def EncodedSize_def
      list_all_iff Let_def not_le)

lemma DecodeInputShare_helper:
  assumes "i \<noteq> 0" and "i < c_shares c" and "length seed = SeedSize"
  shows "DecodeInputShare c i (EncodeInputShare c
      \<lparr>is_AggID = i, is_MeasShare = [], is_ProofsShare = [], is_Seed = seed\<rparr>)
    = Inr \<lparr>is_AggID = i, is_MeasShare = [], is_ProofsShare = [], is_Seed = seed\<rparr>"
  using assms by (simp add: DecodeInputShare_def EncodeInputShare_def not_le)

lemma DecodeVerifierShare_EncodeVerifierShare:
  assumes "length v = 4" and "list_all canonical v"
  shows "DecodeVerifierShare c (EncodeVerifierShare c v) = Inr v"
  using assms DecodeVec_EncodeVec [of v]
  by (simp add: DecodeVerifierShare_def EncodeVerifierShare_def Count_sizes proofs_def EncodedSize_def
      list_all_iff)

lemma DecodeVerifierShare_Inr:
  assumes "DecodeVerifierShare c b = Inr v"
  shows "length v = 4 \<and> list_all canonical v \<and> EncodeVerifierShare c v = b"
  using assms DecodeVec_Inr [of b v]
  by (auto simp: DecodeVerifierShare_def EncodeVerifierShare_def Count_sizes proofs_def
      EncodedSize_def list_all_iff split: if_splits sum.splits)

context field_xof
begin

lemma Shard_codec:
  assumes c: "NewCount n ctx = Inr c" and sh: "Shard xp c m nonce rand = Some (Inr (ps, ins))"
    and i: "i < unat n"
  shows "DecodeInputShare c (word_of_nat i) (EncodeInputShare c (ins ! i)) = Inr (ins ! i)"
proof -
  obtain hseeds lm pr pf lp where m: "m = 0 \<or> m = 1" and pf: "length pf = 5" "list_all canonical pf"
    and hs: "length hseeds = unat n - 1" "\<forall>s\<in>set hseeds. length s = SeedSize"
    and lm: "subShares (helperMeasShare xp c) 0 hseeds [word_of_int m] = Some (Inr lm)"
    and lp: "subShares (helperProofsShare xp c) 0 hseeds pf = Some (Inr lp)"
    and ins: "ins = \<lparr>is_AggID = 0, is_MeasShare = lm, is_ProofsShare = lp, is_Seed = []\<rparr>
      # map (\<lambda>j. \<lparr>is_AggID = word_of_nat (j + 1), is_MeasShare = [], is_ProofsShare = [],
                  is_Seed = hseeds ! j\<rparr>) [0..<unat n - 1]"
    by (rule Shard_parts [OF c sh])
  note n = shares_bounds [OF c] unat_8_bound [of n]
  show ?thesis
  proof (cases i)
    case 0
    have "list_all canonical [word_of_int m :: elt]" using m by auto
    then have "length lm = 1" "list_all canonical lm" "length lp = 5" "list_all canonical lp"
      using subShares_sum [OF lm] subShares_sum [OF lp pf(2)] expansion_lengths(1,2) pf by auto
    moreover have "0 < c_shares c" using n by (auto simp: word_less_nat_alt)
    ultimately show ?thesis using 0 by (simp add: ins DecodeInputShare_leader)
  next
    case (Suc j)
    then have j: "j < unat n - 1" and "j < 255" using i n by auto
    have nz: "word_of_nat (Suc j) \<noteq> (0 :: 8 word)" using \<open>j < 255\<close> by (rule nonzero_index)
    have "(word_of_nat (Suc j) :: 8 word) < c_shares c"
      using n i Suc by (simp add: word_less_nat_alt unat_of_nat del: of_nat_Suc)
    moreover have "length (hseeds ! j) = SeedSize" using hs j by simp
    ultimately show ?thesis using Suc j nz
      by (simp add: ins DecodeInputShare_helper del: of_nat_Suc)
  qed
qed
end

subsection \<open>Properties\<close>

text \<open>
  C5. End-to-end correctness of Prio3Count: for any number of aggregators, when every report of
  a batch was sharded, the query randomness of each is not a root of unity and the expander
  keeps the contract of the XOF, every aggregator's verification succeeds, the combined
  verifier message of every report is accepted, every state finishes with its output share, and
  the aggregate shares unshard to the exact sum of the measurements.
\<close>

theorem prio3_end_to_end:
  assumes xof: "field_xof xp" and c: "NewCount n ctx = Inr c" and R: "R < 2 ^ 63"
    and shard: "\<forall>r<R. Shard xp c (m r) (nonce r) (rand r) = Some (Inr (ps r, ins r))"
    and query: "\<forall>r<R. \<exists>t. queryRands xp c vk (nonce r) = Some (Inr [t]) \<and> Field_Mul t t \<noteq> 1"
  shows "\<exists>outs aggs.
      (\<forall>r<R. \<exists>vss. (\<forall>i<unat n. VerifyInit xp c vk (word_of_nat i) (nonce r) (ps r) (ins r ! i)
            = Some (Inr (outs r i, vss i)))
        \<and> VerifierSharesToMessage c (map vss [0..<unat n]) = Some (Inr [])
        \<and> (\<forall>i<unat n. VerifyNext c (outs r i) [] = Some (Inr (outs r i))))
    \<and> (\<forall>i<unat n. aggregateAll c (AggregateInit c) (map (\<lambda>r. outs r i) [0..<R]) = Inr (aggs i))
    \<and> Unshard c (map aggs [0..<unat n]) R = Some (Inr (\<Sum>r<R. m r))"
proof -
  have "\<exists>outs vss. (\<forall>i<unat n. VerifyInit xp c vk (word_of_nat i) (nonce r) (ps r) (ins r ! i)
            = Some (Inr (outs i, vss i)))
      \<and> VerifierSharesToMessage c (map vss [0..<unat n]) = Some (Inr [])
      \<and> (\<forall>i<unat n. length (outs i) = 1) \<and> (\<Sum>i<unat n. gfe (outs i ! 0)) = of_int (m r)" if r: "r < R" for r
  proof -
    obtain t where t: "queryRands xp c vk (nonce r) = Some (Inr [t])" "Field_Mul t t \<noteq> 1" using query r by blast
    have t2: "gfe t ^ 2 \<noteq> 1"
      using t field_xof.expansion_lengths(4) [OF xof t(1)] by (intro test_point) simp_all
    show ?thesis
      by (rule field_xof.Prio3_complete [OF xof c shard [rule_format, OF r] t(1) t2]) blast
  qed
  then obtain outs where each: "\<And>r. r < R \<Longrightarrow> \<exists>vss. (\<forall>i<unat n. VerifyInit xp c vk (word_of_nat i) (nonce r) (ps r) (ins r ! i)
            = Some (Inr (outs r i, vss i)))
      \<and> VerifierSharesToMessage c (map vss [0..<unat n]) = Some (Inr [])
      \<and> (\<forall>i<unat n. length (outs r i) = 1) \<and> (\<Sum>i<unat n. gfe (outs r i ! 0)) = of_int (m r)" by metis
  have m: "m r = 0 \<or> m r = 1" if "r < R" for r
    by (rule field_xof.Shard_shares [OF xof c shard [rule_format, OF that]])
  have R': "int R < 9223372036854775808" using R by simp
  have "\<forall>r<R. \<forall>i<unat n. length (outs r i) = 1"
    and "\<forall>r<R. (\<Sum>i<unat n. gfe (outs r i ! 0)) = of_int (m r)" and "\<forall>r<R. m r = 0 \<or> m r = 1"
    using each m by blast+
  then obtain aggs where "\<And>i. i < unat n \<Longrightarrow> aggregateAll c (AggregateInit c) (map (\<lambda>r. outs r i) [0..<R]) = Inr (aggs i)"
    and "Unshard c (map aggs [0..<unat n]) R = Some (Inr (\<Sum>r<R. m r))"
    by (rule aggregate_batch [OF R', where c = c]) blast
  with each show ?thesis by (intro exI [of _ outs] exI [of _ aggs]) (auto simp: VerifyNext_def, blast?)
qed

text \<open>A stand-in for the XOF that returns a constant vector, to evaluate the operations on.\<close>

definition constXof :: expander where
  "constXof seed tag bnd len = Some (Inr (replicate len 3))"

lemma constXof: "field_xof constXof"
  by unfold_locales (auto simp: constXof_def list_all_iff canonical_iff)

lemma constXof_Shard:
  assumes "NewCount 2 ctx = Inr c" and "m = 0 \<or> m = 1"
  shows "\<exists>ins. Shard constXof c m (replicate 16 0) (replicate 64 7) = Some (Inr ([], ins))"
  by (rule field_xof.Shard_returns [OF constXof assms(1) _ assms(2)])
    (use shares_bounds [OF assms(1)] in \<open>auto simp: constXof_def NonceSize_def RandSize_def SeedSize_def\<close>)

theorem prio3_end_to_end_witness:
  "\<exists>c ins outs aggs. NewCount 2 [] = Inr c
    \<and> (\<forall>r<2. Shard constXof c (int r) (replicate 16 0) (replicate 64 7) = Some (Inr ([], ins r)))
    \<and> (\<forall>r<2. \<exists>vss. (\<forall>i<2. VerifyInit constXof c [] (word_of_nat i) (replicate 16 0) [] (ins r ! i)
            = Some (Inr (outs r i, vss i)))
        \<and> VerifierSharesToMessage c (map vss [0..<2]) = Some (Inr [])
        \<and> (\<forall>i<2. VerifyNext c (outs r i) [] = Some (Inr (outs r i))))
    \<and> (\<forall>i<2. aggregateAll c (AggregateInit c) (map (\<lambda>r. outs r i) [0..<2]) = Inr (aggs i))
    \<and> Unshard c (map aggs [0..<2]) 2 = Some (Inr 1)"
proof -
  define c :: prio3_count where "c = \<lparr>c_shares = 2, c_ctx = []\<rparr>"
  have c: "NewCount 2 [] = Inr c" by (simp add: NewCount_def c_def)
  have "\<exists>ins. Shard constXof c (int r) (replicate 16 0) (replicate 64 7) = Some (Inr ([], ins))" if "r < 2" for r
    using that by (intro constXof_Shard [OF c]) auto
  then obtain ins where sh: "\<forall>r<2. Shard constXof c (int r) (replicate 16 0) (replicate 64 7) = Some (Inr ([], ins r))"
    by metis
  have q: "\<forall>r<(2 :: nat). \<exists>t. queryRands constXof c [] (replicate 16 0) = Some (Inr [t]) \<and> Field_Mul t t \<noteq> 1"
    by (simp add: queryRands_def constXof_def wrapErr_def Count_sizes proofs_def Field_Mul_def Mul64_def
        Sub64_def Add64_def Modulus_def epsilon_def)
  have "unat (2 :: 8 word) = 2" "(2 :: nat) < 2 ^ 63" by simp_all
  moreover have "(\<Sum>r<2. int r) = 1" by (simp add: numeral_2_eq_2)
  ultimately show ?thesis using c sh prio3_end_to_end [OF constXof c _ sh q] by metis
qed

text \<open>The outcomes of the code's own XOF within the bounds of its input: a vector, or no return.\<close>

lemma ExpandIntoVecField64_cases:
  assumes "length seed \<le> 255" and "length tag \<le> 65535"
  shows "ExpandIntoVecField64 seed tag bnd len = None
    \<or> (\<exists>v. ExpandIntoVecField64 seed tag bnd len = Some (Inr v) \<and> length v = len \<and> list_all canonical v)"
proof (cases "ExpandIntoVecField64 seed tag bnd len")
  case (Some r)
  moreover obtain x where "Xof_New seed tag bnd = Some (Inr x)" using Xof_New_message [OF assms] by blast
  ultimately obtain v where "r = Inr v" by (auto simp: ExpandIntoVecField64_def bind_eq_Some_conv)
  with Some ExpandIntoVecField64_result show ?thesis by blast
qed simp

lemma subShares_cases:
  assumes "\<And>i s. s \<in> set seeds \<Longrightarrow> f i s = None \<or> (\<exists>v. f i s = Some (Inr v) \<and> length v = length acc)"
  shows "if \<exists>k<length seeds. f (word_of_nat (j + k + 1)) (seeds ! k) = None then subShares f j seeds acc = None
    else \<exists>v. subShares f j seeds acc = Some (Inr v)"
  using assms
proof (induction seeds arbitrary: j acc)
  case (Cons seed seeds)
  have ex: "(\<exists>k<length (seed # seeds). f (word_of_nat (j + k + 1)) ((seed # seeds) ! k) = None)
    \<longleftrightarrow> f (word_of_nat (j + 1)) seed = None \<or> (\<exists>k<length seeds. f (word_of_nat (j + 1 + k + 1)) (seeds ! k) = None)"
    by (simp add: Ex_less_Suc2)
  show ?case
  proof (cases "f (word_of_nat (j + 1)) seed")
    case None
    then show ?thesis unfolding ex by simp
  next
    case (Some r)
    then obtain v where v: "r = Inr v" "length v = length acc" using Cons.prems [of seed "word_of_nat (j + 1)"] by auto
    let ?a = "map2 Field_Sub acc v"
    have a: "VecSub acc v = Inr ?a" "length ?a = length acc" using v(2) by (simp_all add: VecSub_def)
    have step: "subShares f j (seed # seeds) acc = subShares f (j + 1) seeds ?a" using Some v a(1) by simp
    have ne: "f (word_of_nat (j + 1)) seed = None \<longleftrightarrow> False" using Some by simp
    have "if \<exists>k<length seeds. f (word_of_nat (j + 1 + k + 1)) (seeds ! k) = None then subShares f (j + 1) seeds ?a = None
      else \<exists>v. subShares f (j + 1) seeds ?a = Some (Inr v)"
      by (rule Cons.IH) (use Cons.prems a(2) in auto)
    then show ?thesis unfolding ex step ne simp_thms .
  qed
qed simp

lemma subShares_split:
  assumes "\<And>i s. s \<in> set hs \<Longrightarrow> f i s = None \<or> (\<exists>v. f i s = Some (Inr v) \<and> length v = length acc)"
    and "length hs = M" and "\<And>i. i < M \<Longrightarrow> hs ! i = seed i"
  obtains "\<exists>i<M. f (word_of_nat (i + 1)) (seed i) = None" and "subShares f 0 hs acc = None"
  | v where "\<not> (\<exists>i<M. f (word_of_nat (i + 1)) (seed i) = None)" and "subShares f 0 hs acc = Some (Inr v)"
proof -
  have eq: "(\<exists>k<length hs. f (word_of_nat (0 + k + 1)) (hs ! k) = None) \<longleftrightarrow> (\<exists>i<M. f (word_of_nat (i + 1)) (seed i) = None)"
    using assms(2,3) by auto
  have "if \<exists>i<M. f (word_of_nat (i + 1)) (seed i) = None then subShares f 0 hs acc = None
      else \<exists>v. subShares f 0 hs acc = Some (Inr v)"
    using subShares_cases [of hs f acc 0] assms(1) unfolding eq by blast
  then show thesis using that by (auto split: if_splits simp del: of_nat_add of_nat_Suc)
qed

lemma Shard_cases:
  assumes c: "NewCount n ctx = Inr c" and m: "m = 0 \<or> m = 1" and len: "length nonce = 16" "length rand = 32 * unat n"
    and ctx: "length ctx \<le> 65527"
  defines "seed \<equiv> \<lambda>i. take 32 (drop (i * 32) rand)"
  obtains "(\<exists>i<unat n - 1. helperMeasShare ExpandIntoVecField64 c (word_of_nat (i + 1)) (seed i) = None
         \<or> helperProofsShare ExpandIntoVecField64 c (word_of_nat (i + 1)) (seed i) = None)
       \<or> proveRands ExpandIntoVecField64 c (seed (unat n - 1)) = None"
    and "Shard ExpandIntoVecField64 c m nonce rand = None"
  | ins where "\<not> ((\<exists>i<unat n - 1. helperMeasShare ExpandIntoVecField64 c (word_of_nat (i + 1)) (seed i) = None
         \<or> helperProofsShare ExpandIntoVecField64 c (word_of_nat (i + 1)) (seed i) = None)
       \<or> proveRands ExpandIntoVecField64 c (seed (unat n - 1)) = None)"
    and "Shard ExpandIntoVecField64 c m nonce rand = Some (Inr ([], ins))"
proof -
  let ?xp = ExpandIntoVecField64
  define N where "N = unat n"
  define hs where "hs = take (N - 1) (map seed [0..<N])"
  have n: "c_shares c = n" "c_ctx c = ctx" "2 \<le> N"
    using shares_bounds [OF c] c by (auto simp: N_def NewCount_def split: if_splits)
  have tag: "length (dst c u) \<le> 65535" for u using ctx n by (simp add: dst_def DomainSeparationTag_def)
  have sl: "length (seed i) \<le> 255" for i by (simp add: seed_def)
  have hs: "length hs = N - 1" "\<And>i. i < N - 1 \<Longrightarrow> hs ! i = seed i" "\<And>s. s \<in> set hs \<Longrightarrow> length s \<le> 255"
    using sl by (auto simp: hs_def dest!: in_set_takeD)
  have last: "map seed [0..<N] ! (N - 1) = seed (N - 1)" using n(3) by simp
  have ex: "?xp s (dst c u) bnd l = None \<or> (\<exists>v. ?xp s (dst c u) bnd l = Some (Inr v) \<and> length v = l)"
    if "length s \<le> 255" for s u bnd l
    using ExpandIntoVecField64_cases [OF that tag] by blast
  have meas: "helperMeasShare ?xp c i s = None \<or> (\<exists>v. helperMeasShare ?xp c i s = Some (Inr v) \<and> length v = length [word_of_int m :: elt])"
    if "s \<in> set hs" for i s
    using ex [OF hs(3) [OF that], of UsageMeasShare "[i]" 1] by (auto simp: helperMeasShare_def wrapErr_def Count_sizes)
  have pshare: "helperProofsShare ?xp c i s = None \<or> (\<exists>v. helperProofsShare ?xp c i s = Some (Inr v) \<and> length v = length pf)"
    if "length pf = 5" "s \<in> set hs" for pf :: "elt list" and i s
    using ex [OF hs(3) [OF that(2)], of UsageProofShare "[1, i]" 5] that(1)
    by (auto simp: helperProofsShare_def wrapErr_def Count_sizes proofs_def)
  have enc: "v_Encode Count m = Inr [word_of_int m]" using m by (simp add: Count_Encode_Inr)
  have sh: "Shard ?xp c m nonce rand = andThen (subShares (helperMeasShare ?xp c) 0 hs [word_of_int m]) (\<lambda>leaderMeas.
      andThen (proveRands ?xp c (seed (N - 1))) (\<lambda>pr. andThen (panics (Prove Count [word_of_int m] (take 2 pr) [])) (\<lambda>pf.
      andThen (subShares (helperProofsShare ?xp c) 0 hs pf) (\<lambda>leaderProofs.
        Some (Inr ([], \<lparr>is_AggID = 0, is_MeasShare = leaderMeas, is_ProofsShare = leaderProofs, is_Seed = []\<rparr>
          # map (\<lambda>j. \<lparr>is_AggID = word_of_nat (j + 1), is_MeasShare = [], is_ProofsShare = [], is_Seed = hs ! j\<rparr>) [0..<N - 1]))))))"
    unfolding Shard_def Let_def n(1) N_def [symmetric] SeedSize_def seed_def [symmetric] hs_def [symmetric] last
    using len enc by (simp add: RandSize_def NonceSize_def SeedSize_def n(1) wrapErr_def Count_sizes)
  show thesis
  proof (rule subShares_split [OF meas hs(1,2)])
    assume "\<exists>i<N - 1. helperMeasShare ?xp c (word_of_nat (i + 1)) (seed i) = None"
      and "subShares (helperMeasShare ?xp c) 0 hs [word_of_int m] = None"
    then show thesis by (intro that(1)) (auto simp: sh N_def)
  next
    fix lm assume a: "\<not> (\<exists>i<N - 1. helperMeasShare ?xp c (word_of_nat (i + 1)) (seed i) = None)"
      "subShares (helperMeasShare ?xp c) 0 hs [word_of_int m] = Some (Inr lm)"
    show thesis
    proof (cases "proveRands ?xp c (seed (N - 1))")
      case None
      with a show thesis by (intro that(1)) (auto simp: sh N_def)
    next
      case (Some r)
      then obtain pr where pr: "proveRands ?xp c (seed (N - 1)) = Some (Inr pr)"
        using ex [OF sl [of "N - 1"], of UsageProveRandomness "[1]" 2]
        by (auto simp: proveRands_def wrapErr_def Count_sizes proofs_def)
      then obtain r0 r1 where r: "pr = [r0, r1]" "list_all canonical [r0, r1]"
        using field_xof.expansion_lengths(3) [OF turbo.field_xof_axioms pr] by (auto simp: length_Suc_conv numeral_2_eq_2)
      then have rc: "list_all canonical [word_of_int m, r0, r1]" using m by auto
      obtain m0 m1 m2 where pf: "Prove Count [word_of_int m] [r0, r1] [] = Some [r0, r1, m0, m1, m2]"
        by (rule Prove_Count [OF rc])
      show thesis
      proof (rule subShares_split [OF pshare [of "[r0, r1, m0, m1, m2]"] hs(1,2)], simp, assumption)
        assume "\<exists>i<N - 1. helperProofsShare ?xp c (word_of_nat (i + 1)) (seed i) = None"
          and "subShares (helperProofsShare ?xp c) 0 hs [r0, r1, m0, m1, m2] = None"
        with a pr r(1) pf show thesis by (intro that(1)) (auto simp: sh N_def)
      next
        fix lp assume "\<not> (\<exists>i<N - 1. helperProofsShare ?xp c (word_of_nat (i + 1)) (seed i) = None)"
          and "subShares (helperProofsShare ?xp c) 0 hs [r0, r1, m0, m1, m2] = Some (Inr lp)"
        with a pr r(1) pf show thesis by (intro that(2)) (auto simp: sh N_def)
      qed
    qed
  qed
qed

text \<open>
  C18. Every outcome of sharding with the code's own XOF: a nonce of the wrong size, randomness
  of the wrong size, a measurement other than 0 or 1, and a context too long for a
  domain-separation tag give their own error, in that order of precedence. Every other call
  returns one input share per aggregator, unless the rejection sampling of one of the
  expansions it makes does not end; exactly then it does not return.
\<close>

theorem Shard_classified:
  assumes "NewCount n ctx = Inr c"
  shows "let sh = Shard ExpandIntoVecField64 c m nonce rand; seed = \<lambda>i. take 32 (drop (i * 32) rand) in
    if length nonce \<noteq> 16 then sh = Some (Inl ErrNonceSize)
    else if length rand \<noteq> 32 * unat n then sh = Some (Inl ErrRandSize)
    else if m \<noteq> 0 \<and> m \<noteq> 1 then sh = Some (Inl (FlpError ErrInvalidMeasurement))
    else if length ctx > 65527 then sh = Some (Inl (XofError ErrDSTSize))
    else if (\<exists>i<unat n - 1. helperMeasShare ExpandIntoVecField64 c (word_of_nat (i + 1)) (seed i) = None
           \<or> helperProofsShare ExpandIntoVecField64 c (word_of_nat (i + 1)) (seed i) = None)
         \<or> proveRands ExpandIntoVecField64 c (seed (unat n - 1)) = None
      then sh = None
    else \<exists>ins. sh = Some (Inr ([], ins)) \<and> length ins = unat n"
proof -
  let ?xp = ExpandIntoVecField64
  have c: "c_shares c = n" "c_ctx c = ctx" "2 \<le> unat n"
    using shares_bounds [OF assms] assms by (auto simp: NewCount_def split: if_splits)
  note sizes = Shard_def NonceSize_def RandSize_def SeedSize_def c(1)
  have long: "Shard ?xp c m nonce rand = Some (Inl (XofError ErrDSTSize))"
    if "length nonce = 16" "length rand = 32 * unat n" "m = 0 \<or> m = 1" "length ctx > 65527"
  proof -
    have tag: "length (dst c u) > 65535" for u using that(4) c by (simp add: dst_def DomainSeparationTag_def)
    have "helperMeasShare ?xp c i s = Some (Inl (XofError ErrDSTSize))" if "length s \<le> 32" for i s
      using tag that by (simp add: helperMeasShare_def wrapErr_def ExpandIntoVecField64_def Xof_New_def)
    moreover have "v_Encode Count m = Inr [word_of_int m]" using that(3) by (simp add: Count_Encode_Inr)
    moreover have "[0..<unat n] = 0 # [1..<unat n]" "unat n - 1 = Suc (unat n - 2)" using c(3) by (simp_all add: upt_conv_Cons)
    ultimately show ?thesis
      using that(1,2) by (simp add: sizes Let_def wrapErr_def del: upt_Suc)
  qed
  have inv: "Shard ?xp c m nonce rand = Some (Inl (FlpError ErrInvalidMeasurement))"
    if "length nonce = 16" "length rand = 32 * unat n" "m \<noteq> 0 \<and> m \<noteq> 1"
    using that by (simp add: sizes Let_def wrapErr_def Count_def Count_Encode_def)
  consider (nonce) "length nonce \<noteq> 16" | (rand) "length nonce = 16" "length rand \<noteq> 32 * unat n"
    | (meas) "length nonce = 16" "length rand = 32 * unat n" "m \<noteq> 0 \<and> m \<noteq> 1"
    | (long) "length nonce = 16" "length rand = 32 * unat n" "m = 0 \<or> m = 1" "length ctx > 65527"
    | (ok) "length nonce = 16" "length rand = 32 * unat n" "m = 0 \<or> m = 1" "length ctx \<le> 65527" by linarith
  then show ?thesis
  proof cases
    case ok
    have "length ins = unat n" if "Shard ?xp c m nonce rand = Some (Inr ([], ins))" for ins
      by (rule field_xof.Shard_shares [OF turbo.field_xof_axioms assms that])
    then show ?thesis
      unfolding Let_def by (rule_tac Shard_cases [OF assms ok(3,1,2,4)]) (use ok in auto)
  qed (use long inv in \<open>auto simp: sizes Let_def\<close>)
qed

theorem Shard_classified_witness:
  "\<exists>c d. NewCount 2 [] = Inr c \<and> NewCount 2 (replicate 65528 0) = Inr d
    \<and> Shard ExpandIntoVecField64 c 1 [] [] = Some (Inl ErrNonceSize)
    \<and> Shard ExpandIntoVecField64 c 1 (replicate 16 0) [] = Some (Inl ErrRandSize)
    \<and> Shard ExpandIntoVecField64 c 2 (replicate 16 0) (replicate 64 0) = Some (Inl (FlpError ErrInvalidMeasurement))
    \<and> Shard ExpandIntoVecField64 d 1 (replicate 16 0) (replicate 64 0) = Some (Inl (XofError ErrDSTSize))"
proof -
  obtain c d where c: "NewCount 2 [] = Inr c" and d: "NewCount 2 (replicate 65528 0) = Inr d" by (simp add: NewCount_def)
  note inst = Shard_classified [OF c] Shard_classified [OF d]
  have "Shard ExpandIntoVecField64 c 1 [] [] = Some (Inl ErrNonceSize)"
    using inst(1) [of 1 "[]" "[]"] by simp
  moreover have "Shard ExpandIntoVecField64 c 1 (replicate 16 0) [] = Some (Inl ErrRandSize)"
    using inst(1) [of 1 "replicate 16 0" "[]"] by simp
  moreover have "Shard ExpandIntoVecField64 c 2 (replicate 16 0) (replicate 64 0) = Some (Inl (FlpError ErrInvalidMeasurement))"
    using inst(1) [of 2 "replicate 16 0" "replicate 64 0"] by simp
  moreover have "Shard ExpandIntoVecField64 d 1 (replicate 16 0) (replicate 64 0) = Some (Inl (XofError ErrDSTSize))"
    using inst(2) [of 1 "replicate 16 0" "replicate 64 0"] by simp
  ultimately show ?thesis using c d by blast
qed

text \<open>
  C17. Every input share that sharding returns is decoded from its encoding by the aggregator
  it is meant for, leader and helpers alike, and the public share is the encoding of the empty
  public share.
\<close>

theorem prio3_share_codec:
  assumes "field_xof xp" and "NewCount n ctx = Inr c"
    and "Shard xp c m nonce rand = Some (Inr (ps, ins))" and "i < unat n"
  shows "DecodeInputShare c (word_of_nat i) (EncodeInputShare c (ins ! i)) = Inr (ins ! i)
    \<and> ps = EncodePublicShare c"
  using field_xof.Shard_codec [OF assms] field_xof.Shard_parts [OF assms(1-3)]
  unfolding EncodePublicShare_def by metis

theorem prio3_share_codec_witness:
  "\<exists>c ins. Shard constXof c 1 (replicate 16 0) (replicate 64 7) = Some (Inr ([], ins))
    \<and> DecodeInputShare c 0 (EncodeInputShare c (ins ! 0)) = Inr (ins ! 0)
    \<and> DecodeInputShare c 1 (EncodeInputShare c (ins ! 1)) = Inr (ins ! 1)"
proof -
  obtain c where c: "NewCount 2 [] = Inr c" by (simp add: NewCount_def)
  obtain ins where sh: "Shard constXof c 1 (replicate 16 0) (replicate 64 7) = Some (Inr ([], ins))"
    using constXof_Shard [OF c, of 1] by auto
  show ?thesis
    using prio3_share_codec [OF constXof c sh, of 0] prio3_share_codec [OF constXof c sh, of 1] sh by auto
qed

end
