(* ===== verification/Sha256.thy ===== *)
theory Sha256
  imports Prelude
begin

unbundle bit_operations_syntax

text \<open>
  SHA-256 of Go's standard library, which the helper hashes request bodies with
  (\<^verbatim>\<open>hashBody\<close> in \<^verbatim>\<open>pkg/dap/helper/helper.go\<close>), as FIPS 180-4 defines it. Only the length of
  the digest matters to the proofs.
\<close>

definition sha256_K :: "32 word list" where
  "sha256_K =
    [1116352408, 1899447441, 3049323471, 3921009573, 961987163, 1508970993,
     2453635748, 2870763221, 3624381080, 310598401, 607225278, 1426881987,
     1925078388, 2162078206, 2614888103, 3248222580, 3835390401, 4022224774,
     264347078, 604807628, 770255983, 1249150122, 1555081692, 1996064986,
     2554220882, 2821834349, 2952996808, 3210313671, 3336571891, 3584528711,
     113926993, 338241895, 666307205, 773529912, 1294757372, 1396182291,
     1695183700, 1986661051, 2177026350, 2456956037, 2730485921, 2820302411,
     3259730800, 3345764771, 3516065817, 3600352804, 4094571909, 275423344,
     430227734, 506948616, 659060556, 883997877, 958139571, 1322822218,
     1537002063, 1747873779, 1955562222, 2024104815, 2227730452, 2361852424,
     2428436474, 2756734187, 3204031479, 3329325298]"

definition sha256_H0 :: "32 word list" where
  "sha256_H0 = [1779033703, 3144134277, 1013904242, 2773480762, 1359893119, 2600822924, 528734635, 1541459225]"

definition sha256_pad :: "bytes \<Rightarrow> bytes" where
  "sha256_pad m =
     m @ [128] @ replicate ((119 - length m mod 64) mod 64) 0 @ be 8 (8 * length m)"

text \<open>The message schedule, extended one word at a time.\<close>

definition sha256_schedule :: "32 word list \<Rightarrow> 32 word list" where
  "sha256_schedule block =
     fold (\<lambda>t w.
       let a = w ! (t - 15); b = w ! (t - 2);
           s0 = word_rotr 7 a XOR word_rotr 18 a XOR drop_bit 3 a;
           s1 = word_rotr 17 b XOR word_rotr 19 b XOR drop_bit 10 b
       in w @ [w ! (t - 16) + s0 + w ! (t - 7) + s1]) [16..<64] block"

definition sha256_round :: "32 word \<Rightarrow> 32 word list \<Rightarrow> 32 word list" where
  "sha256_round kw s =
     (case s of [a, b, c, d, e, f, g, h] \<Rightarrow>
        let S1 = word_rotr 6 e XOR word_rotr 11 e XOR word_rotr 25 e;
            ch = (e AND f) XOR (NOT e AND g);
            t1 = h + S1 + ch + kw;
            S0 = word_rotr 2 a XOR word_rotr 13 a XOR word_rotr 22 a;
            maj = (a AND b) XOR (a AND c) XOR (b AND c)
        in [t1 + S0 + maj, a, b, c, d + t1, e, f, g]
      | _ \<Rightarrow> s)"

definition sha256_words :: "bytes \<Rightarrow> 32 word list" where
  "sha256_words block = map (\<lambda>i. word_of_nat (be_val (take 4 (drop (4 * i) block)))) [0..<16]"

definition sha256_block :: "bytes \<Rightarrow> 32 word list \<Rightarrow> 32 word list" where
  "sha256_block block h =
     map2 (+) h (fold sha256_round (map2 (+) sha256_K (sha256_schedule (sha256_words block))) h)"

fun chunks :: "nat \<Rightarrow> bytes \<Rightarrow> bytes list" where
  "chunks n [] = []"
| "chunks n (x # xs) = (if n = 0 then [] else take n (x # xs) # chunks n (drop (n - 1) xs))"

definition Sum256 :: "bytes \<Rightarrow> bytes" where
  "Sum256 m =
     concat (map (\<lambda>w. be 4 (unat w)) (fold sha256_block (chunks 64 (sha256_pad m)) sha256_H0))"

lemma length_sha256_round: "length (sha256_round kw s) = length s"
  by (simp add: sha256_round_def Let_def split: list.split)

lemma length_sha256_rounds: "length (fold sha256_round ks s) = length s"
  by (induction ks arbitrary: s) (simp_all add: length_sha256_round)

lemma length_sha256_block: "length (sha256_block block h) = length h"
  by (simp add: sha256_block_def length_sha256_rounds)

lemma length_Sum256 [simp]: "length (Sum256 m) = 32"
proof -
  have "length (fold sha256_block bs h) = length h" for bs h
    by (induction bs arbitrary: h) (simp_all add: length_sha256_block)
  then have "length (fold sha256_block (chunks 64 (sha256_pad m)) sha256_H0) = 8"
    by (simp add: sha256_H0_def)
  then show ?thesis by (simp add: Sum256_def length_concat comp_def sum_list_triv)
qed

end
