(* ===== verification/Cryptobyte.thy ===== *)
theory Cryptobyte
  imports Prelude
begin

text \<open>
  The interface to \<^verbatim>\<open>golang.org/x/crypto/cryptobyte\<close>, the package every message of
  \<^verbatim>\<open>pkg/dap/wire\<close> is built and parsed with. Its code is not part of the repository, so it is
  a parameter: the record \<open>cryptobyte\<close> has one field per method the wire package calls, over
  an arbitrary type \<open>'b\<close> of builders (a \<^verbatim>\<open>*cryptobyte.Builder\<close>); a \<^verbatim>\<open>cryptobyte.String\<close> is
  by definition a byte slice, and a reading method returns what it read and the rest, or None
  where the method returns false. A Go \<^verbatim>\<open>int\<close> has 64 bits here.

  The locale \<open>cryptobyte_laws\<close> states the documented behaviour the code relies on. A builder
  operation is described by the bytes it emits, None standing for a builder in error;
  \<open>ref_cb\<close> is an executable implementation that satisfies the laws.
\<close>

record 'b cryptobyte =
  NewBuilder :: 'b
  AddUint8 :: "8 word \<Rightarrow> 'b \<Rightarrow> 'b"
  AddUint16 :: "16 word \<Rightarrow> 'b \<Rightarrow> 'b"
  AddUint32 :: "32 word \<Rightarrow> 'b \<Rightarrow> 'b"
  AddUint64 :: "64 word \<Rightarrow> 'b \<Rightarrow> 'b"
  AddBytes :: "bytes \<Rightarrow> 'b \<Rightarrow> 'b"
  AddUint8LengthPrefixed :: "('b \<Rightarrow> 'b) \<Rightarrow> 'b \<Rightarrow> 'b"
  AddUint16LengthPrefixed :: "('b \<Rightarrow> 'b) \<Rightarrow> 'b \<Rightarrow> 'b"
  AddUint32LengthPrefixed :: "('b \<Rightarrow> 'b) \<Rightarrow> 'b \<Rightarrow> 'b"
  Bytes :: "'b \<Rightarrow> bytes option"
  ReadUint8 :: "bytes \<Rightarrow> (8 word \<times> bytes) option"
  ReadUint16 :: "bytes \<Rightarrow> (16 word \<times> bytes) option"
  ReadUint32 :: "bytes \<Rightarrow> (32 word \<times> bytes) option"
  ReadUint64 :: "bytes \<Rightarrow> (64 word \<times> bytes) option"
  ReadUint8LengthPrefixed :: "bytes \<Rightarrow> (bytes \<times> bytes) option"
  ReadUint16LengthPrefixed :: "bytes \<Rightarrow> (bytes \<times> bytes) option"
  ReadBytes :: "int \<Rightarrow> bytes \<Rightarrow> (bytes \<times> bytes) option"
  CopyBytes :: "nat \<Rightarrow> bytes \<Rightarrow> (bytes \<times> bytes) option"

subsection \<open>What a builder operation emits\<close>

fun cat :: "bytes option \<Rightarrow> bytes option \<Rightarrow> bytes option" where
  "cat (Some a) (Some b) = Some (a @ b)"
| "cat _ _ = None"

lemma cat_simps [simp]:
  "cat (Some []) r = r" "cat r (Some []) = r" "cat None r = None" "cat r None = None"
  "cat (cat a b) c = cat a (cat b c)"
  by (cases r; simp)+ (cases a; cases b; cases c; simp)

lemma cat_Some_iff: "cat a b = Some w \<longleftrightarrow> (\<exists>u v. a = Some u \<and> b = Some v \<and> w = u @ v)"
  by (cases a; cases b; auto)

definition with_len :: "nat \<Rightarrow> bytes option \<Rightarrow> bytes option" where
  "with_len n r =
     (case r of None \<Rightarrow> None
      | Some w \<Rightarrow> if length w < 256 ^ n then Some (be n (length w) @ w) else None)"

lemma with_len_Some_iff:
  "with_len n r = Some v \<longleftrightarrow> (\<exists>w. r = Some w \<and> length w < 256 ^ n \<and> v = be n (length w) @ w)"
  by (auto simp: with_len_def split: option.splits if_splits)

definition emits :: "'b cryptobyte \<Rightarrow> ('b \<Rightarrow> 'b) \<Rightarrow> bytes option \<Rightarrow> bool" where
  "emits cb f r \<longleftrightarrow> (\<forall>b. Bytes cb (f b) = cat (Bytes cb b) r)"

definition out :: "'b cryptobyte \<Rightarrow> ('b \<Rightarrow> 'b) \<Rightarrow> bytes option" where
  "out cb f = Bytes cb (f (NewBuilder cb))"

definition writer :: "'b cryptobyte \<Rightarrow> ('b \<Rightarrow> 'b) \<Rightarrow> bool" where
  "writer cb f \<longleftrightarrow> emits cb f (out cb f)"

text \<open>A sequence of calls on the same builder.\<close>

definition emit :: "('b \<Rightarrow> 'b) list \<Rightarrow> 'b \<Rightarrow> 'b" where
  "emit fs b = fold (\<lambda>f b. f b) fs b"

primrec cats :: "bytes option list \<Rightarrow> bytes option" where
  "cats [] = Some []"
| "cats (r # rs) = cat r (cats rs)"

subsection \<open>The laws\<close>

locale cryptobyte_laws =
  fixes cb :: "'b cryptobyte"
  assumes new_builder: "Bytes cb (NewBuilder cb) = Some []"
    and add_uint8: "emits cb (AddUint8 cb v8) (Some [v8])"
    and add_uint16: "emits cb (AddUint16 cb v16) (Some (be 2 (unat v16)))"
    and add_uint32: "emits cb (AddUint32 cb v32) (Some (be 4 (unat v32)))"
    and add_uint64: "emits cb (AddUint64 cb v64) (Some (be 8 (unat v64)))"
    and add_bytes: "emits cb (AddBytes cb bs) (Some bs)"
    and add_uint8_lp: "emits cb f r \<Longrightarrow> emits cb (AddUint8LengthPrefixed cb f) (with_len 1 r)"
    and add_uint16_lp: "emits cb f r \<Longrightarrow> emits cb (AddUint16LengthPrefixed cb f) (with_len 2 r)"
    and add_uint32_lp: "emits cb f r \<Longrightarrow> emits cb (AddUint32LengthPrefixed cb f) (with_len 4 r)"
    and read_uint8: "ReadUint8 cb s =
      (if length s < 1 then None else Some (word_of_nat (be_val (take 1 s)), drop 1 s))"
    and read_uint16: "ReadUint16 cb s =
      (if length s < 2 then None else Some (word_of_nat (be_val (take 2 s)), drop 2 s))"
    and read_uint32: "ReadUint32 cb s =
      (if length s < 4 then None else Some (word_of_nat (be_val (take 4 s)), drop 4 s))"
    and read_uint64: "ReadUint64 cb s =
      (if length s < 8 then None else Some (word_of_nat (be_val (take 8 s)), drop 8 s))"
    and read_bytes: "ReadBytes cb n s =
      (if n < 0 \<or> int (length s) < n then None else Some (take (nat n) s, drop (nat n) s))"
    and copy_bytes: "CopyBytes cb m s =
      (if length s < m then None else Some (take m s, drop m s))"
    and read_uint8_lp: "ReadUint8LengthPrefixed cb s =
      (if length s < 1 \<or> length s - 1 < be_val (take 1 s) then None
       else Some (take (be_val (take 1 s)) (drop 1 s), drop (be_val (take 1 s)) (drop 1 s)))"
    and read_uint16_lp: "ReadUint16LengthPrefixed cb s =
      (if length s < 2 \<or> length s - 2 < be_val (take 2 s) then None
       else Some (take (be_val (take 2 s)) (drop 2 s), drop (be_val (take 2 s)) (drop 2 s)))"
begin

lemma emits_out: "emits cb f r \<Longrightarrow> out cb f = r"
  by (simp add: emits_def out_def new_builder)

lemma writerI: "emits cb f r \<Longrightarrow> writer cb f"
  by (simp add: writer_def emits_out)

lemmas basic_emits = add_uint8 add_uint16 add_uint32 add_uint64 add_bytes
lemmas basic_writers [simp, intro] = basic_emits [THEN writerI]
lemmas basic_out [simp, out_simps] = basic_emits [THEN emits_out]

lemma lp_writers [simp, intro]:
  assumes "writer cb f"
  shows "writer cb (AddUint8LengthPrefixed cb f)" "writer cb (AddUint16LengthPrefixed cb f)"
    "writer cb (AddUint32LengthPrefixed cb f)"
proof -
  have e: "emits cb f (out cb f)" using assms by (simp add: writer_def)
  show "writer cb (AddUint8LengthPrefixed cb f)" by (rule writerI [OF add_uint8_lp [OF e]])
  show "writer cb (AddUint16LengthPrefixed cb f)" by (rule writerI [OF add_uint16_lp [OF e]])
  show "writer cb (AddUint32LengthPrefixed cb f)" by (rule writerI [OF add_uint32_lp [OF e]])
qed

lemma lp_out [simp, out_simps]:
  assumes "writer cb f"
  shows "out cb (AddUint8LengthPrefixed cb f) = with_len 1 (out cb f)"
    "out cb (AddUint16LengthPrefixed cb f) = with_len 2 (out cb f)"
    "out cb (AddUint32LengthPrefixed cb f) = with_len 4 (out cb f)"
proof -
  have e: "emits cb f (out cb f)" using assms by (simp add: writer_def)
  show "out cb (AddUint8LengthPrefixed cb f) = with_len 1 (out cb f)"
    by (rule emits_out [OF add_uint8_lp [OF e]])
  show "out cb (AddUint16LengthPrefixed cb f) = with_len 2 (out cb f)"
    by (rule emits_out [OF add_uint16_lp [OF e]])
  show "out cb (AddUint32LengthPrefixed cb f) = with_len 4 (out cb f)"
    by (rule emits_out [OF add_uint32_lp [OF e]])
qed

lemma emit_emits:
  "list_all (writer cb) fs \<Longrightarrow> emits cb (emit fs) (cats (map (out cb) fs))"
proof (induction fs)
  case Nil
  then show ?case by (simp add: emits_def emit_def)
next
  case (Cons f fs)
  then have "emits cb f (out cb f)" and "emits cb (emit fs) (cats (map (out cb) fs))"
    by (simp_all add: writer_def)
  moreover have "emit (f # fs) b = emit fs (f b)" for b by (simp add: emit_def)
  ultimately show ?case by (simp add: emits_def)
qed

lemma emit_writer [simp, intro]: "list_all (writer cb) fs \<Longrightarrow> writer cb (emit fs)"
  using emit_emits writerI by blast

lemma emit_out [simp, out_simps]:
  "list_all (writer cb) fs \<Longrightarrow> out cb (emit fs) = cats (map (out cb) fs)"
  using emit_emits emits_out by blast

text \<open>Reading back what was written, and what a successful read says of the input.\<close>

lemma read_ints [simp, read_simps]:
  "ReadUint8 cb (v8 # s) = Some (v8, s)"
  "ReadUint16 cb (be 2 (unat v16) @ s) = Some (v16, s)"
  "ReadUint32 cb (be 4 (unat v32) @ s) = Some (v32, s)"
  "ReadUint64 cb (be 8 (unat v64) @ s) = Some (v64, s)"
  by (simp_all add: read_uint8 read_uint16 read_uint32 read_uint64 word_be_val)

lemma read_ints_dest:
  "ReadUint8 cb s = Some (v8, r) \<Longrightarrow> s = v8 # r"
  "ReadUint16 cb s = Some (v16, r) \<Longrightarrow> s = be 2 (unat v16) @ r"
  "ReadUint32 cb s = Some (v32, r) \<Longrightarrow> s = be 4 (unat v32) @ r"
  "ReadUint64 cb s = Some (v64, r) \<Longrightarrow> s = be 8 (unat v64) @ r"
  using be_word_be_val [of 1 s v8]
  by (auto simp: read_uint8 read_uint16 read_uint32 read_uint64 be_word_be_val not_less Suc_le_eq
      split: if_splits)

lemma read_bytes_front [simp, read_simps]:
  "n = int (length w) \<Longrightarrow> ReadBytes cb n (w @ s) = Some (w, s)"
  "m = length w \<Longrightarrow> CopyBytes cb m (w @ s) = Some (w, s)"
  by (simp_all add: read_bytes copy_bytes)

lemma read_bytes_dest:
  "ReadBytes cb n s = Some (w, r) \<Longrightarrow> n = int (length w) \<and> s = w @ r"
  "CopyBytes cb m s = Some (w, r) \<Longrightarrow> length w = m \<and> s = w @ r"
  by (auto simp: read_bytes copy_bytes split: if_splits)

lemma read_lp_front [simp, read_simps]:
  "length w < 256 \<Longrightarrow> ReadUint8LengthPrefixed cb (be 1 (length w) @ w @ s) = Some (w, s)"
  "length w < 65536 \<Longrightarrow> ReadUint16LengthPrefixed cb (be 2 (length w) @ w @ s) = Some (w, s)"
  by (simp_all add: read_uint8_lp read_uint16_lp be_val_be unat_byte_mod)

lemma read_u8_lp_front [simp, read_simps]:
  "length w < 256 \<Longrightarrow> ReadUint8LengthPrefixed cb (word_of_nat (length w) # w @ s) = Some (w, s)"
  using read_lp_front(1) [of w s] by simp

lemma read_lp_dest:
  "ReadUint8LengthPrefixed cb s = Some (w, r) \<Longrightarrow> length w < 256 \<and> s = be 1 (length w) @ w @ r"
  "ReadUint16LengthPrefixed cb s = Some (w, r) \<Longrightarrow> length w < 65536 \<and> s = be 2 (length w) @ w @ r"
  using length_prefix_split [of 1 s w r] length_prefix_split [of 2 s w r]
  by (auto simp: read_uint8_lp read_uint16_lp not_less Suc_le_eq split: if_splits simp del: be.simps)

end

subsection \<open>An implementation\<close>

text \<open>A builder that holds the bytes written so far, or None once in error.\<close>

definition ref_lp :: "nat \<Rightarrow> (bytes option \<Rightarrow> bytes option) \<Rightarrow> bytes option \<Rightarrow> bytes option" where
  "ref_lp n f b = cat b (with_len n (f (Some [])))"

definition ref_read :: "nat \<Rightarrow> bytes \<Rightarrow> ('w::len word \<times> bytes) option" where
  "ref_read n s =
     (if length s < n then None else Some (word_of_nat (be_val (take n s)), drop n s))"

definition ref_read_lp :: "nat \<Rightarrow> bytes \<Rightarrow> (bytes \<times> bytes) option" where
  "ref_read_lp n s =
     (if length s < n \<or> length s - n < be_val (take n s) then None
      else Some (take (be_val (take n s)) (drop n s), drop (be_val (take n s)) (drop n s)))"

definition ref_cb :: "bytes option cryptobyte" where
  "ref_cb =
    \<lparr>NewBuilder = Some [],
     AddUint8 = (\<lambda>v b. cat b (Some [v])),
     AddUint16 = (\<lambda>v b. cat b (Some (be 2 (unat v)))),
     AddUint32 = (\<lambda>v b. cat b (Some (be 4 (unat v)))),
     AddUint64 = (\<lambda>v b. cat b (Some (be 8 (unat v)))),
     AddBytes = (\<lambda>bs b. cat b (Some bs)),
     AddUint8LengthPrefixed = ref_lp 1,
     AddUint16LengthPrefixed = ref_lp 2,
     AddUint32LengthPrefixed = ref_lp 4,
     Bytes = (\<lambda>b. b),
     ReadUint8 = ref_read 1,
     ReadUint16 = ref_read 2,
     ReadUint32 = ref_read 4,
     ReadUint64 = ref_read 8,
     ReadUint8LengthPrefixed = ref_read_lp 1,
     ReadUint16LengthPrefixed = ref_read_lp 2,
     ReadBytes = (\<lambda>n s. if n < 0 \<or> int (length s) < n then None
                         else Some (take (nat n) s, drop (nat n) s)),
     CopyBytes = (\<lambda>m s. if length s < m then None else Some (take m s, drop m s))\<rparr>"

interpretation ref: cryptobyte_laws ref_cb
  by unfold_locales (simp_all add: ref_cb_def emits_def ref_lp_def ref_read_def ref_read_lp_def)

end
