(* ===== verification/Variant.thy ===== *)
theory Variant
  imports Prelude
begin

text \<open>
  The dialect selector of \<^verbatim>\<open>pkg/dap/wire/variant.go\<close>: which draft's message structure and
  which version-bound values a task speaks. The Go type is a uint8 with four declared
  constants, none of which is read from the wire.
\<close>

datatype variant = VariantDraft18 | VariantJanus | VariantDraft19 | VariantDraft20

fun VersionString :: "variant \<Rightarrow> string" where
  "VersionString VariantDraft19 = ''dap-19''"
| "VersionString VariantDraft20 = ''dap-20''"
| "VersionString _ = ''dap-18''"

definition draft19Values :: "variant \<Rightarrow> bool" where
  "draft19Values v \<longleftrightarrow> v = VariantDraft19 \<or> v = VariantDraft20"

text \<open>Go's conversion of a string to its bytes.\<close>

definition ascii :: "string \<Rightarrow> bytes" where
  "ascii s = map (\<lambda>c. word_of_nat (of_char c)) s"

lemma ascii_append [simp]: "ascii (s @ t) = ascii s @ ascii t"
  by (simp add: ascii_def)

lemma length_ascii [simp]: "length (ascii s) = length s"
  by (simp add: ascii_def)

lemma length_VersionString [simp]: "length (VersionString v) = 6"
  by (cases v) simp_all

end
