(* ===== verification/Codec.thy ===== *)
theory Codec
  imports Cryptobyte Variant
begin

text \<open>
  The helpers at the end of \<^verbatim>\<open>pkg/dap/wire/types.go\<close> (\<open>marshal\<close>, \<open>unmarshalAll\<close>,
  \<open>cloneBytes\<close>, \<open>readUint32LengthPrefixed\<close>), the loops every element vector is written and
  read with, and the contract each message type of the package is shown to satisfy:
  \<open>wire_codec\<close> says that decoding inverts encoding whatever follows, and that a successful
  decoding consumed exactly the encoding of its result. The general consequences (round trip,
  unique encoding, rejection of truncated and of extended input) are proved once here.
\<close>

datatype wire_error =
    ErrTrailingData nat
  | ErrMalformed
  | BuilderError
  | UnknownPingPongType byte
  | NoCodePoint byte variant
  | TaskInfoEmpty variant
  | TaskInfoTooLong nat

subsection \<open>The helpers\<close>

definition marshal ::
  "'b cryptobyte \<Rightarrow> ('a \<Rightarrow> wire_error + ('b \<Rightarrow> 'b)) \<Rightarrow> 'a \<Rightarrow> wire_error + bytes" where
  "marshal cb m v =
     (case m v of Inl err \<Rightarrow> Inl err
      | Inr f \<Rightarrow> (case Bytes cb (f (NewBuilder cb)) of
            None \<Rightarrow> Inl BuilderError
          | Some b \<Rightarrow> Inr b))"

definition unmarshalAll :: "(bytes \<Rightarrow> ('a \<times> bytes) option) \<Rightarrow> bytes \<Rightarrow> wire_error + 'a" where
  "unmarshalAll u b =
     (case u b of None \<Rightarrow> Inl ErrMalformed
      | Some (v, s) \<Rightarrow> if s \<noteq> [] then Inl (ErrTrailingData (length s)) else Inr v)"

definition cloneBytes :: "bytes \<Rightarrow> bytes" where
  "cloneBytes s = (if length s = 0 then [] else take (length s) s)"

lemma cloneBytes_id [simp]: "cloneBytes s = s"
  by (simp add: cloneBytes_def)

definition readUint32LengthPrefixed :: "'b cryptobyte \<Rightarrow> bytes \<Rightarrow> (bytes \<times> bytes) option" where
  "readUint32LengthPrefixed cb s =
     (case ReadUint32 cb s of None \<Rightarrow> None
      | Some (n, s) \<Rightarrow> ReadBytes cb (uint n) s)"

text \<open>Writers that cannot fail have type \<open>'b \<Rightarrow> 'b\<close>; \<open>total\<close> gives them the shape of those
  that can.\<close>

definition total :: "('a \<Rightarrow> 'b \<Rightarrow> 'b) \<Rightarrow> 'a \<Rightarrow> wire_error + ('b \<Rightarrow> 'b)" where
  "total m v = Inr (m v)"

subsection \<open>Loops over elements\<close>

text \<open>\<^verbatim>\<open>for i := range xs { if err := xs[i].Marshal(b); err != nil { return err } }\<close>\<close>

primrec marshal_all :: "('a \<Rightarrow> wire_error + ('b \<Rightarrow> 'b)) \<Rightarrow> 'a list \<Rightarrow> wire_error + ('b \<Rightarrow> 'b)" where
  "marshal_all m [] = Inr (emit [])"
| "marshal_all m (x # xs) =
     (case m x of Inl err \<Rightarrow> Inl err
      | Inr f \<Rightarrow> (case marshal_all m xs of Inl err \<Rightarrow> Inl err
          | Inr g \<Rightarrow> Inr (emit [f, g])))"

text \<open>\<^verbatim>\<open>for !s.Empty() { var x T; if !x.Unmarshal(&s) { return false }; out = append(out, x) }\<close>.
  A reader that succeeds without consuming would loop for ever; none of the package's element
  readers does (\<open>elem_codec\<close> below), so the guard that makes the recursion terminate is
  never false.\<close>

function read_all :: "(bytes \<Rightarrow> ('a \<times> bytes) option) \<Rightarrow> bytes \<Rightarrow> 'a list option" where
  "read_all u s =
     (if s = [] then Some []
      else case u s of None \<Rightarrow> None
        | Some (x, t) \<Rightarrow>
            if length t < length s then map_option ((#) x) (read_all u t) else None)"
  by pat_completeness auto
termination
  by (relation "measure (\<lambda>(u, s). length s)") auto

declare read_all.simps [simp del]

lemma read_all_Nil [simp]: "read_all u [] = Some []"
  by (simp add: read_all.simps)

subsection \<open>The contract of a message type\<close>

definition encoding :: "'b cryptobyte \<Rightarrow> ('a \<Rightarrow> wire_error + ('b \<Rightarrow> 'b)) \<Rightarrow> 'a \<Rightarrow> bytes option" where
  "encoding cb m v = (case m v of Inl _ \<Rightarrow> None | Inr f \<Rightarrow> out cb f)"

lemma encoding_total [simp]: "encoding cb (total m) v = out cb (m v)"
  by (simp add: encoding_def total_def)

lemma marshal_Inr_iff: "marshal cb m v = Inr w \<longleftrightarrow> encoding cb m v = Some w"
  by (auto simp: marshal_def encoding_def out_def split: sum.splits option.splits)

lemma unmarshalAll_Inr_iff: "unmarshalAll u w = Inr v \<longleftrightarrow> u w = Some (v, [])"
  by (auto simp: unmarshalAll_def split: option.splits if_splits)

context cryptobyte_laws
begin

lemma read_u32_lp_front [simp, read_simps]:
  "length w < 4294967296 \<Longrightarrow> readUint32LengthPrefixed cb (be 4 (length w) @ w @ s) = Some (w, s)"
proof -
  assume len: "length w < 4294967296"
  then have u: "unat (word_of_nat (length w) :: 32 word) = length w" by (simp add: unat_of_nat)
  have "ReadUint32 cb (be 4 (length w) @ w @ s) = Some (word_of_nat (length w), w @ s)"
    using read_ints(3) [of "word_of_nat (length w)" "w @ s"] unfolding u .
  moreover have "uint (word_of_nat (length w) :: 32 word) = int (length w)"
    using u by (simp only: uint_nat)
  ultimately show ?thesis by (simp add: readUint32LengthPrefixed_def)
qed

lemma read_u32_lp_all [simp, read_simps]:
  "length w < 4294967296 \<Longrightarrow> readUint32LengthPrefixed cb (be 4 (length w) @ w) = Some (w, [])"
  using read_u32_lp_front [of w "[]"] by simp

lemma read_u32_lp_dest:
  assumes "readUint32LengthPrefixed cb s = Some (w, r)"
  shows "length w < 4294967296 \<and> s = be 4 (length w) @ w @ r"
proof -
  obtain n t where n: "ReadUint32 cb s = Some (n, t)" and t: "ReadBytes cb (uint n) t = Some (w, r)"
    using assms by (auto simp: readUint32LengthPrefixed_def split: option.splits)
  have "uint n = int (length w)" and "t = w @ r" using read_bytes_dest(1) [OF t] by auto
  moreover from this have "unat n = length w" by (simp add: unat_eq_nat_uint)
  moreover have "unat n < 4294967296" using unsigned_less [of n] by simp
  ultimately show ?thesis using read_ints_dest(3) [OF n] by simp
qed

lemma with_len_simps [simp]:
  "with_len (Suc 0) r = Some v \<longleftrightarrow> (\<exists>w. r = Some w \<and> length w < 256 \<and> v = be 1 (length w) @ w)"
  "with_len 2 r = Some v \<longleftrightarrow> (\<exists>w. r = Some w \<and> length w < 65536 \<and> v = be 2 (length w) @ w)"
  "with_len 4 r = Some v \<longleftrightarrow> (\<exists>w. r = Some w \<and> length w < 4294967296 \<and> v = be 4 (length w) @ w)"
  by (auto simp: with_len_Some_iff)

end

text \<open>A whole message: decoding the bytes of a message gives the message back, and only they
  do.\<close>

locale message_codec = cryptobyte_laws cb for cb :: "'b cryptobyte" +
  fixes mar :: "'a \<Rightarrow> wire_error + ('b \<Rightarrow> 'b)"
    and unm :: "bytes \<Rightarrow> ('a \<times> bytes) option"
    and wf :: "'a \<Rightarrow> bool"
  assumes mar_writer: "mar v = Inr f \<Longrightarrow> writer cb f"
    and unm_whole: "wf v \<Longrightarrow> encoding cb mar v = Some w \<Longrightarrow> unm w = Some (v, [])"
    and canonical_whole: "unm w = Some (v, []) \<Longrightarrow> wf v \<and> encoding cb mar v = Some w"
begin

lemma roundtrip: "wf v \<Longrightarrow> marshal cb mar v = Inr w \<Longrightarrow> unmarshalAll unm w = Inr v"
  using unm_whole by (simp add: marshal_Inr_iff unmarshalAll_Inr_iff)

lemma canonical: "unmarshalAll unm w = Inr v \<Longrightarrow> wf v \<and> marshal cb mar v = Inr w"
  using canonical_whole by (simp add: marshal_Inr_iff unmarshalAll_Inr_iff)

lemma codec_iff: "wf v \<and> marshal cb mar v = Inr w \<longleftrightarrow> unmarshalAll unm w = Inr v"
  using roundtrip canonical by blast

lemma unique_encoding:
  "wf v \<Longrightarrow> wf v' \<Longrightarrow> marshal cb mar v = Inr w \<Longrightarrow> marshal cb mar v' = Inr w \<Longrightarrow> v = v'"
  using roundtrip [of v w] roundtrip [of v' w] by simp

end

text \<open>A self-delimiting message: whatever follows it is left to the next reader.\<close>

locale wire_codec = cryptobyte_laws cb for cb :: "'b cryptobyte" +
  fixes mar :: "'a \<Rightarrow> wire_error + ('b \<Rightarrow> 'b)"
    and unm :: "bytes \<Rightarrow> ('a \<times> bytes) option"
    and wf :: "'a \<Rightarrow> bool"
  assumes mar_writer: "mar v = Inr f \<Longrightarrow> writer cb f"
    and unm_encoding: "wf v \<Longrightarrow> encoding cb mar v = Some w \<Longrightarrow> unm (w @ r) = Some (v, r)"
    and unm_canonical: "unm s = Some (v, r) \<Longrightarrow>
      wf v \<and> (\<exists>w. encoding cb mar v = Some w \<and> s = w @ r)"

sublocale wire_codec \<subseteq> message_codec cb mar unm wf
proof
  fix v f w
  show "mar v = Inr f \<Longrightarrow> writer cb f" by (rule mar_writer)
  show "wf v \<Longrightarrow> encoding cb mar v = Some w \<Longrightarrow> unm w = Some (v, [])"
    using unm_encoding [of v w "[]"] by simp
  show "unm w = Some (v, []) \<Longrightarrow> wf v \<and> encoding cb mar v = Some w"
    using unm_canonical [of w v "[]"] by auto
qed

context wire_codec
begin

text \<open>The two laws in the form \<open>auto\<close> chains them over the fields of an enclosing message.\<close>

lemma enc_front: "encoding cb mar v = Some w \<Longrightarrow> wf v \<Longrightarrow> \<forall>r. unm (w @ r) = Some (v, r)"
  using unm_encoding by blast

lemma enc_back: "unm s = Some (v, r) \<Longrightarrow>
  wf v \<and> (\<exists>w. encoding cb mar v = Some w \<and> s = w @ r)"
  by (rule unm_canonical)

lemma trailing_rejected:
  "wf v \<Longrightarrow> marshal cb mar v = Inr w \<Longrightarrow> r \<noteq> [] \<Longrightarrow>
   unmarshalAll unm (w @ r) = Inl (ErrTrailingData (length r))"
  using unm_encoding [of v w r] by (simp add: marshal_Inr_iff unmarshalAll_def)

lemma truncated_rejected:
  assumes "wf v" and "marshal cb mar v = Inr (w @ r)" and "r \<noteq> []"
  shows "unmarshalAll unm w = Inl ErrMalformed"
proof (cases "unm w")
  case (Some p)
  obtain v' s where p: "p = (v', s)" by (cases p)
  with Some obtain u where "wf v'" and "encoding cb mar v' = Some u" and w: "w = u @ s"
    using unm_canonical by blast
  then have "unm (u @ s @ r) = Some (v', s @ r)" by (intro unm_encoding)
  moreover have "unm ((w @ r) @ []) = Some (v, [])"
    using assms(1,2) by (intro unm_encoding) (simp_all add: marshal_Inr_iff)
  ultimately show ?thesis using assms(3) w by simp
qed (simp add: unmarshalAll_def)

end

text \<open>An element type's encoding is never empty, so a vector of them can be read back.\<close>

locale elem_codec = wire_codec cb mar unm wf
  for cb :: "'b cryptobyte" and mar :: "'a \<Rightarrow> wire_error + ('b \<Rightarrow> 'b)" and unm and wf +
  assumes nonempty: "encoding cb mar v = Some w \<Longrightarrow> w \<noteq> []"
begin

lemma reader_consumes: "unm s = Some (v, r) \<Longrightarrow> length r < length s"
  using unm_canonical nonempty by fastforce

lemma read_all_step:
  "s \<noteq> [] \<Longrightarrow> read_all unm s =
     (case unm s of None \<Rightarrow> None | Some (x, t) \<Rightarrow> map_option ((#) x) (read_all unm t))"
  by (subst read_all.simps) (auto split: option.split dest: reader_consumes)

lemma marshal_all_writer: "marshal_all mar vs = Inr f \<Longrightarrow> writer cb f"
  by (induction vs arbitrary: f) (auto split: sum.splits dest: mar_writer)

lemma encoding_all_Cons:
  "encoding cb (marshal_all mar) (v # vs) = cat (encoding cb mar v) (encoding cb (marshal_all mar) vs)"
proof (cases "mar v")
  case (Inr f)
  note f = Inr mar_writer [OF Inr]
  show ?thesis
  proof (cases "marshal_all mar vs")
    case (Inr g)
    with f marshal_all_writer [OF Inr] show ?thesis by (simp add: encoding_def)
  qed (simp add: encoding_def f)
qed (simp add: encoding_def)

lemma encoding_all_Nil: "encoding cb (marshal_all mar) [] = Some []"
  by (simp add: encoding_def)

lemma read_all_encoding:
  "list_all wf vs \<Longrightarrow> encoding cb (marshal_all mar) vs = Some w \<Longrightarrow> read_all unm w = Some vs"
proof (induction vs arbitrary: w)
  case Nil
  then show ?case by (simp add: encoding_all_Nil)
next
  case (Cons v vs)
  then obtain a b where a: "encoding cb mar v = Some a" and b: "encoding cb (marshal_all mar) vs = Some b"
    and w: "w = a @ b"
    by (auto simp: encoding_all_Cons cat_Some_iff)
  with Cons.IH Cons.prems have "read_all unm b = Some vs" by simp
  moreover have "unm w = Some (v, b)" unfolding w using Cons.prems a by (intro unm_encoding) simp_all
  moreover have "w \<noteq> []" using nonempty [OF a] w by simp
  ultimately show ?case by (simp add: read_all_step)
qed

lemma read_all_canonical:
  "read_all unm w = Some vs \<Longrightarrow> list_all wf vs \<and> encoding cb (marshal_all mar) vs = Some w"
proof (induction "length w" arbitrary: w vs rule: less_induct)
  case less
  show ?case
  proof (cases "w = []")
    case True
    with less.prems show ?thesis by (simp add: encoding_all_Nil)
  next
    case False
    then obtain v t vs' where v: "unm w = Some (v, t)" and t: "read_all unm t = Some vs'"
      and vs: "vs = v # vs'"
      using less.prems by (auto simp: read_all_step split: option.splits)
    with less.hyps [OF reader_consumes [OF v] t] unm_canonical [OF v] show ?thesis
      by (auto simp: encoding_all_Cons)
  qed
qed

end

lemma marshal_all_total: "\<exists>f. marshal_all (total m) vs = Inr f"
  by (induction vs) (auto simp: total_def)

text \<open>The loop over elements whose writer cannot fail, as the vector helpers of the package
  write it.\<close>

context elem_codec
begin

lemma emit_map_encoding:
  assumes "mar = total m"
  shows "writer cb (emit (map m vs))" and "out cb (emit (map m vs)) = encoding cb (marshal_all mar) vs"
proof -
  have w: "writer cb (m v)" for v using mar_writer [of v "m v"] by (simp add: assms total_def)
  then show "writer cb (emit (map m vs))" by (intro emit_writer) (simp add: list_all_iff)
  show "out cb (emit (map m vs)) = encoding cb (marshal_all mar) vs"
    using w by (induction vs) (simp_all add: encoding_all_Cons encoding_all_Nil list_all_iff, simp add: assms)
qed

end

end
