(* ===== verification/WireTypes.thy ===== *)
theory WireTypes
  imports Codec "HOL-Library.Monad_Syntax"
begin

text \<open>
  \<^verbatim>\<open>pkg/dap/wire/types.go\<close>: the report messages. One record per struct, one \<open>Marshal\<close> and
  one \<open>Unmarshal\<close> per type, in the code's order of fields. A fixed-size byte array is a byte
  list whose length the well-formedness predicate fixes; a writer whose error result is always
  nil has type \<open>'b \<Rightarrow> 'b\<close>.

  Each type is shown to satisfy the codec contract over every implementation of the
  cryptobyte interface (the \<open>sublocale\<close>s).
\<close>

definition ReportIDSize :: nat where "ReportIDSize = 16"
definition TaskIDSize :: nat where "TaskIDSize = 32"

type_synonym report_id = bytes
type_synonym task_id = bytes
type_synonym time = "64 word"
type_synonym hpke_config_id = "8 word"

record extension =
  ext_Type :: "16 word"
  ext_Data :: bytes

record hpke_ciphertext =
  ct_ConfigID :: hpke_config_id
  ct_Enc :: bytes
  ct_Payload :: bytes

record report_metadata =
  md_ReportID :: report_id
  md_Time :: time
  md_PublicExtensions :: "extension list"

record report =
  rp_Metadata :: report_metadata
  rp_PublicShare :: bytes
  rp_LeaderEncryptedInputShare :: hpke_ciphertext
  rp_HelperEncryptedInputShare :: hpke_ciphertext

record plaintext_input_share =
  pis_PrivateExtensions :: "extension list"
  pis_Payload :: bytes

subsection \<open>Identifiers and scalars\<close>

definition ReportID_Marshal :: "'b cryptobyte \<Rightarrow> report_id \<Rightarrow> 'b \<Rightarrow> 'b" where
  "ReportID_Marshal cb r = AddBytes cb r"

definition ReportID_Unmarshal :: "'b cryptobyte \<Rightarrow> bytes \<Rightarrow> (report_id \<times> bytes) option" where
  "ReportID_Unmarshal cb s = CopyBytes cb ReportIDSize s"

definition Time_Marshal :: "'b cryptobyte \<Rightarrow> time \<Rightarrow> 'b \<Rightarrow> 'b" where
  "Time_Marshal cb t = AddUint64 cb t"

definition Time_Unmarshal :: "'b cryptobyte \<Rightarrow> bytes \<Rightarrow> (time \<times> bytes) option" where
  "Time_Unmarshal cb s = ReadUint64 cb s"

definition HpkeConfigID_Marshal :: "'b cryptobyte \<Rightarrow> hpke_config_id \<Rightarrow> 'b \<Rightarrow> 'b" where
  "HpkeConfigID_Marshal cb h = AddUint8 cb h"

definition HpkeConfigID_Unmarshal ::
  "'b cryptobyte \<Rightarrow> bytes \<Rightarrow> (hpke_config_id \<times> bytes) option" where
  "HpkeConfigID_Unmarshal cb s = ReadUint8 cb s"

definition TaskID_Marshal :: "'b cryptobyte \<Rightarrow> task_id \<Rightarrow> 'b \<Rightarrow> 'b" where
  "TaskID_Marshal cb t = AddBytes cb t"

definition TaskID_Unmarshal :: "'b cryptobyte \<Rightarrow> bytes \<Rightarrow> (task_id \<times> bytes) option" where
  "TaskID_Unmarshal cb s = CopyBytes cb TaskIDSize s"

subsection \<open>Extension\<close>

definition Extension_Marshal :: "'b cryptobyte \<Rightarrow> extension \<Rightarrow> 'b \<Rightarrow> 'b" where
  "Extension_Marshal cb e = emit
     [AddUint16 cb (ext_Type e),
      AddUint16LengthPrefixed cb (AddBytes cb (ext_Data e))]"

definition Extension_Unmarshal :: "'b cryptobyte \<Rightarrow> bytes \<Rightarrow> (extension \<times> bytes) option" where
  "Extension_Unmarshal cb s = do {
     (t, s) \<leftarrow> ReadUint16 cb s;
     (data, s) \<leftarrow> ReadUint16LengthPrefixed cb s;
     Some (\<lparr>ext_Type = t, ext_Data = cloneBytes data\<rparr>, s)
   }"

definition marshalExtensionVec :: "'b cryptobyte \<Rightarrow> extension list \<Rightarrow> 'b \<Rightarrow> 'b" where
  "marshalExtensionVec cb exts =
     AddUint16LengthPrefixed cb (emit (map (Extension_Marshal cb) exts))"

definition unmarshalExtensionVec ::
  "'b cryptobyte \<Rightarrow> bytes \<Rightarrow> (extension list \<times> bytes) option" where
  "unmarshalExtensionVec cb s = do {
     (vec, s) \<leftarrow> ReadUint16LengthPrefixed cb s;
     exts \<leftarrow> read_all (Extension_Unmarshal cb) vec;
     Some (exts, s)
   }"

subsection \<open>HpkeCiphertext\<close>

definition HpkeCiphertext_Marshal :: "'b cryptobyte \<Rightarrow> hpke_ciphertext \<Rightarrow> 'b \<Rightarrow> 'b" where
  "HpkeCiphertext_Marshal cb h = emit
     [AddUint8 cb (ct_ConfigID h),
      AddUint16LengthPrefixed cb (AddBytes cb (ct_Enc h)),
      AddUint32LengthPrefixed cb (AddBytes cb (ct_Payload h))]"

definition HpkeCiphertext_Unmarshal ::
  "'b cryptobyte \<Rightarrow> bytes \<Rightarrow> (hpke_ciphertext \<times> bytes) option" where
  "HpkeCiphertext_Unmarshal cb s = do {
     (cfg, s) \<leftarrow> ReadUint8 cb s;
     (enc, s) \<leftarrow> ReadUint16LengthPrefixed cb s;
     (payload, s) \<leftarrow> readUint32LengthPrefixed cb s;
     if length enc = 0 \<or> length payload = 0 then None
     else Some (\<lparr>ct_ConfigID = cfg, ct_Enc = cloneBytes enc, ct_Payload = cloneBytes payload\<rparr>, s)
   }"

subsection \<open>ReportMetadata and Report\<close>

definition ReportMetadata_Marshal :: "'b cryptobyte \<Rightarrow> report_metadata \<Rightarrow> 'b \<Rightarrow> 'b" where
  "ReportMetadata_Marshal cb m = emit
     [ReportID_Marshal cb (md_ReportID m),
      Time_Marshal cb (md_Time m),
      marshalExtensionVec cb (md_PublicExtensions m)]"

definition ReportMetadata_Unmarshal ::
  "'b cryptobyte \<Rightarrow> bytes \<Rightarrow> (report_metadata \<times> bytes) option" where
  "ReportMetadata_Unmarshal cb s = do {
     (rid, s) \<leftarrow> ReportID_Unmarshal cb s;
     (t, s) \<leftarrow> Time_Unmarshal cb s;
     (exts, s) \<leftarrow> unmarshalExtensionVec cb s;
     Some (\<lparr>md_ReportID = rid, md_Time = t, md_PublicExtensions = exts\<rparr>, s)
   }"

definition Report_Marshal :: "'b cryptobyte \<Rightarrow> report \<Rightarrow> 'b \<Rightarrow> 'b" where
  "Report_Marshal cb r = emit
     [ReportMetadata_Marshal cb (rp_Metadata r),
      AddUint32LengthPrefixed cb (AddBytes cb (rp_PublicShare r)),
      HpkeCiphertext_Marshal cb (rp_LeaderEncryptedInputShare r),
      HpkeCiphertext_Marshal cb (rp_HelperEncryptedInputShare r)]"

definition Report_Unmarshal :: "'b cryptobyte \<Rightarrow> bytes \<Rightarrow> (report \<times> bytes) option" where
  "Report_Unmarshal cb s = do {
     (md, s) \<leftarrow> ReportMetadata_Unmarshal cb s;
     (pubShare, s) \<leftarrow> readUint32LengthPrefixed cb s;
     (leader, s) \<leftarrow> HpkeCiphertext_Unmarshal cb s;
     (helper, s) \<leftarrow> HpkeCiphertext_Unmarshal cb s;
     Some (\<lparr>rp_Metadata = md, rp_PublicShare = cloneBytes pubShare,
            rp_LeaderEncryptedInputShare = leader, rp_HelperEncryptedInputShare = helper\<rparr>, s)
   }"

subsection \<open>PlaintextInputShare\<close>

definition PlaintextInputShare_Marshal :: "'b cryptobyte \<Rightarrow> plaintext_input_share \<Rightarrow> 'b \<Rightarrow> 'b" where
  "PlaintextInputShare_Marshal cb p = emit
     [marshalExtensionVec cb (pis_PrivateExtensions p),
      AddUint32LengthPrefixed cb (AddBytes cb (pis_Payload p))]"

definition PlaintextInputShare_Unmarshal ::
  "'b cryptobyte \<Rightarrow> bytes \<Rightarrow> (plaintext_input_share \<times> bytes) option" where
  "PlaintextInputShare_Unmarshal cb s = do {
     (exts, s) \<leftarrow> unmarshalExtensionVec cb s;
     (payload, s) \<leftarrow> readUint32LengthPrefixed cb s;
     if length payload = 0 then None
     else Some (\<lparr>pis_PrivateExtensions = exts, pis_Payload = cloneBytes payload\<rparr>, s)
   }"

subsection \<open>The codec contract\<close>

text \<open>What decoding guarantees of a value, beyond its type: the array sizes and the lower
  bounds the readers enforce.\<close>

definition ct_ok :: "hpke_ciphertext \<Rightarrow> bool" where
  "ct_ok h \<longleftrightarrow> ct_Enc h \<noteq> [] \<and> ct_Payload h \<noteq> []"

definition md_ok :: "report_metadata \<Rightarrow> bool" where
  "md_ok m \<longleftrightarrow> length (md_ReportID m) = ReportIDSize"

definition report_ok :: "report \<Rightarrow> bool" where
  "report_ok r \<longleftrightarrow> md_ok (rp_Metadata r) \<and> ct_ok (rp_LeaderEncryptedInputShare r)
     \<and> ct_ok (rp_HelperEncryptedInputShare r)"

definition pis_ok :: "plaintext_input_share \<Rightarrow> bool" where
  "pis_ok p \<longleftrightarrow> pis_Payload p \<noteq> []"

sublocale cryptobyte_laws \<subseteq> ext:
  elem_codec cb "total (Extension_Marshal cb)" "Extension_Unmarshal cb" "\<lambda>_. True"
proof
  fix v :: extension and f w r s
  show "total (Extension_Marshal cb) v = Inr f \<Longrightarrow> writer cb f"
    by (auto simp: total_def Extension_Marshal_def)
  show "encoding cb (total (Extension_Marshal cb)) v = Some w \<Longrightarrow>
      Extension_Unmarshal cb (w @ r) = Some (v, r)"
    by (auto simp: Extension_Marshal_def Extension_Unmarshal_def cat_Some_iff)
  show "Extension_Unmarshal cb s = Some (v, r) \<Longrightarrow>
      True \<and> (\<exists>w. encoding cb (total (Extension_Marshal cb)) v = Some w \<and> s = w @ r)"
    by (auto simp: Extension_Marshal_def Extension_Unmarshal_def cat_Some_iff bind_eq_Some_conv
        dest!: read_ints_dest read_lp_dest)
  show "encoding cb (total (Extension_Marshal cb)) v = Some w \<Longrightarrow> w \<noteq> []"
    by (auto simp: Extension_Marshal_def cat_Some_iff)
qed

sublocale cryptobyte_laws \<subseteq> extvec:
  wire_codec cb "total (marshalExtensionVec cb)" "unmarshalExtensionVec cb" "\<lambda>_. True"
proof
  fix v :: "extension list" and f w r s
  note vec = ext.emit_map_encoding [OF refl]
  show "total (marshalExtensionVec cb) v = Inr f \<Longrightarrow> writer cb f"
    using vec by (auto simp: total_def marshalExtensionVec_def)
  show "encoding cb (total (marshalExtensionVec cb)) v = Some w \<Longrightarrow>
      unmarshalExtensionVec cb (w @ r) = Some (v, r)"
    using ext.read_all_encoding [of v]
    by (auto simp: marshalExtensionVec_def unmarshalExtensionVec_def vec list_all_iff)
  show "unmarshalExtensionVec cb s = Some (v, r) \<Longrightarrow>
      True \<and> (\<exists>w. encoding cb (total (marshalExtensionVec cb)) v = Some w \<and> s = w @ r)"
    by (auto simp: marshalExtensionVec_def unmarshalExtensionVec_def vec bind_eq_Some_conv
        dest!: read_lp_dest ext.read_all_canonical)
qed

sublocale cryptobyte_laws \<subseteq> ct:
  elem_codec cb "total (HpkeCiphertext_Marshal cb)" "HpkeCiphertext_Unmarshal cb" ct_ok
proof
  fix v :: hpke_ciphertext and f w r s
  show "total (HpkeCiphertext_Marshal cb) v = Inr f \<Longrightarrow> writer cb f"
    by (auto simp: total_def HpkeCiphertext_Marshal_def)
  show "ct_ok v \<Longrightarrow> encoding cb (total (HpkeCiphertext_Marshal cb)) v = Some w \<Longrightarrow>
      HpkeCiphertext_Unmarshal cb (w @ r) = Some (v, r)"
    by (auto simp: HpkeCiphertext_Marshal_def HpkeCiphertext_Unmarshal_def cat_Some_iff ct_ok_def)
  show "HpkeCiphertext_Unmarshal cb s = Some (v, r) \<Longrightarrow>
      ct_ok v \<and> (\<exists>w. encoding cb (total (HpkeCiphertext_Marshal cb)) v = Some w \<and> s = w @ r)"
    by (auto simp: HpkeCiphertext_Marshal_def HpkeCiphertext_Unmarshal_def cat_Some_iff
        bind_eq_Some_conv ct_ok_def split: if_splits
        dest!: read_ints_dest read_lp_dest read_u32_lp_dest)
  show "encoding cb (total (HpkeCiphertext_Marshal cb)) v = Some w \<Longrightarrow> w \<noteq> []"
    by (auto simp: HpkeCiphertext_Marshal_def cat_Some_iff)
qed

sublocale cryptobyte_laws \<subseteq> md:
  elem_codec cb "total (ReportMetadata_Marshal cb)" "ReportMetadata_Unmarshal cb" md_ok
proof
  note defs = ReportMetadata_Marshal_def ReportMetadata_Unmarshal_def ReportID_Marshal_def
    ReportID_Unmarshal_def Time_Marshal_def Time_Unmarshal_def md_ok_def
  have vec: "writer cb (marshalExtensionVec cb v)" for v
    by (rule extvec.mar_writer) (simp add: total_def)
  fix v :: report_metadata and f w r s
  show "total (ReportMetadata_Marshal cb) v = Inr f \<Longrightarrow> writer cb f"
    by (auto simp: total_def defs vec)
  show "md_ok v \<Longrightarrow> encoding cb (total (ReportMetadata_Marshal cb)) v = Some w \<Longrightarrow>
      ReportMetadata_Unmarshal cb (w @ r) = Some (v, r)"
    by (auto simp: defs cat_Some_iff vec dest!: extvec.enc_front [unfolded encoding_total])
  show "ReportMetadata_Unmarshal cb s = Some (v, r) \<Longrightarrow>
      md_ok v \<and> (\<exists>w. encoding cb (total (ReportMetadata_Marshal cb)) v = Some w \<and> s = w @ r)"
    by (auto simp: defs cat_Some_iff bind_eq_Some_conv vec
        dest!: read_ints_dest read_bytes_dest extvec.enc_back [unfolded encoding_total])
  show "encoding cb (total (ReportMetadata_Marshal cb)) v = Some w \<Longrightarrow> w \<noteq> []"
    by (auto simp: defs cat_Some_iff vec)
qed

sublocale cryptobyte_laws \<subseteq> report:
  wire_codec cb "total (Report_Marshal cb)" "Report_Unmarshal cb" report_ok
proof
  note defs = Report_Marshal_def Report_Unmarshal_def report_ok_def
  have md: "writer cb (ReportMetadata_Marshal cb v)" for v
    by (rule md.mar_writer) (simp add: total_def)
  have ct: "writer cb (HpkeCiphertext_Marshal cb v)" for v
    by (rule ct.mar_writer) (simp add: total_def)
  fix v :: report and f w r s
  show "total (Report_Marshal cb) v = Inr f \<Longrightarrow> writer cb f"
    by (auto simp: total_def defs md ct)
  show "report_ok v \<Longrightarrow> encoding cb (total (Report_Marshal cb)) v = Some w \<Longrightarrow>
      Report_Unmarshal cb (w @ r) = Some (v, r)"
    by (auto simp: defs cat_Some_iff md ct
        dest!: md.enc_front [unfolded encoding_total] ct.enc_front [unfolded encoding_total])
  show "Report_Unmarshal cb s = Some (v, r) \<Longrightarrow>
      report_ok v \<and> (\<exists>w. encoding cb (total (Report_Marshal cb)) v = Some w \<and> s = w @ r)"
    by (auto simp: defs cat_Some_iff bind_eq_Some_conv md ct dest!: read_u32_lp_dest
        md.enc_back [unfolded encoding_total] ct.enc_back [unfolded encoding_total])
qed

sublocale cryptobyte_laws \<subseteq> pis:
  wire_codec cb "total (PlaintextInputShare_Marshal cb)" "PlaintextInputShare_Unmarshal cb" pis_ok
proof
  note defs = PlaintextInputShare_Marshal_def PlaintextInputShare_Unmarshal_def pis_ok_def
  have vec: "writer cb (marshalExtensionVec cb v)" for v
    by (rule extvec.mar_writer) (simp add: total_def)
  fix v :: plaintext_input_share and f w r s
  show "total (PlaintextInputShare_Marshal cb) v = Inr f \<Longrightarrow> writer cb f"
    by (auto simp: total_def defs vec)
  show "pis_ok v \<Longrightarrow> encoding cb (total (PlaintextInputShare_Marshal cb)) v = Some w \<Longrightarrow>
      PlaintextInputShare_Unmarshal cb (w @ r) = Some (v, r)"
    by (auto simp: defs cat_Some_iff vec dest!: extvec.enc_front [unfolded encoding_total])
  show "PlaintextInputShare_Unmarshal cb s = Some (v, r) \<Longrightarrow>
      pis_ok v \<and> (\<exists>w. encoding cb (total (PlaintextInputShare_Marshal cb)) v = Some w \<and> s = w @ r)"
    by (auto simp: defs cat_Some_iff bind_eq_Some_conv vec split: if_splits
        dest!: read_u32_lp_dest extvec.enc_back [unfolded encoding_total])
qed

end
