(* ===== verification/WireTask.thy ===== *)
theory WireTask
  imports WireTypes
begin

text \<open>
  \<^verbatim>\<open>pkg/dap/wire/taskconfig.go\<close>, \<^verbatim>\<open>extensions.go\<close>, \<^verbatim>\<open>hpkeconfig.go\<close> and the
  \<open>PartialBatchSelector\<close> of \<^verbatim>\<open>variant.go\<close>: the task parameters that are bound into the
  input-share AAD, the typed extension vectors with the ordering predicate of draft-18, and the
  HPKE configuration list an aggregator publishes. Enumerations read off the wire are kept as
  the machine words the code keeps.
\<close>

subsection \<open>TaskExtension and TaskConfiguration\<close>

record task_extension =
  te_Type :: "16 word"
  te_Data :: bytes

definition VdafTypePrio3Count :: "32 word" where "VdafTypePrio3Count = 1"

record task_configuration =
  tc_Variant :: variant
  tc_TaskInfo :: bytes
  tc_LeaderEndpoint :: bytes
  tc_HelperEndpoint :: bytes
  tc_TimePrecision :: "64 word"
  tc_MinBatchSize :: "64 word"
  tc_BatchMode :: "8 word"
  tc_BatchConfig :: bytes
  tc_VdafType :: "32 word"
  tc_VdafConfiguration :: bytes
  tc_Extensions :: "task_extension list"

definition TaskExtension_Marshal :: "'b cryptobyte \<Rightarrow> task_extension \<Rightarrow> 'b \<Rightarrow> 'b" where
  "TaskExtension_Marshal cb e = emit
     [AddUint16 cb (te_Type e),
      AddUint16LengthPrefixed cb (AddBytes cb (te_Data e))]"

definition TaskExtension_Unmarshal ::
  "'b cryptobyte \<Rightarrow> bytes \<Rightarrow> (task_extension \<times> bytes) option" where
  "TaskExtension_Unmarshal cb s = do {
     (t, s) \<leftarrow> ReadUint16 cb s;
     (data, s) \<leftarrow> ReadUint16LengthPrefixed cb s;
     Some (\<lparr>te_Type = t, te_Data = cloneBytes data\<rparr>, s)
   }"

definition TaskConfiguration_Marshal ::
  "'b cryptobyte \<Rightarrow> task_configuration \<Rightarrow> wire_error + ('b \<Rightarrow> 'b)" where
  "TaskConfiguration_Marshal cb t =
     (if length (tc_TaskInfo t) = 0 \<and> \<not> draft19Values (tc_Variant t)
      then Inl (TaskInfoEmpty (tc_Variant t))
      else if length (tc_TaskInfo t) > 255 then Inl (TaskInfoTooLong (length (tc_TaskInfo t)))
      else Inr (emit
        [AddUint8LengthPrefixed cb (AddBytes cb (tc_TaskInfo t)),
         AddUint16LengthPrefixed cb (AddBytes cb (tc_LeaderEndpoint t)),
         AddUint16LengthPrefixed cb (AddBytes cb (tc_HelperEndpoint t)),
         AddUint64 cb (tc_TimePrecision t),
         AddUint64 cb (tc_MinBatchSize t),
         AddUint8 cb (tc_BatchMode t),
         AddUint16LengthPrefixed cb (AddBytes cb (tc_BatchConfig t)),
         AddUint32 cb (tc_VdafType t),
         AddUint16LengthPrefixed cb (AddBytes cb (tc_VdafConfiguration t)),
         AddUint16LengthPrefixed cb (emit (map (TaskExtension_Marshal cb) (tc_Extensions t)))]))"

text \<open>The receiver's \<open>Variant\<close> is set by the caller before decoding and is not read from the
  wire, so it is an argument.\<close>

definition TaskConfiguration_Unmarshal ::
  "'b cryptobyte \<Rightarrow> variant \<Rightarrow> bytes \<Rightarrow> (task_configuration \<times> bytes) option" where
  "TaskConfiguration_Unmarshal cb variant s = do {
     (taskInfo, s) \<leftarrow> ReadUint8LengthPrefixed cb s;
     if length taskInfo = 0 \<and> \<not> draft19Values variant then None else do {
       (leader, s) \<leftarrow> ReadUint16LengthPrefixed cb s;
       if length leader = 0 then None else do {
         (helper, s) \<leftarrow> ReadUint16LengthPrefixed cb s;
         if length helper = 0 then None else do {
           (timePrecision, s) \<leftarrow> ReadUint64 cb s;
           (minBatchSize, s) \<leftarrow> ReadUint64 cb s;
           (batchMode, s) \<leftarrow> ReadUint8 cb s;
           (batchConfig, s) \<leftarrow> ReadUint16LengthPrefixed cb s;
           (vdafType, s) \<leftarrow> ReadUint32 cb s;
           (vdafConfig, s) \<leftarrow> ReadUint16LengthPrefixed cb s;
           (exts, s) \<leftarrow> ReadUint16LengthPrefixed cb s;
           extensions \<leftarrow> read_all (TaskExtension_Unmarshal cb) exts;
           Some (\<lparr>tc_Variant = variant, tc_TaskInfo = cloneBytes taskInfo,
                  tc_LeaderEndpoint = cloneBytes leader, tc_HelperEndpoint = cloneBytes helper,
                  tc_TimePrecision = timePrecision, tc_MinBatchSize = minBatchSize,
                  tc_BatchMode = batchMode, tc_BatchConfig = cloneBytes batchConfig,
                  tc_VdafType = vdafType, tc_VdafConfiguration = cloneBytes vdafConfig,
                  tc_Extensions = extensions\<rparr>, s)
         }
       }
     }
   }"

definition tc_ok :: "variant \<Rightarrow> task_configuration \<Rightarrow> bool" where
  "tc_ok v t \<longleftrightarrow> tc_Variant t = v \<and> tc_LeaderEndpoint t \<noteq> [] \<and> tc_HelperEndpoint t \<noteq> []"

sublocale cryptobyte_laws \<subseteq> te:
  elem_codec cb "total (TaskExtension_Marshal cb)" "TaskExtension_Unmarshal cb" "\<lambda>_. True"
proof
  note defs = TaskExtension_Marshal_def TaskExtension_Unmarshal_def
  fix v :: task_extension and f w r s
  show "total (TaskExtension_Marshal cb) v = Inr f \<Longrightarrow> writer cb f"
    by (auto simp: total_def defs)
  show "encoding cb (total (TaskExtension_Marshal cb)) v = Some w \<Longrightarrow>
      TaskExtension_Unmarshal cb (w @ r) = Some (v, r)"
    by (auto simp: defs cat_Some_iff)
  show "TaskExtension_Unmarshal cb s = Some (v, r) \<Longrightarrow>
      True \<and> (\<exists>w. encoding cb (total (TaskExtension_Marshal cb)) v = Some w \<and> s = w @ r)"
    by (auto simp: defs cat_Some_iff bind_eq_Some_conv dest!: read_ints_dest read_lp_dest)
  show "encoding cb (total (TaskExtension_Marshal cb)) v = Some w \<Longrightarrow> w \<noteq> []"
    by (auto simp: defs cat_Some_iff)
qed

sublocale cryptobyte_laws \<subseteq> tc:
  elem_codec cb "TaskConfiguration_Marshal cb" "TaskConfiguration_Unmarshal cb vt" "tc_ok vt"
  for vt
proof
  note defs = TaskConfiguration_Marshal_def TaskConfiguration_Unmarshal_def
  note vec = te.emit_map_encoding [OF refl]
  note enc = encoding_def [of cb "TaskConfiguration_Marshal cb"]
  fix v :: task_configuration and f w r s
  show "TaskConfiguration_Marshal cb v = Inr f \<Longrightarrow> writer cb f"
    by (auto simp: defs vec split: if_splits)
  show "tc_ok vt v \<Longrightarrow> encoding cb (TaskConfiguration_Marshal cb) v = Some w \<Longrightarrow>
      TaskConfiguration_Unmarshal cb vt (w @ r) = Some (v, r)"
    by (auto simp: defs enc tc_ok_def cat_Some_iff vec te.read_all_encoding list_all_iff
        split: if_splits)
  show "TaskConfiguration_Unmarshal cb vt s = Some (v, r) \<Longrightarrow>
      tc_ok vt v \<and> (\<exists>w. encoding cb (TaskConfiguration_Marshal cb) v = Some w \<and> s = w @ r)"
    by (auto simp: defs enc tc_ok_def cat_Some_iff bind_eq_Some_conv vec split: if_splits
        dest!: read_ints_dest read_lp_dest te.read_all_canonical)
  show "encoding cb (TaskConfiguration_Marshal cb) v = Some w \<Longrightarrow> w \<noteq> []"
    by (auto simp: defs enc cat_Some_iff vec split: if_splits)
qed

subsection \<open>AggregationJobExtension\<close>

record aggjob_extension =
  aje_Type :: "16 word"
  aje_Data :: bytes

definition AggregationJobExtLeaderSelectedBatchID :: "16 word" where
  "AggregationJobExtLeaderSelectedBatchID = 1"

definition BatchIDSize :: nat where "BatchIDSize = 32"

definition AggregationJobExtension_Marshal :: "'b cryptobyte \<Rightarrow> aggjob_extension \<Rightarrow> 'b \<Rightarrow> 'b" where
  "AggregationJobExtension_Marshal cb e = emit
     [AddUint16 cb (aje_Type e),
      AddUint16LengthPrefixed cb (AddBytes cb (aje_Data e))]"

definition AggregationJobExtension_Unmarshal ::
  "'b cryptobyte \<Rightarrow> bytes \<Rightarrow> (aggjob_extension \<times> bytes) option" where
  "AggregationJobExtension_Unmarshal cb s = do {
     (t, s) \<leftarrow> ReadUint16 cb s;
     (data, s) \<leftarrow> ReadUint16LengthPrefixed cb s;
     Some (\<lparr>aje_Type = t, aje_Data = cloneBytes data\<rparr>, s)
   }"

text \<open>\<open>BatchID\<close>: the identifier and whether there is one, an all-zero array where there is not.\<close>

definition AggregationJobExtension_BatchID :: "aggjob_extension \<Rightarrow> bytes \<times> bool" where
  "AggregationJobExtension_BatchID e =
     (if aje_Type e \<noteq> AggregationJobExtLeaderSelectedBatchID \<or> length (aje_Data e) \<noteq> BatchIDSize
      then (replicate BatchIDSize 0, False)
      else (aje_Data e, True))"

definition LeaderSelectedBatchIDExtension :: "bytes \<Rightarrow> aggjob_extension" where
  "LeaderSelectedBatchIDExtension batchID =
     \<lparr>aje_Type = AggregationJobExtLeaderSelectedBatchID, aje_Data = batchID\<rparr>"

definition marshalAggJobExtVec :: "'b cryptobyte \<Rightarrow> aggjob_extension list \<Rightarrow> 'b \<Rightarrow> 'b" where
  "marshalAggJobExtVec cb exts =
     AddUint16LengthPrefixed cb (emit (map (AggregationJobExtension_Marshal cb) exts))"

definition unmarshalAggJobExtVec ::
  "'b cryptobyte \<Rightarrow> bytes \<Rightarrow> (aggjob_extension list \<times> bytes) option" where
  "unmarshalAggJobExtVec cb s = do {
     (vec, s) \<leftarrow> ReadUint16LengthPrefixed cb s;
     out \<leftarrow> read_all (AggregationJobExtension_Unmarshal cb) vec;
     Some (out, s)
   }"

text \<open>The two ordering predicates compare each entry with the one before it.\<close>

fun StrictlyIncreasingAggJobExtensions :: "aggjob_extension list \<Rightarrow> bool" where
  "StrictlyIncreasingAggJobExtensions (d # e # exts) =
     (if aje_Type e \<le> aje_Type d then False else StrictlyIncreasingAggJobExtensions (e # exts))"
| "StrictlyIncreasingAggJobExtensions _ = True"

fun StrictlyIncreasingExtensions :: "extension list \<Rightarrow> bool" where
  "StrictlyIncreasingExtensions (d # e # exts) =
     (if ext_Type e \<le> ext_Type d then False else StrictlyIncreasingExtensions (e # exts))"
| "StrictlyIncreasingExtensions _ = True"

text \<open>Adjacent comparison is enough for the order of the whole vector, duplicates excluded.\<close>

lemma StrictlyIncreasingAggJobExtensions_iff:
  "StrictlyIncreasingAggJobExtensions exts \<longleftrightarrow> sorted_wrt (<) (map aje_Type exts)"
  by (induction exts rule: StrictlyIncreasingAggJobExtensions.induct) (auto simp: not_le)

lemma StrictlyIncreasingExtensions_iff:
  "StrictlyIncreasingExtensions exts \<longleftrightarrow> sorted_wrt (<) (map ext_Type exts)"
  by (induction exts rule: StrictlyIncreasingExtensions.induct) (auto simp: not_le)

lemma BatchID_LeaderSelectedBatchIDExtension:
  "length b = BatchIDSize \<Longrightarrow>
   AggregationJobExtension_BatchID (LeaderSelectedBatchIDExtension b) = (b, True)"
  by (simp add: AggregationJobExtension_BatchID_def LeaderSelectedBatchIDExtension_def)

lemma BatchID_Some_iff:
  "AggregationJobExtension_BatchID e = (b, True) \<longleftrightarrow>
   length b = BatchIDSize \<and> e = LeaderSelectedBatchIDExtension b"
  by (cases e) (auto simp: AggregationJobExtension_BatchID_def LeaderSelectedBatchIDExtension_def)

sublocale cryptobyte_laws \<subseteq> aje:
  elem_codec cb "total (AggregationJobExtension_Marshal cb)" "AggregationJobExtension_Unmarshal cb"
    "\<lambda>_. True"
proof
  note defs = AggregationJobExtension_Marshal_def AggregationJobExtension_Unmarshal_def
  fix v :: aggjob_extension and f w r s
  show "total (AggregationJobExtension_Marshal cb) v = Inr f \<Longrightarrow> writer cb f"
    by (auto simp: total_def defs)
  show "encoding cb (total (AggregationJobExtension_Marshal cb)) v = Some w \<Longrightarrow>
      AggregationJobExtension_Unmarshal cb (w @ r) = Some (v, r)"
    by (auto simp: defs cat_Some_iff)
  show "AggregationJobExtension_Unmarshal cb s = Some (v, r) \<Longrightarrow> True \<and>
      (\<exists>w. encoding cb (total (AggregationJobExtension_Marshal cb)) v = Some w \<and> s = w @ r)"
    by (auto simp: defs cat_Some_iff bind_eq_Some_conv dest!: read_ints_dest read_lp_dest)
  show "encoding cb (total (AggregationJobExtension_Marshal cb)) v = Some w \<Longrightarrow> w \<noteq> []"
    by (auto simp: defs cat_Some_iff)
qed

sublocale cryptobyte_laws \<subseteq> ajevec:
  wire_codec cb "total (marshalAggJobExtVec cb)" "unmarshalAggJobExtVec cb" "\<lambda>_. True"
proof
  fix v :: "aggjob_extension list" and f w r s
  note vec = aje.emit_map_encoding [OF refl]
  note defs = marshalAggJobExtVec_def unmarshalAggJobExtVec_def
  show "total (marshalAggJobExtVec cb) v = Inr f \<Longrightarrow> writer cb f"
    using vec by (auto simp: total_def defs)
  show "encoding cb (total (marshalAggJobExtVec cb)) v = Some w \<Longrightarrow>
      unmarshalAggJobExtVec cb (w @ r) = Some (v, r)"
    using aje.read_all_encoding [of v] by (auto simp: defs vec list_all_iff)
  show "unmarshalAggJobExtVec cb s = Some (v, r) \<Longrightarrow>
      True \<and> (\<exists>w. encoding cb (total (marshalAggJobExtVec cb)) v = Some w \<and> s = w @ r)"
    by (auto simp: defs vec bind_eq_Some_conv dest!: read_lp_dest aje.read_all_canonical)
qed

subsection \<open>HpkeConfig and HpkeConfigList\<close>

record hpke_config =
  hc_ID :: hpke_config_id
  hc_KemID :: "16 word"
  hc_KdfID :: "16 word"
  hc_AeadID :: "16 word"
  hc_PublicKey :: bytes

definition HpkeConfig_Marshal :: "'b cryptobyte \<Rightarrow> hpke_config \<Rightarrow> 'b \<Rightarrow> 'b" where
  "HpkeConfig_Marshal cb h = emit
     [AddUint8 cb (hc_ID h),
      AddUint16 cb (hc_KemID h),
      AddUint16 cb (hc_KdfID h),
      AddUint16 cb (hc_AeadID h),
      AddUint16LengthPrefixed cb (AddBytes cb (hc_PublicKey h))]"

definition HpkeConfig_Unmarshal :: "'b cryptobyte \<Rightarrow> bytes \<Rightarrow> (hpke_config \<times> bytes) option" where
  "HpkeConfig_Unmarshal cb s = do {
     (i, s) \<leftarrow> ReadUint8 cb s;
     (kem, s) \<leftarrow> ReadUint16 cb s;
     (kdf, s) \<leftarrow> ReadUint16 cb s;
     (aead, s) \<leftarrow> ReadUint16 cb s;
     (pub, s) \<leftarrow> ReadUint16LengthPrefixed cb s;
     if length pub = 0 then None
     else Some (\<lparr>hc_ID = i, hc_KemID = kem, hc_KdfID = kdf, hc_AeadID = aead,
                 hc_PublicKey = cloneBytes pub\<rparr>, s)
   }"

definition HpkeConfigList_Marshal :: "'b cryptobyte \<Rightarrow> hpke_config list \<Rightarrow> 'b \<Rightarrow> 'b" where
  "HpkeConfigList_Marshal cb configs =
     AddUint16LengthPrefixed cb (emit (map (HpkeConfig_Marshal cb) configs))"

definition HpkeConfigList_Unmarshal ::
  "'b cryptobyte \<Rightarrow> bytes \<Rightarrow> (hpke_config list \<times> bytes) option" where
  "HpkeConfigList_Unmarshal cb s = do {
     (vec, s) \<leftarrow> ReadUint16LengthPrefixed cb s;
     configs \<leftarrow> read_all (HpkeConfig_Unmarshal cb) vec;
     Some (configs, s)
   }"

definition hc_ok :: "hpke_config \<Rightarrow> bool" where
  "hc_ok h \<longleftrightarrow> hc_PublicKey h \<noteq> []"

sublocale cryptobyte_laws \<subseteq> hc:
  elem_codec cb "total (HpkeConfig_Marshal cb)" "HpkeConfig_Unmarshal cb" hc_ok
proof
  note defs = HpkeConfig_Marshal_def HpkeConfig_Unmarshal_def hc_ok_def
  fix v :: hpke_config and f w r s
  show "total (HpkeConfig_Marshal cb) v = Inr f \<Longrightarrow> writer cb f"
    by (auto simp: total_def defs)
  show "hc_ok v \<Longrightarrow> encoding cb (total (HpkeConfig_Marshal cb)) v = Some w \<Longrightarrow>
      HpkeConfig_Unmarshal cb (w @ r) = Some (v, r)"
    by (auto simp: defs cat_Some_iff)
  show "HpkeConfig_Unmarshal cb s = Some (v, r) \<Longrightarrow>
      hc_ok v \<and> (\<exists>w. encoding cb (total (HpkeConfig_Marshal cb)) v = Some w \<and> s = w @ r)"
    by (auto simp: defs cat_Some_iff bind_eq_Some_conv split: if_splits
        dest!: read_ints_dest read_lp_dest)
  show "encoding cb (total (HpkeConfig_Marshal cb)) v = Some w \<Longrightarrow> w \<noteq> []"
    by (auto simp: defs cat_Some_iff)
qed

sublocale cryptobyte_laws \<subseteq> hcl:
  wire_codec cb "total (HpkeConfigList_Marshal cb)" "HpkeConfigList_Unmarshal cb" "list_all hc_ok"
proof
  fix v :: "hpke_config list" and f w r s
  note vec = hc.emit_map_encoding [OF refl]
  note defs = HpkeConfigList_Marshal_def HpkeConfigList_Unmarshal_def
  show "total (HpkeConfigList_Marshal cb) v = Inr f \<Longrightarrow> writer cb f"
    using vec by (auto simp: total_def defs)
  show "list_all hc_ok v \<Longrightarrow> encoding cb (total (HpkeConfigList_Marshal cb)) v = Some w \<Longrightarrow>
      HpkeConfigList_Unmarshal cb (w @ r) = Some (v, r)"
    using hc.read_all_encoding [of v] by (auto simp: defs vec)
  show "HpkeConfigList_Unmarshal cb s = Some (v, r) \<Longrightarrow> list_all hc_ok v \<and>
      (\<exists>w. encoding cb (total (HpkeConfigList_Marshal cb)) v = Some w \<and> s = w @ r)"
    by (auto simp: defs vec bind_eq_Some_conv dest!: read_lp_dest hc.read_all_canonical)
qed

end
