(* ===== verification/WireBatch.thy ===== *)
theory WireBatch
  imports WireTask
begin

text \<open>
  \<^verbatim>\<open>pkg/dap/wire/pingpong.go\<close> (the VDAF ping-pong envelope), the \<open>PartialBatchSelector\<close> of
  \<^verbatim>\<open>variant.go\<close> and \<^verbatim>\<open>aggshare.go\<close> (the aggregate-share exchange).
\<close>

subsection \<open>PingPongMessage\<close>

record ping_pong_message =
  pp_Type :: "8 word"
  pp_VerifierMessage :: bytes
  pp_VerifierShare :: bytes

abbreviation PingPongInitialize :: "8 word" where "PingPongInitialize \<equiv> 0"
abbreviation PingPongContinue :: "8 word" where "PingPongContinue \<equiv> 1"
abbreviation PingPongFinish :: "8 word" where "PingPongFinish \<equiv> 2"

definition PingPongMessage_Marshal ::
  "'b cryptobyte \<Rightarrow> ping_pong_message \<Rightarrow> wire_error + ('b \<Rightarrow> 'b)" where
  "PingPongMessage_Marshal cb m =
     (if pp_Type m = PingPongInitialize then Inr (emit
        [AddUint8 cb (pp_Type m),
         AddUint32LengthPrefixed cb (AddBytes cb (pp_VerifierShare m))])
      else if pp_Type m = PingPongContinue then Inr (emit
        [AddUint8 cb (pp_Type m),
         AddUint32LengthPrefixed cb (AddBytes cb (pp_VerifierMessage m)),
         AddUint32LengthPrefixed cb (AddBytes cb (pp_VerifierShare m))])
      else if pp_Type m = PingPongFinish then Inr (emit
        [AddUint8 cb (pp_Type m),
         AddUint32LengthPrefixed cb (AddBytes cb (pp_VerifierMessage m))])
      else Inl (UnknownPingPongType (pp_Type m)))"

definition PingPongMessage_Unmarshal ::
  "'b cryptobyte \<Rightarrow> bytes \<Rightarrow> (ping_pong_message \<times> bytes) option" where
  "PingPongMessage_Unmarshal cb s = do {
     (t, s) \<leftarrow> ReadUint8 cb s;
     if t = PingPongInitialize then do {
       (share, s) \<leftarrow> readUint32LengthPrefixed cb s;
       Some (\<lparr>pp_Type = t, pp_VerifierMessage = [], pp_VerifierShare = cloneBytes share\<rparr>, s)
     } else if t = PingPongContinue then do {
       (msg, s) \<leftarrow> readUint32LengthPrefixed cb s;
       (share, s) \<leftarrow> readUint32LengthPrefixed cb s;
       Some (\<lparr>pp_Type = t, pp_VerifierMessage = cloneBytes msg,
              pp_VerifierShare = cloneBytes share\<rparr>, s)
     } else if t = PingPongFinish then do {
       (msg, s) \<leftarrow> readUint32LengthPrefixed cb s;
       Some (\<lparr>pp_Type = t, pp_VerifierMessage = cloneBytes msg, pp_VerifierShare = []\<rparr>, s)
     } else None
   }"

text \<open>A decoded message carries only the fields of its type.\<close>

definition pp_ok :: "ping_pong_message \<Rightarrow> bool" where
  "pp_ok m \<longleftrightarrow> (pp_Type m = PingPongInitialize \<longrightarrow> pp_VerifierMessage m = [])
     \<and> (pp_Type m = PingPongFinish \<longrightarrow> pp_VerifierShare m = [])"

sublocale cryptobyte_laws \<subseteq> pp:
  wire_codec cb "PingPongMessage_Marshal cb" "PingPongMessage_Unmarshal cb" pp_ok
proof
  note defs = PingPongMessage_Marshal_def PingPongMessage_Unmarshal_def encoding_def pp_ok_def
  fix v :: ping_pong_message and f w r s
  show "PingPongMessage_Marshal cb v = Inr f \<Longrightarrow> writer cb f"
    by (auto simp: defs split: if_splits)
  show "pp_ok v \<Longrightarrow> encoding cb (PingPongMessage_Marshal cb) v = Some w \<Longrightarrow>
      PingPongMessage_Unmarshal cb (w @ r) = Some (v, r)"
    by (cases v) (auto simp: defs cat_Some_iff split: if_splits)
  show "PingPongMessage_Unmarshal cb s = Some (v, r) \<Longrightarrow> pp_ok v \<and>
      (\<exists>w. encoding cb (PingPongMessage_Marshal cb) v = Some w \<and> s = w @ r)"
    by (auto simp: defs cat_Some_iff bind_eq_Some_conv split: if_splits
        dest!: read_ints_dest read_u32_lp_dest)
qed

subsection \<open>PartialBatchSelector and BatchSelector\<close>

record partial_batch_selector =
  pbs_BatchMode :: "8 word"
  pbs_Config :: bytes

record batch_selector =
  bs_BatchMode :: "8 word"
  bs_Identifier :: bytes

definition PartialBatchSelector_Marshal ::
  "'b cryptobyte \<Rightarrow> partial_batch_selector \<Rightarrow> 'b \<Rightarrow> 'b" where
  "PartialBatchSelector_Marshal cb p = emit
     [AddUint8 cb (pbs_BatchMode p),
      AddUint16LengthPrefixed cb (AddBytes cb (pbs_Config p))]"

definition PartialBatchSelector_Unmarshal ::
  "'b cryptobyte \<Rightarrow> bytes \<Rightarrow> (partial_batch_selector \<times> bytes) option" where
  "PartialBatchSelector_Unmarshal cb s = do {
     (mode, s) \<leftarrow> ReadUint8 cb s;
     (cfg, s) \<leftarrow> ReadUint16LengthPrefixed cb s;
     Some (\<lparr>pbs_BatchMode = mode, pbs_Config = cloneBytes cfg\<rparr>, s)
   }"

definition BatchSelector_Marshal :: "'b cryptobyte \<Rightarrow> batch_selector \<Rightarrow> 'b \<Rightarrow> 'b" where
  "BatchSelector_Marshal cb b = emit
     [AddUint8 cb (bs_BatchMode b),
      AddUint16LengthPrefixed cb (AddBytes cb (bs_Identifier b))]"

definition BatchSelector_Unmarshal ::
  "'b cryptobyte \<Rightarrow> bytes \<Rightarrow> (batch_selector \<times> bytes) option" where
  "BatchSelector_Unmarshal cb s = do {
     (mode, s) \<leftarrow> ReadUint8 cb s;
     (ident, s) \<leftarrow> ReadUint16LengthPrefixed cb s;
     Some (\<lparr>bs_BatchMode = mode, bs_Identifier = cloneBytes ident\<rparr>, s)
   }"

sublocale cryptobyte_laws \<subseteq> pbs:
  wire_codec cb "total (PartialBatchSelector_Marshal cb)" "PartialBatchSelector_Unmarshal cb" "\<lambda>_. True"
proof
  note defs = PartialBatchSelector_Marshal_def PartialBatchSelector_Unmarshal_def
  fix v :: partial_batch_selector and f w r s
  show "total (PartialBatchSelector_Marshal cb) v = Inr f \<Longrightarrow> writer cb f"
    by (auto simp: total_def defs)
  show "encoding cb (total (PartialBatchSelector_Marshal cb)) v = Some w \<Longrightarrow>
      PartialBatchSelector_Unmarshal cb (w @ r) = Some (v, r)"
    by (auto simp: defs cat_Some_iff)
  show "PartialBatchSelector_Unmarshal cb s = Some (v, r) \<Longrightarrow> True \<and>
      (\<exists>w. encoding cb (total (PartialBatchSelector_Marshal cb)) v = Some w \<and> s = w @ r)"
    by (auto simp: defs cat_Some_iff bind_eq_Some_conv dest!: read_ints_dest read_lp_dest)
qed

sublocale cryptobyte_laws \<subseteq> bs:
  wire_codec cb "total (BatchSelector_Marshal cb)" "BatchSelector_Unmarshal cb" "\<lambda>_. True"
proof
  note defs = BatchSelector_Marshal_def BatchSelector_Unmarshal_def
  fix v :: batch_selector and f w r s
  show "total (BatchSelector_Marshal cb) v = Inr f \<Longrightarrow> writer cb f"
    by (auto simp: total_def defs)
  show "encoding cb (total (BatchSelector_Marshal cb)) v = Some w \<Longrightarrow>
      BatchSelector_Unmarshal cb (w @ r) = Some (v, r)"
    by (auto simp: defs cat_Some_iff)
  show "BatchSelector_Unmarshal cb s = Some (v, r) \<Longrightarrow> True \<and>
      (\<exists>w. encoding cb (total (BatchSelector_Marshal cb)) v = Some w \<and> s = w @ r)"
    by (auto simp: defs cat_Some_iff bind_eq_Some_conv dest!: read_ints_dest read_lp_dest)
qed

subsection \<open>AggregateShareReq, AggregateShareAad, AggregateShare\<close>

definition ReportIDChecksumSize :: nat where "ReportIDChecksumSize = 32"

record aggregate_share_req =
  asr_BatchSelector :: batch_selector
  asr_AggParam :: bytes
  asr_ReportCount :: "64 word"
  asr_Checksum :: bytes

record aggregate_share_aad =
  asa_TaskID :: task_id
  asa_AggParam :: bytes
  asa_BatchSelector :: batch_selector

definition AggregateShareReq_Marshal :: "'b cryptobyte \<Rightarrow> aggregate_share_req \<Rightarrow> 'b \<Rightarrow> 'b" where
  "AggregateShareReq_Marshal cb a = emit
     [BatchSelector_Marshal cb (asr_BatchSelector a),
      AddUint32LengthPrefixed cb (AddBytes cb (asr_AggParam a)),
      AddUint64 cb (asr_ReportCount a),
      AddBytes cb (asr_Checksum a)]"

definition AggregateShareReq_Unmarshal ::
  "'b cryptobyte \<Rightarrow> bytes \<Rightarrow> (aggregate_share_req \<times> bytes) option" where
  "AggregateShareReq_Unmarshal cb s = do {
     (sel, s) \<leftarrow> BatchSelector_Unmarshal cb s;
     (ap, s) \<leftarrow> readUint32LengthPrefixed cb s;
     (n, s) \<leftarrow> ReadUint64 cb s;
     (sum, s) \<leftarrow> CopyBytes cb ReportIDChecksumSize s;
     Some (\<lparr>asr_BatchSelector = sel, asr_AggParam = cloneBytes ap, asr_ReportCount = n,
            asr_Checksum = sum\<rparr>, s)
   }"

definition AggregateShareAad_Marshal :: "'b cryptobyte \<Rightarrow> aggregate_share_aad \<Rightarrow> 'b \<Rightarrow> 'b" where
  "AggregateShareAad_Marshal cb a = emit
     [TaskID_Marshal cb (asa_TaskID a),
      AddUint32LengthPrefixed cb (AddBytes cb (asa_AggParam a)),
      BatchSelector_Marshal cb (asa_BatchSelector a)]"

definition AggregateShare_Marshal :: "'b cryptobyte \<Rightarrow> hpke_ciphertext \<Rightarrow> 'b \<Rightarrow> 'b" where
  "AggregateShare_Marshal cb a = HpkeCiphertext_Marshal cb a"

definition AggregateShare_Unmarshal ::
  "'b cryptobyte \<Rightarrow> bytes \<Rightarrow> (hpke_ciphertext \<times> bytes) option" where
  "AggregateShare_Unmarshal cb s = HpkeCiphertext_Unmarshal cb s"

definition asr_ok :: "aggregate_share_req \<Rightarrow> bool" where
  "asr_ok a \<longleftrightarrow> length (asr_Checksum a) = ReportIDChecksumSize"

sublocale cryptobyte_laws \<subseteq> asr:
  wire_codec cb "total (AggregateShareReq_Marshal cb)" "AggregateShareReq_Unmarshal cb" asr_ok
proof
  note defs = AggregateShareReq_Marshal_def AggregateShareReq_Unmarshal_def asr_ok_def
  have sel: "writer cb (BatchSelector_Marshal cb b)" for b
    by (rule bs.mar_writer) (simp add: total_def)
  fix v :: aggregate_share_req and f w r s
  show "total (AggregateShareReq_Marshal cb) v = Inr f \<Longrightarrow> writer cb f"
    by (auto simp: total_def defs sel)
  show "asr_ok v \<Longrightarrow> encoding cb (total (AggregateShareReq_Marshal cb)) v = Some w \<Longrightarrow>
      AggregateShareReq_Unmarshal cb (w @ r) = Some (v, r)"
    by (auto simp: defs cat_Some_iff sel dest!: bs.enc_front [unfolded encoding_total])
  show "AggregateShareReq_Unmarshal cb s = Some (v, r) \<Longrightarrow> asr_ok v \<and>
      (\<exists>w. encoding cb (total (AggregateShareReq_Marshal cb)) v = Some w \<and> s = w @ r)"
    by (auto simp: defs cat_Some_iff bind_eq_Some_conv sel
        dest!: read_ints_dest read_bytes_dest read_u32_lp_dest bs.enc_back [unfolded encoding_total])
qed

text \<open>The AAD of an encrypted aggregate share is never parsed, but it must bind its fields:
  equal bytes mean equal fields.\<close>

context cryptobyte_laws
begin

lemma AggregateShareAad_injective:
  assumes "length (asa_TaskID a) = TaskIDSize" and "length (asa_TaskID a') = TaskIDSize"
    and "marshal cb (total (AggregateShareAad_Marshal cb)) a = Inr w"
    and "marshal cb (total (AggregateShareAad_Marshal cb)) a' = Inr w"
  shows "a = a'"
proof -
  have sel: "writer cb (BatchSelector_Marshal cb b)" for b
    by (rule bs.mar_writer) (simp add: total_def)
  have "\<exists>u. out cb (BatchSelector_Marshal cb (asa_BatchSelector a)) = Some u
      \<and> w = asa_TaskID a @ be 4 (length (asa_AggParam a)) @ asa_AggParam a @ u
      \<and> length (asa_AggParam a) < 4294967296"
    if "marshal cb (total (AggregateShareAad_Marshal cb)) a = Inr w" for a
    using that by (auto simp: marshal_Inr_iff AggregateShareAad_Marshal_def TaskID_Marshal_def
        cat_Some_iff sel)
  from this [OF assms(3)] this [OF assms(4)] obtain u u' where
    u: "out cb (BatchSelector_Marshal cb (asa_BatchSelector a)) = Some u"
      "out cb (BatchSelector_Marshal cb (asa_BatchSelector a')) = Some u'"
    and w: "w = asa_TaskID a @ be 4 (length (asa_AggParam a)) @ asa_AggParam a @ u"
      "w = asa_TaskID a' @ be 4 (length (asa_AggParam a')) @ asa_AggParam a' @ u'"
    and len: "length (asa_AggParam a) < 4294967296" "length (asa_AggParam a') < 4294967296"
    by blast
  from w assms(1,2) have task: "asa_TaskID a = asa_TaskID a'"
    and rest: "be 4 (length (asa_AggParam a)) @ asa_AggParam a @ u
       = be 4 (length (asa_AggParam a')) @ asa_AggParam a' @ u'" by auto
  have "Some (asa_AggParam a, u) = Some (asa_AggParam a', u')"
    using read_u32_lp_front [OF len(1), of u, unfolded rest] read_u32_lp_front [OF len(2), of u']
    by (rule trans [OF sym])
  then have param: "asa_AggParam a = asa_AggParam a'" and "u = u'" by (simp_all only: option.inject prod.inject)
  from \<open>u = u'\<close> u have "asa_BatchSelector a = asa_BatchSelector a'"
    using bs.unm_encoding [of "asa_BatchSelector a" u "[]"]
      bs.unm_encoding [of "asa_BatchSelector a'" u' "[]"] by simp
  with task param show ?thesis by simp
qed

end

end
