(* ===== verification/WireAgg.thy ===== *)
theory WireAgg
  imports WireBatch "HOL-Library.Multiset"
begin

text \<open>
  \<^verbatim>\<open>pkg/dap/wire/aggregation.go\<close>: the aggregation sub-protocol. Every message whose shape or
  code points depend on the draft carries its \<open>variant\<close>; on decode the variant is the
  receiver's, set by the caller, so it is an argument of the reader.
\<close>

abbreviation BatchModeReserved :: "8 word" where "BatchModeReserved \<equiv> 0"
abbreviation BatchModeTimeInterval :: "8 word" where "BatchModeTimeInterval \<equiv> 1"
abbreviation BatchModeLeaderSelected :: "8 word" where "BatchModeLeaderSelected \<equiv> 2"

abbreviation VerifyRespContinue :: "8 word" where "VerifyRespContinue \<equiv> 0"
abbreviation VerifyRespFinish :: "8 word" where "VerifyRespFinish \<equiv> 1"
abbreviation VerifyRespReject :: "8 word" where "VerifyRespReject \<equiv> 2"

subsection \<open>ReportError and its two registries\<close>

type_synonym report_error = "8 word"

abbreviation ReportErrorReserved :: report_error where "ReportErrorReserved \<equiv> 0"
abbreviation ReportErrorBatchCollected :: report_error where "ReportErrorBatchCollected \<equiv> 1"
abbreviation ReportErrorReportReplayed :: report_error where "ReportErrorReportReplayed \<equiv> 2"
abbreviation ReportErrorReportDropped :: report_error where "ReportErrorReportDropped \<equiv> 3"
abbreviation ReportErrorHpkeUnknownConfigID :: report_error where
  "ReportErrorHpkeUnknownConfigID \<equiv> 4"
abbreviation ReportErrorHpkeDecryptError :: report_error where "ReportErrorHpkeDecryptError \<equiv> 5"
abbreviation ReportErrorVdafVerifyError :: report_error where "ReportErrorVdafVerifyError \<equiv> 6"
abbreviation ReportErrorTaskExpired :: report_error where "ReportErrorTaskExpired \<equiv> 7"
abbreviation ReportErrorInvalidMessage :: report_error where "ReportErrorInvalidMessage \<equiv> 8"
abbreviation ReportErrorReportTooEarly :: report_error where "ReportErrorReportTooEarly \<equiv> 9"
abbreviation ReportErrorTaskNotStarted :: report_error where "ReportErrorTaskNotStarted \<equiv> 10"
abbreviation ReportErrorOutdatedConfig :: report_error where "ReportErrorOutdatedConfig \<equiv> 11"
abbreviation ReportErrorUnknownVerificationKeyID :: report_error where
  "ReportErrorUnknownVerificationKeyID \<equiv> 12"
abbreviation ReportErrorUnsupportedExtension :: report_error where
  "ReportErrorUnsupportedExtension \<equiv> 13"

text \<open>A Go map literal as its list of entries.\<close>

definition reportError19 :: "(report_error \<times> 8 word) list" where
  "reportError19 =
    [(ReportErrorReserved, 0), (ReportErrorBatchCollected, 1), (ReportErrorReportReplayed, 2),
     (ReportErrorReportDropped, 3), (ReportErrorHpkeUnknownConfigID, 4),
     (ReportErrorHpkeDecryptError, 5), (ReportErrorVdafVerifyError, 6),
     (ReportErrorInvalidMessage, 7), (ReportErrorReportTooEarly, 8),
     (ReportErrorUnknownVerificationKeyID, 9), (ReportErrorUnsupportedExtension, 10)]"

definition reportError18 :: "(report_error \<times> 8 word) list" where
  "reportError18 =
    [(ReportErrorReserved, 0), (ReportErrorBatchCollected, 1), (ReportErrorReportReplayed, 2),
     (ReportErrorReportDropped, 3), (ReportErrorHpkeUnknownConfigID, 4),
     (ReportErrorHpkeDecryptError, 5), (ReportErrorVdafVerifyError, 6),
     (ReportErrorTaskExpired, 7), (ReportErrorInvalidMessage, 8), (ReportErrorReportTooEarly, 9),
     (ReportErrorTaskNotStarted, 10), (ReportErrorOutdatedConfig, 11)]"

definition reportErrorTable :: "variant \<Rightarrow> (report_error \<times> 8 word) list" where
  "reportErrorTable v = (if draft19Values v then reportError19 else reportError18)"

definition reportErrorToWire :: "report_error \<Rightarrow> variant \<Rightarrow> 8 word option" where
  "reportErrorToWire e v = map_of (reportErrorTable v) e"

text \<open>The code ranges over the map in an unspecified order and returns the first match;
  \<open>reportErrorFromWire_order\<close> shows that the order does not matter.\<close>

definition rangeFor :: "8 word \<Rightarrow> (report_error \<times> 8 word) list \<Rightarrow> report_error option" where
  "rangeFor b entries = map_option fst (List.find (\<lambda>(e, w). w = b) entries)"

definition reportErrorFromWire :: "8 word \<Rightarrow> variant \<Rightarrow> report_error option" where
  "reportErrorFromWire b v = rangeFor b (reportErrorTable v)"

lemma reportErrorTable_distinct:
  "distinct (map fst (reportErrorTable v))" "distinct (map snd (reportErrorTable v))"
  by (simp_all add: reportErrorTable_def reportError18_def reportError19_def)

lemma rangeFor_iff:
  assumes "distinct (map snd t)"
  shows "rangeFor b t = Some e \<longleftrightarrow> (e, b) \<in> set t"
  using assms by (induction t) (auto simp: rangeFor_def rev_image_eqI)

lemma reportErrorToWire_iff: "reportErrorToWire e v = Some b \<longleftrightarrow> (e, b) \<in> set (reportErrorTable v)"
  by (simp add: reportErrorToWire_def map_of_eq_Some_iff reportErrorTable_distinct)

lemma reportErrorFromWire_iff:
  "reportErrorFromWire b v = Some e \<longleftrightarrow> reportErrorToWire e v = Some b"
  by (simp add: reportErrorToWire_iff reportErrorFromWire_def rangeFor_iff reportErrorTable_distinct)

lemma reportErrorFromWire_order:
  assumes "mset t = mset (reportErrorTable v)"
  shows "rangeFor b t = reportErrorFromWire b v"
proof -
  have "mset (map snd t) = mset (map snd (reportErrorTable v))"
    using assms by simp
  then have "distinct (map snd t)" using mset_eq_imp_distinct_iff reportErrorTable_distinct(2) by blast
  moreover have "set t = set (reportErrorTable v)" using assms by (rule mset_eq_setD)
  ultimately have "rangeFor b t = Some e \<longleftrightarrow> reportErrorFromWire b v = Some e" for e
    by (simp add: rangeFor_iff reportErrorFromWire_def reportErrorTable_distinct)
  then show ?thesis by (rule option_eqI)
qed

subsection \<open>ReportShare and VerifyInit\<close>

record report_share =
  rs_ReportMetadata :: report_metadata
  rs_PublicShare :: bytes
  rs_EncryptedInputShare :: hpke_ciphertext

record verify_init =
  vi_ReportShare :: report_share
  vi_Payload :: bytes

definition ReportShare_Marshal :: "'b cryptobyte \<Rightarrow> report_share \<Rightarrow> 'b \<Rightarrow> 'b" where
  "ReportShare_Marshal cb r = emit
     [ReportMetadata_Marshal cb (rs_ReportMetadata r),
      AddUint32LengthPrefixed cb (AddBytes cb (rs_PublicShare r)),
      HpkeCiphertext_Marshal cb (rs_EncryptedInputShare r)]"

definition ReportShare_Unmarshal :: "'b cryptobyte \<Rightarrow> bytes \<Rightarrow> (report_share \<times> bytes) option" where
  "ReportShare_Unmarshal cb s = do {
     (md, s) \<leftarrow> ReportMetadata_Unmarshal cb s;
     (pub, s) \<leftarrow> readUint32LengthPrefixed cb s;
     (ct, s) \<leftarrow> HpkeCiphertext_Unmarshal cb s;
     Some (\<lparr>rs_ReportMetadata = md, rs_PublicShare = cloneBytes pub, rs_EncryptedInputShare = ct\<rparr>, s)
   }"

definition VerifyInit_Marshal :: "'b cryptobyte \<Rightarrow> verify_init \<Rightarrow> 'b \<Rightarrow> 'b" where
  "VerifyInit_Marshal cb v = emit
     [ReportShare_Marshal cb (vi_ReportShare v),
      AddUint32LengthPrefixed cb (AddBytes cb (vi_Payload v))]"

definition VerifyInit_Unmarshal :: "'b cryptobyte \<Rightarrow> bytes \<Rightarrow> (verify_init \<times> bytes) option" where
  "VerifyInit_Unmarshal cb s = do {
     (rs, s) \<leftarrow> ReportShare_Unmarshal cb s;
     (payload, s) \<leftarrow> readUint32LengthPrefixed cb s;
     if length payload = 0 then None
     else Some (\<lparr>vi_ReportShare = rs, vi_Payload = cloneBytes payload\<rparr>, s)
   }"

definition rs_ok :: "report_share \<Rightarrow> bool" where
  "rs_ok r \<longleftrightarrow> md_ok (rs_ReportMetadata r) \<and> ct_ok (rs_EncryptedInputShare r)"

definition vi_ok :: "verify_init \<Rightarrow> bool" where
  "vi_ok v \<longleftrightarrow> rs_ok (vi_ReportShare v) \<and> vi_Payload v \<noteq> []"

sublocale cryptobyte_laws \<subseteq> rs:
  elem_codec cb "total (ReportShare_Marshal cb)" "ReportShare_Unmarshal cb" rs_ok
proof
  note defs = ReportShare_Marshal_def ReportShare_Unmarshal_def rs_ok_def
  have md: "writer cb (ReportMetadata_Marshal cb v)" for v
    by (rule md.mar_writer) (simp add: total_def)
  have ct: "writer cb (HpkeCiphertext_Marshal cb v)" for v
    by (rule ct.mar_writer) (simp add: total_def)
  have ne: "out cb (ReportMetadata_Marshal cb v) \<noteq> Some []" for v
    using md.nonempty [of v "[]"] by auto
  fix v :: report_share and f w r s
  show "total (ReportShare_Marshal cb) v = Inr f \<Longrightarrow> writer cb f"
    by (auto simp: total_def defs md ct)
  show "rs_ok v \<Longrightarrow> encoding cb (total (ReportShare_Marshal cb)) v = Some w \<Longrightarrow>
      ReportShare_Unmarshal cb (w @ r) = Some (v, r)"
    by (auto simp: defs cat_Some_iff md ct
        dest!: md.enc_front [unfolded encoding_total] ct.enc_front [unfolded encoding_total])
  show "ReportShare_Unmarshal cb s = Some (v, r) \<Longrightarrow> rs_ok v \<and>
      (\<exists>w. encoding cb (total (ReportShare_Marshal cb)) v = Some w \<and> s = w @ r)"
    by (auto simp: defs cat_Some_iff bind_eq_Some_conv md ct dest!: read_u32_lp_dest
        md.enc_back [unfolded encoding_total] ct.enc_back [unfolded encoding_total])
  show "encoding cb (total (ReportShare_Marshal cb)) v = Some w \<Longrightarrow> w \<noteq> []"
    using ne by (auto simp: defs cat_Some_iff md ct)
qed

sublocale cryptobyte_laws \<subseteq> vi:
  elem_codec cb "total (VerifyInit_Marshal cb)" "VerifyInit_Unmarshal cb" vi_ok
proof
  note defs = VerifyInit_Marshal_def VerifyInit_Unmarshal_def vi_ok_def
  have rs: "writer cb (ReportShare_Marshal cb v)" for v
    by (rule rs.mar_writer) (simp add: total_def)
  have ne: "out cb (ReportShare_Marshal cb v) \<noteq> Some []" for v
    using rs.nonempty [of v "[]"] by auto
  fix v :: verify_init and f w r s
  show "total (VerifyInit_Marshal cb) v = Inr f \<Longrightarrow> writer cb f"
    by (auto simp: total_def defs rs)
  show "vi_ok v \<Longrightarrow> encoding cb (total (VerifyInit_Marshal cb)) v = Some w \<Longrightarrow>
      VerifyInit_Unmarshal cb (w @ r) = Some (v, r)"
    by (auto simp: defs cat_Some_iff rs dest!: rs.enc_front [unfolded encoding_total])
  show "VerifyInit_Unmarshal cb s = Some (v, r) \<Longrightarrow> vi_ok v \<and>
      (\<exists>w. encoding cb (total (VerifyInit_Marshal cb)) v = Some w \<and> s = w @ r)"
    by (auto simp: defs cat_Some_iff bind_eq_Some_conv rs split: if_splits
        dest!: read_u32_lp_dest rs.enc_back [unfolded encoding_total])
  show "encoding cb (total (VerifyInit_Marshal cb)) v = Some w \<Longrightarrow> w \<noteq> []"
    using ne by (auto simp: defs cat_Some_iff rs)
qed

end
