(* ===== verification/WireJob.thy ===== *)
theory WireJob
  imports WireAgg
begin

text \<open>
  The second half of \<^verbatim>\<open>pkg/dap/wire/aggregation.go\<close>: the job request and response, whose
  shape depends on the draft, and the AAD of an input share.
\<close>

subsection \<open>AggregationJobInitReq\<close>

record aggjob_init_req =
  air_Variant :: variant
  air_VerificationKeyID :: "8 word"
  air_AggParam :: bytes
  air_Extensions :: "aggjob_extension list"
  air_PartBatchSelector :: partial_batch_selector
  air_VerifyInits :: "verify_init list"

definition AggregationJobInitReq_Marshal :: "'b cryptobyte \<Rightarrow> aggjob_init_req \<Rightarrow> 'b \<Rightarrow> 'b" where
  "AggregationJobInitReq_Marshal cb a =
     (if air_Variant a = VariantJanus then emit
        [AddUint32LengthPrefixed cb (AddBytes cb (air_AggParam a)),
         PartialBatchSelector_Marshal cb (air_PartBatchSelector a),
         AddUint32LengthPrefixed cb (emit (map (VerifyInit_Marshal cb) (air_VerifyInits a)))]
      else emit
        [AddUint8 cb (air_VerificationKeyID a),
         AddUint32LengthPrefixed cb (AddBytes cb (air_AggParam a)),
         marshalAggJobExtVec cb (air_Extensions a),
         emit (map (VerifyInit_Marshal cb) (air_VerifyInits a))])"

text \<open>The zero value of a field the decoder leaves alone.\<close>

definition zero_pbs :: partial_batch_selector where
  "zero_pbs = \<lparr>pbs_BatchMode = 0, pbs_Config = []\<rparr>"

definition AggregationJobInitReq_Unmarshal ::
  "'b cryptobyte \<Rightarrow> variant \<Rightarrow> bytes \<Rightarrow> (aggjob_init_req \<times> bytes) option" where
  "AggregationJobInitReq_Unmarshal cb variant s =
     (if variant = VariantJanus then do {
        (aggParam, s) \<leftarrow> readUint32LengthPrefixed cb s;
        (sel, s) \<leftarrow> PartialBatchSelector_Unmarshal cb s;
        (vinits, s) \<leftarrow> readUint32LengthPrefixed cb s;
        vis \<leftarrow> read_all (VerifyInit_Unmarshal cb) vinits;
        Some (\<lparr>air_Variant = variant, air_VerificationKeyID = 0,
               air_AggParam = cloneBytes aggParam, air_Extensions = [],
               air_PartBatchSelector = sel, air_VerifyInits = vis\<rparr>, s)
      } else do {
        (keyID, s) \<leftarrow> ReadUint8 cb s;
        (aggParam, s) \<leftarrow> readUint32LengthPrefixed cb s;
        (exts, s) \<leftarrow> unmarshalAggJobExtVec cb s;
        vis \<leftarrow> read_all (VerifyInit_Unmarshal cb) s;
        Some (\<lparr>air_Variant = variant, air_VerificationKeyID = keyID,
               air_AggParam = cloneBytes aggParam, air_Extensions = exts,
               air_PartBatchSelector = zero_pbs, air_VerifyInits = vis\<rparr>, [])
      })"

text \<open>A decoded request has its variant's fields only.\<close>

definition air_ok :: "variant \<Rightarrow> aggjob_init_req \<Rightarrow> bool" where
  "air_ok v a \<longleftrightarrow> air_Variant a = v \<and> list_all vi_ok (air_VerifyInits a)
     \<and> (if v = VariantJanus then air_VerificationKeyID a = 0 \<and> air_Extensions a = []
        else air_PartBatchSelector a = zero_pbs)"

sublocale cryptobyte_laws \<subseteq> air:
  message_codec cb "total (AggregationJobInitReq_Marshal cb)" "AggregationJobInitReq_Unmarshal cb vt"
    "air_ok vt"
  for vt
proof
  note defs = AggregationJobInitReq_Marshal_def AggregationJobInitReq_Unmarshal_def air_ok_def
  note vec = vi.emit_map_encoding [OF refl]
  have w: "writer cb (PartialBatchSelector_Marshal cb p)" "writer cb (marshalAggJobExtVec cb e)"
    for p e by (rule pbs.mar_writer ajevec.mar_writer, simp add: total_def)+
  fix v :: aggjob_init_req and f w
  show "total (AggregationJobInitReq_Marshal cb) v = Inr f \<Longrightarrow> writer cb f"
    by (auto simp: total_def defs vec w)
  show "air_ok vt v \<Longrightarrow> encoding cb (total (AggregationJobInitReq_Marshal cb)) v = Some w \<Longrightarrow>
      AggregationJobInitReq_Unmarshal cb vt w = Some (v, [])"
    using vi.read_all_encoding [of "air_VerifyInits v"]
    by (cases "vt = VariantJanus") (auto simp: defs cat_Some_iff vec w
        dest!: pbs.enc_front [unfolded encoding_total] ajevec.enc_front [unfolded encoding_total])
  show "AggregationJobInitReq_Unmarshal cb vt w = Some (v, []) \<Longrightarrow> air_ok vt v \<and>
      encoding cb (total (AggregationJobInitReq_Marshal cb)) v = Some w"
    by (cases "vt = VariantJanus") (auto simp: defs cat_Some_iff vec w bind_eq_Some_conv
        dest!: read_ints_dest read_u32_lp_dest vi.read_all_canonical
        pbs.enc_back [unfolded encoding_total] ajevec.enc_back [unfolded encoding_total])
qed

subsection \<open>VerifyResp\<close>

record verify_resp =
  vr_Variant :: variant
  vr_ReportID :: report_id
  vr_Type :: "8 word"
  vr_Payload :: bytes
  vr_Error :: report_error

definition VerifyResp_Marshal :: "'b cryptobyte \<Rightarrow> verify_resp \<Rightarrow> wire_error + ('b \<Rightarrow> 'b)" where
  "VerifyResp_Marshal cb v =
     (let hd = [AddBytes cb (vr_ReportID v), AddUint8 cb (vr_Type v)] in
      if vr_Type v = VerifyRespContinue then
        Inr (emit (hd @ [AddUint32LengthPrefixed cb (AddBytes cb (vr_Payload v))]))
      else if vr_Type v = VerifyRespFinish then Inr (emit hd)
      else if vr_Type v = VerifyRespReject then
        (case reportErrorToWire (vr_Error v) (vr_Variant v) of
           None \<Rightarrow> Inl (NoCodePoint (vr_Error v) (vr_Variant v))
         | Some code \<Rightarrow> Inr (emit (hd @ [AddUint8 cb code])))
      else Inr (emit hd))"

definition VerifyResp_Unmarshal ::
  "'b cryptobyte \<Rightarrow> variant \<Rightarrow> bytes \<Rightarrow> (verify_resp \<times> bytes) option" where
  "VerifyResp_Unmarshal cb variant s = do {
     (rid, s) \<leftarrow> CopyBytes cb ReportIDSize s;
     (t, s) \<leftarrow> ReadUint8 cb s;
     if t = VerifyRespContinue then do {
       (payload, s) \<leftarrow> readUint32LengthPrefixed cb s;
       if length payload = 0 then None
       else Some (\<lparr>vr_Variant = variant, vr_ReportID = rid, vr_Type = t,
                   vr_Payload = cloneBytes payload, vr_Error = 0\<rparr>, s)
     } else if t = VerifyRespFinish then
       Some (\<lparr>vr_Variant = variant, vr_ReportID = rid, vr_Type = t, vr_Payload = [],
              vr_Error = 0\<rparr>, s)
     else if t = VerifyRespReject then do {
       (e, s) \<leftarrow> ReadUint8 cb s;
       re \<leftarrow> reportErrorFromWire e variant;
       Some (\<lparr>vr_Variant = variant, vr_ReportID = rid, vr_Type = t, vr_Payload = [],
              vr_Error = re\<rparr>, s)
     } else None
   }"

definition vr_ok :: "variant \<Rightarrow> verify_resp \<Rightarrow> bool" where
  "vr_ok v r \<longleftrightarrow> vr_Variant r = v \<and> length (vr_ReportID r) = ReportIDSize
     \<and> (vr_Type r = VerifyRespContinue \<and> vr_Payload r \<noteq> [] \<and> vr_Error r = 0
        \<or> vr_Type r = VerifyRespFinish \<and> vr_Payload r = [] \<and> vr_Error r = 0
        \<or> vr_Type r = VerifyRespReject \<and> vr_Payload r = [])"

sublocale cryptobyte_laws \<subseteq> vr:
  elem_codec cb "VerifyResp_Marshal cb" "VerifyResp_Unmarshal cb vt" "vr_ok vt"
  for vt
proof
  note defs = VerifyResp_Marshal_def VerifyResp_Unmarshal_def encoding_def vr_ok_def
  fix v :: verify_resp and f w r s
  show "VerifyResp_Marshal cb v = Inr f \<Longrightarrow> writer cb f"
    by (auto simp: defs Let_def split: if_splits option.splits)
  show "vr_ok vt v \<Longrightarrow> encoding cb (VerifyResp_Marshal cb) v = Some w \<Longrightarrow>
      VerifyResp_Unmarshal cb vt (w @ r) = Some (v, r)"
    by (cases v) (auto simp: defs cat_Some_iff split: option.splits
        dest!: reportErrorFromWire_iff [THEN iffD2])
  show "VerifyResp_Unmarshal cb vt s = Some (v, r) \<Longrightarrow> vr_ok vt v \<and>
      (\<exists>w. encoding cb (VerifyResp_Marshal cb) v = Some w \<and> s = w @ r)"
    by (auto simp: defs Let_def cat_Some_iff bind_eq_Some_conv reportErrorFromWire_iff
        split: if_splits dest!: read_ints_dest read_bytes_dest read_u32_lp_dest)
  show "encoding cb (VerifyResp_Marshal cb) v = Some w \<Longrightarrow> w \<noteq> []"
    by (auto simp: defs Let_def cat_Some_iff split: if_splits option.splits)
qed

text \<open>What the writer accepts: every type but a rejection whose reason the draft does not
  have.\<close>

lemma VerifyResp_Marshal_Inl_iff:
  "VerifyResp_Marshal cb v = Inl e \<longleftrightarrow>
   vr_Type v = VerifyRespReject \<and> reportErrorToWire (vr_Error v) (vr_Variant v) = None
   \<and> e = NoCodePoint (vr_Error v) (vr_Variant v)"
  by (auto simp: VerifyResp_Marshal_def Let_def split: option.splits)

text \<open>A type other than the three is written as it is, to bytes the reader refuses.\<close>

context cryptobyte_laws
begin

lemma other_type_unreadable:
  assumes "length (vr_ReportID v) = ReportIDSize" and "vr_Type v \<notin> {VerifyRespContinue, VerifyRespFinish, VerifyRespReject}"
  shows "\<exists>w. marshal cb (VerifyResp_Marshal cb) v = Inr w \<and> unmarshalAll (VerifyResp_Unmarshal cb u) w = Inl ErrMalformed"
  using assms
  by (simp add: marshal_Inr_iff encoding_def VerifyResp_Marshal_def VerifyResp_Unmarshal_def unmarshalAll_def cat_Some_iff Let_def)

end

subsection \<open>AggregationJobResp\<close>

record aggjob_resp =
  arr_Variant :: variant
  arr_VerifyResps :: "verify_resp list"

text \<open>Marshalling stores the response's variant in every element it writes, then writes it.\<close>

definition setVariants :: "aggjob_resp \<Rightarrow> aggjob_resp" where
  "setVariants a = a\<lparr>arr_VerifyResps := map (\<lambda>r. r\<lparr>vr_Variant := arr_Variant a\<rparr>) (arr_VerifyResps a)\<rparr>"

text \<open>The elements as the call leaves them: the loop stores the variant in an element before it writes
  it, and returns at the first element that has no encoding.\<close>

primrec writeVariants :: "'b cryptobyte \<Rightarrow> variant \<Rightarrow> verify_resp list \<Rightarrow> verify_resp list" where
  "writeVariants cb v [] = []"
| "writeVariants cb v (r # rs) =
     (let r = r\<lparr>vr_Variant := v\<rparr> in
      case VerifyResp_Marshal cb r of
        Inl _ \<Rightarrow> r # rs
      | Inr _ \<Rightarrow> r # writeVariants cb v rs)"

definition marshalledResp :: "'b cryptobyte \<Rightarrow> aggjob_resp \<Rightarrow> aggjob_resp" where
  "marshalledResp cb a = a\<lparr>arr_VerifyResps := writeVariants cb (arr_Variant a) (arr_VerifyResps a)\<rparr>"

definition AggregationJobResp_Marshal ::
  "'b cryptobyte \<Rightarrow> aggjob_resp \<Rightarrow> wire_error + ('b \<Rightarrow> 'b)" where
  "AggregationJobResp_Marshal cb a =
     (case marshal_all (VerifyResp_Marshal cb) (arr_VerifyResps (setVariants a)) of
        Inl err \<Rightarrow> Inl err
      | Inr f \<Rightarrow>
          if arr_Variant a = VariantJanus then Inr (AddUint32LengthPrefixed cb f) else Inr f)"

lemma writeVariants_marks:
  "list_all2 (\<lambda>r r'. r' = r \<or> r' = r\<lparr>vr_Variant := v\<rparr>) rs (writeVariants cb v rs)"
  by (induction rs) (auto simp: Let_def list_all2_same split: sum.split)

lemma writeVariants_set:
  "map (\<lambda>r. r\<lparr>vr_Variant := v\<rparr>) (writeVariants cb v rs) = map (\<lambda>r. r\<lparr>vr_Variant := v\<rparr>) rs"
  by (induction rs) (simp_all add: Let_def split: sum.split)

lemma marshalledResp_idem [simp]: "marshalledResp cb (marshalledResp cb a) = marshalledResp cb a"
proof -
  have "writeVariants cb v (writeVariants cb v rs) = writeVariants cb v rs" for v rs
    by (induction rs) (auto simp: Let_def split: sum.splits)
  then show ?thesis by (simp add: marshalledResp_def)
qed

lemma marshalledResp_Marshal [simp]:
  "AggregationJobResp_Marshal cb (marshalledResp cb a) = AggregationJobResp_Marshal cb a"
proof -
  have "setVariants (marshalledResp cb a) = setVariants a" "arr_Variant (marshalledResp cb a) = arr_Variant a"
    by (simp_all add: marshalledResp_def setVariants_def writeVariants_set)
  then show ?thesis unfolding AggregationJobResp_Marshal_def by (simp split: sum.split)
qed

lemma marshalledResp_marshal [simp]:
  "marshal cb (AggregationJobResp_Marshal cb) (marshalledResp cb a) = marshal cb (AggregationJobResp_Marshal cb) a"
  by (simp add: marshal_def)

definition AggregationJobResp_Unmarshal ::
  "'b cryptobyte \<Rightarrow> variant \<Rightarrow> bytes \<Rightarrow> (aggjob_resp \<times> bytes) option" where
  "AggregationJobResp_Unmarshal cb variant s =
     (if variant = VariantJanus then do {
        (vresps, s) \<leftarrow> readUint32LengthPrefixed cb s;
        vrs \<leftarrow> read_all (VerifyResp_Unmarshal cb variant) vresps;
        Some (\<lparr>arr_Variant = variant, arr_VerifyResps = vrs\<rparr>, s)
      } else do {
        vrs \<leftarrow> read_all (VerifyResp_Unmarshal cb variant) s;
        Some (\<lparr>arr_Variant = variant, arr_VerifyResps = vrs\<rparr>, [])
      })"

definition arr_ok :: "variant \<Rightarrow> aggjob_resp \<Rightarrow> bool" where
  "arr_ok v a \<longleftrightarrow> arr_Variant a = v \<and> list_all (vr_ok v) (arr_VerifyResps a)"

lemma setVariants_ok: "arr_ok v a \<Longrightarrow> setVariants a = a"
  by (cases a) (auto simp: setVariants_def arr_ok_def vr_ok_def list_all_iff intro!: map_idI)

lemma setVariants_simps [simp]: "arr_Variant (setVariants a) = arr_Variant a"
  "setVariants (setVariants a) = setVariants a"
  by (simp_all add: setVariants_def comp_def)

sublocale cryptobyte_laws \<subseteq> arr:
  message_codec cb "AggregationJobResp_Marshal cb" "AggregationJobResp_Unmarshal cb vt" "arr_ok vt"
  for vt
proof
  note mdef = AggregationJobResp_Marshal_def
  have enc: "encoding cb (AggregationJobResp_Marshal cb) a =
      (if arr_Variant a = VariantJanus then with_len 4 e else e)"
    if "e = encoding cb (marshal_all (VerifyResp_Marshal cb)) (arr_VerifyResps (setVariants a))" for a e
    using vr.marshal_all_writer
    by (auto simp: that encoding_def mdef with_len_def split: sum.splits)
  fix v :: aggjob_resp and f w
  show "AggregationJobResp_Marshal cb v = Inr f \<Longrightarrow> writer cb f"
    by (auto simp: mdef split: sum.splits if_splits dest: vr.marshal_all_writer)
  show "arr_ok vt v \<Longrightarrow> encoding cb (AggregationJobResp_Marshal cb) v = Some w \<Longrightarrow>
      AggregationJobResp_Unmarshal cb vt w = Some (v, [])"
    using vr.read_all_encoding [of vt "arr_VerifyResps v"] setVariants_ok [of vt v]
    by (cases v) (auto simp: AggregationJobResp_Unmarshal_def enc [OF refl] arr_ok_def)
  assume un: "AggregationJobResp_Unmarshal cb vt w = Some (v, [])"
  then obtain u where u: "read_all (VerifyResp_Unmarshal cb vt) u = Some (arr_VerifyResps v)"
    and v: "arr_Variant v = vt"
    and w: "if vt = VariantJanus then readUint32LengthPrefixed cb w = Some (u, []) else u = w"
    by (auto simp: AggregationJobResp_Unmarshal_def bind_eq_Some_conv split: if_splits)
  from u have ok: "arr_ok vt v" and e: "encoding cb (marshal_all (VerifyResp_Marshal cb)) (arr_VerifyResps v) = Some u"
    using v vr.read_all_canonical [of vt] by (auto simp: arr_ok_def)
  then show "arr_ok vt v \<and> encoding cb (AggregationJobResp_Marshal cb) v = Some w"
    using w v by (auto simp: enc [OF refl] setVariants_ok split: if_splits dest: read_u32_lp_dest)
qed

subsection \<open>InputShareAad\<close>

record input_share_aad =
  isa_Variant :: variant
  isa_TaskID :: task_id
  isa_TaskConfiguration :: task_configuration
  isa_ReportMetadata :: report_metadata
  isa_PublicShare :: bytes

definition InputShareAad_Marshal ::
  "'b cryptobyte \<Rightarrow> input_share_aad \<Rightarrow> wire_error + ('b \<Rightarrow> 'b)" where
  "InputShareAad_Marshal cb i =
     (let rest = [ReportMetadata_Marshal cb (isa_ReportMetadata i),
                  AddUint32LengthPrefixed cb (AddBytes cb (isa_PublicShare i))] in
      if isa_Variant i \<noteq> VariantJanus then
        (case TaskConfiguration_Marshal cb
                ((isa_TaskConfiguration i)\<lparr>tc_Variant := isa_Variant i\<rparr>) of
           Inl err \<Rightarrow> Inl err
         | Inr f \<Rightarrow> Inr (emit (TaskID_Marshal cb (isa_TaskID i) # f # rest)))
      else Inr (emit (TaskID_Marshal cb (isa_TaskID i) # rest)))"

definition zero_tc :: task_configuration where
  "zero_tc = \<lparr>tc_Variant = VariantDraft18, tc_TaskInfo = [], tc_LeaderEndpoint = [],
     tc_HelperEndpoint = [], tc_TimePrecision = 0, tc_MinBatchSize = 0, tc_BatchMode = 0,
     tc_BatchConfig = [], tc_VdafType = 0, tc_VdafConfiguration = [], tc_Extensions = []\<rparr>"

definition InputShareAad_Unmarshal ::
  "'b cryptobyte \<Rightarrow> variant \<Rightarrow> bytes \<Rightarrow> (input_share_aad \<times> bytes) option" where
  "InputShareAad_Unmarshal cb variant s = do {
     (tid, s) \<leftarrow> TaskID_Unmarshal cb s;
     (tc, s) \<leftarrow> (if variant \<noteq> VariantJanus then TaskConfiguration_Unmarshal cb variant s
                 else Some (zero_tc, s));
     (md, s) \<leftarrow> ReportMetadata_Unmarshal cb s;
     (pub, s) \<leftarrow> readUint32LengthPrefixed cb s;
     Some (\<lparr>isa_Variant = variant, isa_TaskID = tid, isa_TaskConfiguration = tc,
            isa_ReportMetadata = md, isa_PublicShare = cloneBytes pub\<rparr>, s)
   }"

definition isa_ok :: "variant \<Rightarrow> input_share_aad \<Rightarrow> bool" where
  "isa_ok v i \<longleftrightarrow> isa_Variant i = v \<and> length (isa_TaskID i) = TaskIDSize
     \<and> (if v = VariantJanus then isa_TaskConfiguration i = zero_tc
        else tc_ok v (isa_TaskConfiguration i))
     \<and> md_ok (isa_ReportMetadata i)"

sublocale cryptobyte_laws \<subseteq> isa:
  wire_codec cb "InputShareAad_Marshal cb" "InputShareAad_Unmarshal cb vt" "isa_ok vt"
  for vt
proof
  note defs = InputShareAad_Marshal_def InputShareAad_Unmarshal_def isa_ok_def
    TaskID_Marshal_def TaskID_Unmarshal_def
  note enc = encoding_def [of cb "InputShareAad_Marshal cb"]
  have md: "writer cb (ReportMetadata_Marshal cb v)" for v
    by (rule md.mar_writer) (simp add: total_def)
  have tce: "encoding cb (TaskConfiguration_Marshal cb) t = Some u \<longleftrightarrow>
      (\<exists>f. TaskConfiguration_Marshal cb t = Inr f \<and> out cb f = Some u)" for t u
    by (auto simp: encoding_def split: sum.splits)
  have same: "t\<lparr>tc_Variant := vt\<rparr> = t" if "tc_ok vt t" for t
    using that by (cases t) (simp add: tc_ok_def)
  fix v :: input_share_aad and f w r s
  show "InputShareAad_Marshal cb v = Inr f \<Longrightarrow> writer cb f"
    by (auto simp: defs md Let_def split: if_splits sum.splits dest: tc.mar_writer)
  show "isa_ok vt v \<Longrightarrow> encoding cb (InputShareAad_Marshal cb) v = Some w \<Longrightarrow>
      InputShareAad_Unmarshal cb vt (w @ r) = Some (v, r)"
    using tc.mar_writer tc.enc_front [of "isa_TaskConfiguration v" _ vt]
    by (auto simp: defs enc cat_Some_iff md same tce Let_def split: if_splits sum.splits
        dest!: md.enc_front [unfolded encoding_total])
  show "InputShareAad_Unmarshal cb vt s = Some (v, r) \<Longrightarrow> isa_ok vt v \<and>
      (\<exists>w. encoding cb (InputShareAad_Marshal cb) v = Some w \<and> s = w @ r)"
    using tc.mar_writer
    by (auto simp: defs enc cat_Some_iff md same tce Let_def bind_eq_Some_conv split: if_splits
        dest!: read_bytes_dest read_u32_lp_dest md.enc_back [unfolded encoding_total] tc.enc_back)
qed

end
