(* ===== verification/Hpke.thy ===== *)
theory Hpke
  imports Prelude
begin

text \<open>
  \<^verbatim>\<open>internal/hpke/hpke.go\<close>: the byte-slice wrapper over the HPKE implementation of circl. The
  library is a parameter: the record \<open>circl\<close> holds the operations the wrapper calls, with one
  opaque type for its keys, senders, receivers, sealers and openers and a string for its
  errors. The locale \<open>circl_laws\<close> states what RFC 9180 promises of them, for the keys of one
  generated pair: serialisation is exact and of the advertised size, and a receiver set up with
  the sender's info and encapsulated key opens what the sealer sealed under the same
  associated data. Nothing is assumed of ciphertexts that were not sealed this way.
\<close>

subsection \<open>The library\<close>

text \<open>The bytes a reader of randomness yields.\<close>

type_synonym entropy = "nat \<Rightarrow> byte"

record suite =
  s_KEM :: "16 word"
  s_KDF :: "16 word"
  s_AEAD :: "16 word"

record 'o circl =
  KEM_X25519_HKDF_SHA256 :: "16 word"
  KDF_HKDF_SHA256 :: "16 word"
  AEAD_AES128GCM :: "16 word"
  KEM_IsValid :: "16 word \<Rightarrow> bool"
  KDF_IsValid :: "16 word \<Rightarrow> bool"
  AEAD_IsValid :: "16 word \<Rightarrow> bool"
  PublicKeySize :: "16 word \<Rightarrow> nat"
  PrivateKeySize :: "16 word \<Rightarrow> nat"
  Scheme_GenerateKeyPair :: "16 word \<Rightarrow> entropy \<Rightarrow> string + 'o \<times> 'o"
  PublicKey_MarshalBinary :: "'o \<Rightarrow> string + bytes"
  PrivateKey_MarshalBinary :: "'o \<Rightarrow> string + bytes"
  UnmarshalBinaryPublicKey :: "16 word \<Rightarrow> bytes \<Rightarrow> string + 'o"
  UnmarshalBinaryPrivateKey :: "16 word \<Rightarrow> bytes \<Rightarrow> string + 'o"
  NewSender :: "suite \<Rightarrow> 'o \<Rightarrow> bytes \<Rightarrow> string + 'o"
  Sender_Setup :: "'o \<Rightarrow> entropy \<Rightarrow> string + bytes \<times> 'o"
  Sealer_Seal :: "'o \<Rightarrow> bytes \<Rightarrow> bytes \<Rightarrow> string + bytes"
  NewReceiver :: "suite \<Rightarrow> 'o \<Rightarrow> bytes \<Rightarrow> string + 'o"
  Receiver_Setup :: "'o \<Rightarrow> bytes \<Rightarrow> string + 'o"
  Opener_Open :: "'o \<Rightarrow> bytes \<Rightarrow> bytes \<Rightarrow> string + bytes"

subsection \<open>The wrapper\<close>

datatype hpke_error = ErrInvalidSuite | ErrKeySize | CirclError string

text \<open>\<^verbatim>\<open>x, err := ...; if err != nil { return err }\<close> on a result of the library\<close>

definition attempt :: "string + 'a \<Rightarrow> ('a \<Rightarrow> hpke_error + 'c) \<Rightarrow> hpke_error + 'c" where
  "attempt r k = (case r of Inl err \<Rightarrow> Inl (CirclError err) | Inr x \<Rightarrow> k x)"

lemma attempt_simps [simp]: "attempt (Inl e) k = Inl (CirclError e)" "attempt (Inr x) k = k x"
  by (simp_all add: attempt_def)

lemma attempt_Inr_iff: "attempt r k = Inr y \<longleftrightarrow> (\<exists>x. r = Inr x \<and> k x = Inr y)"
  by (auto simp: attempt_def split: sum.splits)

definition Suite_IsValid :: "'o circl \<Rightarrow> suite \<Rightarrow> bool" where
  "Suite_IsValid cl s \<longleftrightarrow>
     KEM_IsValid cl (s_KEM s) \<and> KDF_IsValid cl (s_KDF s) \<and> AEAD_IsValid cl (s_AEAD s)"

definition GenerateKeyPair :: "'o circl \<Rightarrow> entropy \<Rightarrow> suite \<Rightarrow> hpke_error + bytes \<times> bytes" where
  "GenerateKeyPair cl ent s =
     (if \<not> Suite_IsValid cl s then Inl ErrInvalidSuite
      else attempt (Scheme_GenerateKeyPair cl (s_KEM s) ent) (\<lambda>(pub, priv).
           attempt (PublicKey_MarshalBinary cl pub) (\<lambda>publicKey.
           attempt (PrivateKey_MarshalBinary cl priv) (\<lambda>privateKey.
             Inr (publicKey, privateKey)))))"

definition Seal ::
  "'o circl \<Rightarrow> entropy \<Rightarrow> suite \<Rightarrow> bytes \<Rightarrow> bytes \<Rightarrow> bytes \<Rightarrow> bytes \<Rightarrow> hpke_error + bytes \<times> bytes" where
  "Seal cl ent s recipientPublicKey info aad plaintext =
     (if \<not> Suite_IsValid cl s then Inl ErrInvalidSuite
      else if length recipientPublicKey \<noteq> PublicKeySize cl (s_KEM s) then Inl ErrKeySize
      else attempt (UnmarshalBinaryPublicKey cl (s_KEM s) recipientPublicKey) (\<lambda>pub.
           attempt (NewSender cl s pub info) (\<lambda>sender.
           attempt (Sender_Setup cl sender ent) (\<lambda>(enc, sealer).
           attempt (Sealer_Seal cl sealer plaintext aad) (\<lambda>ct.
             Inr (enc, ct))))))"

definition Open ::
  "'o circl \<Rightarrow> suite \<Rightarrow> bytes \<Rightarrow> bytes \<Rightarrow> bytes \<Rightarrow> bytes \<Rightarrow> bytes \<Rightarrow> hpke_error + bytes" where
  "Open cl s recipientPrivateKey info enc aad ct =
     (if \<not> Suite_IsValid cl s then Inl ErrInvalidSuite
      else if length recipientPrivateKey \<noteq> PrivateKeySize cl (s_KEM s) then Inl ErrKeySize
      else attempt (UnmarshalBinaryPrivateKey cl (s_KEM s) recipientPrivateKey) (\<lambda>priv.
           attempt (NewReceiver cl s priv info) (\<lambda>receiver.
           attempt (Receiver_Setup cl receiver enc) (\<lambda>opener.
           attempt (Opener_Open cl opener ct aad) (\<lambda>pt. Inr pt)))))"

subsection \<open>The contract\<close>

definition generated :: "'o circl \<Rightarrow> 16 word \<Rightarrow> 'o \<Rightarrow> 'o \<Rightarrow> bool" where
  "generated cl kem pub priv \<longleftrightarrow> (\<exists>ent. Scheme_GenerateKeyPair cl kem ent = Inr (pub, priv))"

locale circl_laws =
  fixes cl :: "'o circl"
  assumes public_key: "generated cl kem pub priv \<Longrightarrow> PublicKey_MarshalBinary cl pub = Inr pk \<Longrightarrow>
      length pk = PublicKeySize cl kem \<and> UnmarshalBinaryPublicKey cl kem pk = Inr pub"
    and private_key: "generated cl kem pub priv \<Longrightarrow> PrivateKey_MarshalBinary cl priv = Inr sk \<Longrightarrow>
      length sk = PrivateKeySize cl kem \<and> UnmarshalBinaryPrivateKey cl kem sk = Inr priv"
    and open_sealed: "generated cl (s_KEM s) pub priv \<Longrightarrow> NewSender cl s pub info = Inr sender \<Longrightarrow>
      Sender_Setup cl sender ent = Inr (enc, sealer) \<Longrightarrow> Sealer_Seal cl sealer pt aad = Inr ct \<Longrightarrow>
      \<exists>receiver opener. NewReceiver cl s priv info = Inr receiver
        \<and> Receiver_Setup cl receiver enc = Inr opener \<and> Opener_Open cl opener ct aad = Inr pt"
begin

lemma generated_public:
  assumes "GenerateKeyPair cl ent s = Inr (pk, sk)"
  obtains pub where "Suite_IsValid cl s" and "length pk = PublicKeySize cl (s_KEM s)"
    and "UnmarshalBinaryPublicKey cl (s_KEM s) pk = Inr pub"
proof -
  obtain pub priv where "Suite_IsValid cl s" "generated cl (s_KEM s) pub priv" "PublicKey_MarshalBinary cl pub = Inr pk"
    using assms by (auto simp: GenerateKeyPair_def attempt_Inr_iff generated_def split: if_splits)
  with public_key [of "s_KEM s" pub priv pk] show thesis by (intro that) simp_all
qed

lemma Open_Seal:
  assumes keys: "GenerateKeyPair cl ent s = Inr (pk, sk)"
    and sealed: "Seal cl ent' s pk info aad pt = Inr (enc, ct)"
  shows "Open cl s sk info enc aad ct = Inr pt"
proof -
  obtain pub priv where valid: "Suite_IsValid cl s" and gen: "generated cl (s_KEM s) pub priv"
    and pk: "PublicKey_MarshalBinary cl pub = Inr pk" and sk: "PrivateKey_MarshalBinary cl priv = Inr sk"
    using keys by (auto simp: GenerateKeyPair_def attempt_Inr_iff generated_def split: if_splits)
  obtain sender sealer where "NewSender cl s pub info = Inr sender"
    and "Sender_Setup cl sender ent' = Inr (enc, sealer)" and "Sealer_Seal cl sealer pt aad = Inr ct"
    using sealed public_key [OF gen pk] by (auto simp: Seal_def attempt_Inr_iff split: if_splits)
  from open_sealed [OF gen this] valid private_key [OF gen sk] show ?thesis
    by (auto simp: Open_def)
qed

end

subsection \<open>An implementation\<close>

text \<open>A library that meets the laws: a key is one byte, public and private alike, and a
  ciphertext carries the associated data and the plaintext in the clear. It shows that the laws
  can hold, and the witnesses evaluate on it.\<close>

definition ref_header :: "bytes \<Rightarrow> bytes \<Rightarrow> bytes" where
  "ref_header key aad = be 8 (length key) @ key @ be 8 (length aad) @ aad"

definition ref_circl :: "bytes circl" where
  "ref_circl =
    \<lparr>KEM_X25519_HKDF_SHA256 = 32, KDF_HKDF_SHA256 = 1, AEAD_AES128GCM = 1,
     KEM_IsValid = (\<lambda>k. k = 32), KDF_IsValid = (\<lambda>k. k = 1), AEAD_IsValid = (\<lambda>k. k = 1),
     PublicKeySize = (\<lambda>_. 1), PrivateKeySize = (\<lambda>_. 1),
     Scheme_GenerateKeyPair = (\<lambda>_ ent. Inr ([ent 0], [ent 0])),
     PublicKey_MarshalBinary = Inr, PrivateKey_MarshalBinary = Inr,
     UnmarshalBinaryPublicKey = (\<lambda>_. Inr), UnmarshalBinaryPrivateKey = (\<lambda>_. Inr),
     NewSender = (\<lambda>_ pub info. Inr (pub @ info)),
     Sender_Setup = (\<lambda>sender ent. Inr ([ent 0], ent 0 # sender)),
     Sealer_Seal = (\<lambda>sealer pt aad. Inr (ref_header sealer aad @ pt)),
     NewReceiver = (\<lambda>_ priv info. Inr (priv @ info)),
     Receiver_Setup = (\<lambda>receiver enc. Inr (enc @ receiver)),
     Opener_Open = (\<lambda>opener ct aad.
       let hdr = ref_header opener aad in
       if take (length hdr) ct = hdr then Inr (drop (length hdr) ct) else Inl ''open'')\<rparr>"

interpretation clref: circl_laws ref_circl
  by unfold_locales (auto simp: ref_circl_def generated_def Let_def)

text \<open>The wrapper's own checks.\<close>

lemma Seal_errors:
  "\<not> Suite_IsValid cl s \<Longrightarrow> Seal cl ent s pk info aad pt = Inl ErrInvalidSuite"
  "Suite_IsValid cl s \<Longrightarrow> length pk \<noteq> PublicKeySize cl (s_KEM s) \<Longrightarrow>
     Seal cl ent s pk info aad pt = Inl ErrKeySize"
  by (simp_all add: Seal_def)

lemma Open_errors:
  "\<not> Suite_IsValid cl s \<Longrightarrow> Open cl s sk info enc aad ct = Inl ErrInvalidSuite"
  "Suite_IsValid cl s \<Longrightarrow> length sk \<noteq> PrivateKeySize cl (s_KEM s) \<Longrightarrow>
     Open cl s sk info enc aad ct = Inl ErrKeySize"
  by (simp_all add: Open_def)

subsection \<open>Properties\<close>

text \<open>
  C35. What Seal returns for a generated key pair opens to the plaintext under the same info
  and associated data, and a key with bytes appended, which the library itself would accept, is
  refused by both operations with the key-size error.
\<close>

theorem hpke_roundtrip:
  assumes "circl_laws cl" and "GenerateKeyPair cl ent s = Inr (pk, sk)"
    and "Seal cl ent' s pk info aad pt = Inr (enc, ct)"
  shows "Open cl s sk info enc aad ct = Inr pt
    \<and> (\<forall>extra. extra \<noteq> [] \<longrightarrow> Open cl s (sk @ extra) info enc aad ct = Inl ErrKeySize
        \<and> Seal cl ent' s (pk @ extra) info aad pt = Inl ErrKeySize)"
proof -
  obtain pub priv where valid: "Suite_IsValid cl s" and gen: "generated cl (s_KEM s) pub priv"
    and pk: "PublicKey_MarshalBinary cl pub = Inr pk" and sk: "PrivateKey_MarshalBinary cl priv = Inr sk"
    using assms(2) by (auto simp: GenerateKeyPair_def attempt_Inr_iff generated_def split: if_splits)
  then have "length pk = PublicKeySize cl (s_KEM s)" "length sk = PrivateKeySize cl (s_KEM s)"
    using circl_laws.public_key [OF assms(1)] circl_laws.private_key [OF assms(1)] by blast+
  with valid show ?thesis
    using circl_laws.Open_Seal [OF assms] by (simp add: Open_errors(2) Seal_errors(2))
qed

theorem hpke_roundtrip_witness:
  "\<exists>enc ct. Seal ref_circl (\<lambda>_. 7) \<lparr>s_KEM = 32, s_KDF = 1, s_AEAD = 1\<rparr> [5] [1] [2] [3, 4] = Inr (enc, ct)
    \<and> Open ref_circl \<lparr>s_KEM = 32, s_KDF = 1, s_AEAD = 1\<rparr> [5] [1] enc [2] ct = Inr [3, 4]"
proof -
  let ?s = "\<lparr>s_KEM = 32, s_KDF = 1, s_AEAD = 1\<rparr>"
  have keys: "GenerateKeyPair ref_circl (\<lambda>_. 5) ?s = Inr ([5], [5])"
    by (simp add: GenerateKeyPair_def Suite_IsValid_def ref_circl_def)
  obtain enc ct where seal: "Seal ref_circl (\<lambda>_. 7) ?s [5] [1] [2] [3, 4] = Inr (enc, ct)"
    by (simp add: Seal_def Suite_IsValid_def ref_circl_def)
  with hpke_roundtrip [OF clref.circl_laws_axioms keys seal] show ?thesis by blast
qed

end
