(* ===== verification/Paths.thy ===== *)
theory Paths
  imports WireTypes
begin

unbundle bit_operations_syntax

text \<open>
  The resource paths of \<^verbatim>\<open>pkg/dap/helper/handler.go\<close>: rendering, parsing, and the parts of Go's
  standard library they rest on (\<^verbatim>\<open>strings.Split\<close>, \<^verbatim>\<open>strings.TrimPrefix\<close> and the unpadded
  base64url codec \<^verbatim>\<open>base64.RawURLEncoding\<close>, which skips line breaks and does not check the
  unused low bits of a final partial group).
\<close>

subsection \<open>Strings\<close>

definition TrimPrefix :: "string \<Rightarrow> string \<Rightarrow> string" where
  "TrimPrefix s pre = (if take (length pre) s = pre then drop (length pre) s else s)"

text \<open>\<^verbatim>\<open>strings.Split(s, "/")\<close>: never the empty list\<close>

fun Split :: "string \<Rightarrow> string list" where
  "Split [] = [[]]"
| "Split (c # s) =
     (if c = CHR ''/'' then [] # Split s
      else case Split s of [] \<Rightarrow> [[c]] | p # ps \<Rightarrow> (c # p) # ps)"

lemma Split_ne [simp]: "Split s \<noteq> []"
  by (induction s) (auto split: list.split)

lemma Split_single [simp]: "CHR ''/'' \<notin> set p \<Longrightarrow> Split p = [p]"
  by (induction p) auto

lemma Split_append: "CHR ''/'' \<notin> set p \<Longrightarrow> Split (p @ CHR ''/'' # s) = p # Split s"
  by (induction p) auto

subsection \<open>base64.RawURLEncoding\<close>

definition alphabet :: string where
  "alphabet = ''ABCDEFGHIJKLMNOPQRSTUVWXYZabcdefghijklmnopqrstuvwxyz0123456789-_''"

definition decodeMap :: "char \<Rightarrow> 8 word option" where
  "decodeMap c = map_of (zip alphabet (map word_of_nat [0..<64])) c"

definition encodeMap :: "8 word \<Rightarrow> char" where
  "encodeMap v = alphabet ! unat (v AND 63)"

text \<open>Three bytes are four digits; one or two left over are two or three digits, the missing low
  bits being zero.\<close>

fun EncodeToString :: "bytes \<Rightarrow> string" where
  "EncodeToString [] = []"
| "EncodeToString [a] = [encodeMap (drop_bit 2 a), encodeMap (push_bit 4 a)]"
| "EncodeToString [a, b] =
     [encodeMap (drop_bit 2 a), encodeMap (push_bit 4 a OR drop_bit 4 b), encodeMap (push_bit 2 b)]"
| "EncodeToString (a # b # c # rest) =
     [encodeMap (drop_bit 2 a), encodeMap (push_bit 4 a OR drop_bit 4 b),
      encodeMap (push_bit 2 b OR drop_bit 6 c), encodeMap c] @ EncodeToString rest"

fun decodeDigits :: "8 word list \<Rightarrow> bytes option" where
  "decodeDigits [] = Some []"
| "decodeDigits [v] = None"
| "decodeDigits [v, w] = Some [push_bit 2 v OR drop_bit 4 w]"
| "decodeDigits [v, w, x] = Some [push_bit 2 v OR drop_bit 4 w, push_bit 4 w OR drop_bit 2 x]"
| "decodeDigits (v # w # x # y # rest) =
     map_option ((@) [push_bit 2 v OR drop_bit 4 w, push_bit 4 w OR drop_bit 2 x, push_bit 6 x OR y])
       (decodeDigits rest)"

definition DecodeString :: "string \<Rightarrow> bytes option" where
  "DecodeString s =
     (case those (map decodeMap (filter (\<lambda>c. c \<noteq> CHR 0x0A \<and> c \<noteq> CHR 0x0D) s)) of
        None \<Rightarrow> None | Some ds \<Rightarrow> decodeDigits ds)"

lemma decodeMap_alphabet: "i < 64 \<Longrightarrow> decodeMap (alphabet ! i) = Some (word_of_nat i)"
proof -
  assume i: "i < 64"
  have d: "distinct alphabet" and l: "length alphabet = 64" by (simp_all add: alphabet_def)
  have "(alphabet ! i, word_of_nat i) \<in> set (zip alphabet (map word_of_nat [0..<64] :: 8 word list))"
    using i l by (auto simp: set_zip intro!: exI [of _ i])
  then show ?thesis unfolding decodeMap_def using d by (intro map_of_is_SomeI) (simp_all add: l)
qed

lemma and_63: "unat (v AND 63 :: 8 word) < 64"
proof -
  have "v AND 63 = take_bit 6 v" by (simp add: take_bit_eq_mask mask_eq_exp_minus_1)
  then show ?thesis by (simp add: unsigned_take_bit_eq take_bit_nat_less_exp [of 6, simplified])
qed

lemma decodeMap_encodeMap [simp]: "decodeMap (encodeMap v) = Some (v AND 63)"
  by (simp add: encodeMap_def decodeMap_alphabet and_63)

lemma alphabet_chars: "c \<in> set alphabet \<Longrightarrow> c \<noteq> CHR ''/'' \<and> c \<noteq> CHR 0x0A \<and> c \<noteq> CHR 0x0D"
  by (auto simp: alphabet_def)

lemma encodeMap_alphabet: "encodeMap v \<in> set alphabet"
proof -
  have "length alphabet = 64" by (simp add: alphabet_def)
  then show ?thesis unfolding encodeMap_def using and_63 [of v] by simp
qed

lemma EncodeToString_alphabet: "set (EncodeToString b) \<subseteq> set alphabet"
  by (induction b rule: EncodeToString.induct) (simp_all add: encodeMap_alphabet)

lemmas digit_bits = bit_and_iff bit_or_iff bit_push_bit_iff bit_drop_bit_eq

lemma mask_bits: "bit (63 :: 8 word) n \<longleftrightarrow> n < 6"
proof -
  have "bit (63 :: 8 word) n \<longleftrightarrow> bit (mask 6 :: 8 word) n" by (simp add: mask_eq_exp_minus_1)
  then show ?thesis by (auto simp only: bit_mask_iff possible_bit_word) simp
qed

lemma join_digits:
  fixes a b c :: "8 word"
  shows "push_bit 2 (drop_bit 2 a AND 63) OR drop_bit 4 ((push_bit 4 a OR drop_bit 4 b) AND 63) = a"
    and "push_bit 4 ((push_bit 4 a OR drop_bit 4 b) AND 63) OR drop_bit 2 ((push_bit 2 b OR drop_bit 6 c) AND 63) = b"
    and "push_bit 6 ((push_bit 2 b OR drop_bit 6 c) AND 63) OR (c AND 63) = c"
proof -
  have low: "n = 0 \<or> n = 1 \<or> n = 2 \<or> n = 3 \<or> n = 4 \<or> n = 5 \<or> n = 6 \<or> n = 7" if "n < LENGTH(8)" for n
    using that by auto
  have hi: "\<not> bit (x :: 8 word) 8" "\<not> bit (x :: 8 word) 9" "\<not> bit (x :: 8 word) 10" "\<not> bit (x :: 8 word) 11"
     "\<not> bit (x :: 8 word) 12" "\<not> bit (x :: 8 word) 13" for x
    using bit_imp_le_length [of x] by fastforce+
  show "push_bit 2 (drop_bit 2 a AND 63) OR drop_bit 4 ((push_bit 4 a OR drop_bit 4 b) AND 63) = a"
    by (rule bit_word_eqI, drule low) (elim disjE; simp add: bit_simps mask_bits hi)
  show "push_bit 4 ((push_bit 4 a OR drop_bit 4 b) AND 63) OR drop_bit 2 ((push_bit 2 b OR drop_bit 6 c) AND 63) = b"
    by (rule bit_word_eqI, drule low) (elim disjE; simp add: bit_simps mask_bits hi)
  show "push_bit 6 ((push_bit 2 b OR drop_bit 6 c) AND 63) OR (c AND 63) = c"
    by (rule bit_word_eqI, drule low) (elim disjE; simp add: bit_simps mask_bits hi)
qed

lemma decodeDigits_EncodeToString:
  "\<exists>ds. those (map decodeMap (EncodeToString b)) = Some ds \<and> decodeDigits ds = Some b"
proof (induction b rule: EncodeToString.induct)
  case (2 a)
  then show ?case using join_digits(1) [of a 0] by simp
next
  case (3 a b)
  then show ?case using join_digits(1) [of a b] join_digits(2) [of a b 0] by simp
next
  case (4 a b c rest)
  then obtain ds where "those (map decodeMap (EncodeToString rest)) = Some ds" "decodeDigits ds = Some rest" by blast
  then show ?case using join_digits [of a b] join_digits(3) [of b c] join_digits(2) [of a b c] by simp
qed simp

lemma DecodeString_EncodeToString [simp]: "DecodeString (EncodeToString b) = Some b"
proof -
  have "filter (\<lambda>c. c \<noteq> CHR 0x0A \<and> c \<noteq> CHR 0x0D) (EncodeToString b) = EncodeToString b"
    using EncodeToString_alphabet [of b] alphabet_chars by (auto simp: filter_id_conv)
  with decodeDigits_EncodeToString [of b] show ?thesis by (auto simp: DecodeString_def)
qed

lemma EncodeToString_no_slash [simp]: "CHR ''/'' \<notin> set (EncodeToString b)"
  using EncodeToString_alphabet [of b] alphabet_chars by blast

subsection \<open>Paths\<close>

definition JobIDSize :: nat where "JobIDSize = 16"

type_synonym job_id = bytes

definition resourcePath :: "task_id \<Rightarrow> job_id \<Rightarrow> string" where
  "resourcePath taskID jobID =
     ''/tasks/'' @ EncodeToString taskID @ ''/aggregation_jobs/'' @ EncodeToString jobID"

text \<open>The identifier in a path segment, if it decodes to the right number of bytes.\<close>

definition decodeID :: "nat \<Rightarrow> string \<Rightarrow> bytes option" where
  "decodeID n s =
     (case DecodeString s of None \<Rightarrow> None | Some b \<Rightarrow> if length b \<noteq> n then None else Some b)"

text \<open>The results are \<open>(taskID, None)\<close> for the collection URL and \<open>(taskID, Some jobID)\<close> for a
  resource URL; None is \<open>ok = false\<close>.\<close>

definition parseAggregationPath :: "string \<Rightarrow> (task_id \<times> job_id option) option" where
  "parseAggregationPath p =
     (let parts = Split (TrimPrefix p ''/'') in
      if length parts < 3 \<or> length parts > 4 \<or> parts ! 0 \<noteq> ''tasks'' \<or> parts ! 2 \<noteq> ''aggregation_jobs''
      then None
      else case decodeID TaskIDSize (parts ! 1) of
             None \<Rightarrow> None
           | Some taskID \<Rightarrow>
               if length parts = 3 then Some (taskID, None)
               else (case decodeID JobIDSize (parts ! 3) of
                       None \<Rightarrow> None
                     | Some jobID \<Rightarrow> Some (taskID, Some jobID)))"

definition parseAggregateSharePath :: "string \<Rightarrow> task_id option" where
  "parseAggregateSharePath p =
     (let parts = Split (TrimPrefix p ''/'') in
      if length parts \<noteq> 4 \<or> parts ! 0 \<noteq> ''tasks'' \<or> parts ! 2 \<noteq> ''aggregate_shares'' then None
      else decodeID TaskIDSize (parts ! 1))"

lemma decodeID_encode [simp]: "length b = n \<Longrightarrow> decodeID n (EncodeToString b) = Some b"
  by (simp add: decodeID_def)

lemma decodeID_length: "decodeID n s = Some b \<Longrightarrow> length b = n"
  by (auto simp: decodeID_def split: option.splits if_splits)

lemma parse_lengths:
  "parseAggregationPath p = Some (t, j) \<Longrightarrow> length t = TaskIDSize \<and> (\<forall>i. j = Some i \<longrightarrow> length i = JobIDSize)"
  "parseAggregateSharePath p = Some t \<Longrightarrow> length t = TaskIDSize"
  by (auto simp: parseAggregationPath_def parseAggregateSharePath_def Let_def
      split: if_splits option.splits dest: decodeID_length)

lemma parse_exclusive: "parseAggregateSharePath p = Some t \<Longrightarrow> parseAggregationPath p = None"
  by (auto simp: parseAggregationPath_def parseAggregateSharePath_def Let_def split: if_splits)

lemma Split_resource:
  "Split (TrimPrefix (''/tasks/'' @ EncodeToString t @ ''/'' @ c @ ''/'' @ EncodeToString j) ''/'')
     = [''tasks'', EncodeToString t, c, EncodeToString j]" if "CHR ''/'' \<notin> set c"
  using that Split_append [of "EncodeToString t"] Split_append [of c] Split_append [of "''tasks''"]
  by (simp add: TrimPrefix_def)

lemma Split_collection:
  "Split (TrimPrefix (''/tasks/'' @ EncodeToString t @ ''/'' @ c) ''/'') = [''tasks'', EncodeToString t, c]"
  if "CHR ''/'' \<notin> set c"
  using that Split_append [of "EncodeToString t"] Split_append [of "''tasks''"]
  by (simp add: TrimPrefix_def)

lemma parse_paths:
  assumes "length t = 32" and "length j = 16"
  shows "parseAggregationPath (resourcePath t j) = Some (t, Some j)
    \<and> parseAggregateSharePath (resourcePath t j) = None
    \<and> parseAggregationPath (''/tasks/'' @ EncodeToString t @ ''/aggregation_jobs'') = Some (t, None)
    \<and> parseAggregateSharePath (''/tasks/'' @ EncodeToString t @ ''/aggregate_shares/'' @ EncodeToString j) = Some t"
proof -
  have lens: "length t = TaskIDSize" "length j = JobIDSize" using assms by (simp_all add: TaskIDSize_def JobIDSize_def)
  have r: "Split (TrimPrefix (resourcePath t j) ''/'') = [''tasks'', EncodeToString t, ''aggregation_jobs'', EncodeToString j]"
    using Split_resource [of "''aggregation_jobs''" t j] by (simp add: resourcePath_def)
  have s: "Split (TrimPrefix (''/tasks/'' @ EncodeToString t @ ''/aggregate_shares/'' @ EncodeToString j) ''/'')
      = [''tasks'', EncodeToString t, ''aggregate_shares'', EncodeToString j]"
    using Split_resource [of "''aggregate_shares''" t j] by simp
  have c: "Split (TrimPrefix (''/tasks/'' @ EncodeToString t @ ''/aggregation_jobs'') ''/'')
      = [''tasks'', EncodeToString t, ''aggregation_jobs'']"
    using Split_collection [of "''aggregation_jobs''" t] by simp
  have "parseAggregationPath (resourcePath t j) = Some (t, Some j)" "parseAggregateSharePath (resourcePath t j) = None"
    unfolding parseAggregationPath_def parseAggregateSharePath_def r using lens by simp_all
  moreover have "parseAggregationPath (''/tasks/'' @ EncodeToString t @ ''/aggregation_jobs'') = Some (t, None)"
    unfolding parseAggregationPath_def c using lens by simp
  moreover have "parseAggregateSharePath (''/tasks/'' @ EncodeToString t @ ''/aggregate_shares/'' @ EncodeToString j) = Some t"
    unfolding parseAggregateSharePath_def s using lens by simp
  ultimately show ?thesis by blast
qed

text \<open>
  C36. The Location path the helper answers with parses back to the same task and job and to no
  other resource, and the collection and aggregate-share paths of a task parse to that task.
\<close>

theorem path_roundtrip:
  assumes "length t = 32" and "length j = 16"
  shows "parseAggregationPath (resourcePath t j) = Some (t, Some j)
    \<and> parseAggregateSharePath (resourcePath t j) = None
    \<and> parseAggregationPath (''/tasks/'' @ EncodeToString t @ ''/aggregation_jobs'') = Some (t, None)
    \<and> parseAggregateSharePath (''/tasks/'' @ EncodeToString t @ ''/aggregate_shares/'' @ EncodeToString j) = Some t"
  by (rule parse_paths [OF assms])

theorem path_roundtrip_witness:
  "parseAggregationPath (resourcePath (replicate 32 250) (replicate 16 7)) = Some (replicate 32 250, Some (replicate 16 7))"
  using path_roundtrip [of "replicate 32 250" "replicate 16 7"] by simp

end
