(* ===== verification/Store.thy ===== *)
theory Store
  imports WireJob Field64 Hpke Paths "HOL-Library.List_Lexorder" "HOL-Library.Product_Lexorder"
begin

text \<open>
  The records of \<^verbatim>\<open>pkg/dap/helper/helper.go\<close> (\<open>Task\<close>, \<open>ReportAggregation\<close>, \<open>AggregationJob\<close>) and
  the in-memory store of \<^verbatim>\<open>store.go\<close>. Every store operation runs under the store's mutex, so
  each is one function of the store's state: it is atomic, and the interleavings of several
  requests are sequences of these functions (theory Server).
\<close>

subsection \<open>Records\<close>

type_synonym verify_key = bytes

record task =
  t_TaskID :: task_id
  t_Variant :: variant
  t_TaskConfig :: task_configuration
  t_VDAFContext :: bytes
  t_VerifyKeys :: "8 word \<rightharpoonup> verify_key"
  t_HPKESuite :: suite
  t_HPKEConfigID :: hpke_config_id
  t_HPKEPublicKey :: bytes
  t_HPKEPrivateKey :: bytes
  t_CollectorHPKESuite :: suite
  t_CollectorHPKEConfigID :: hpke_config_id
  t_CollectorHPKEPublicKey :: bytes

datatype report_agg_state = StateFinished | StateFailed

text \<open>None is a nil \<open>OutShare\<close>.\<close>

record report_aggregation =
  ra_ReportID :: report_id
  ra_Ord :: "64 word"
  ra_State :: report_agg_state
  ra_OutShare :: "elt list option"
  ra_LastVerifyResp :: verify_resp
  ra_ReportError :: report_error

datatype job_state = JobActive | JobAbandoned

record aggregation_job =
  aj_TaskID :: task_id
  aj_AggregationJobID :: job_id
  aj_AggParam :: bytes
  aj_State :: job_state
  aj_ReportAggs :: "report_aggregation list"
  aj_Response :: aggjob_resp
  aj_LastRequestHash :: bytes

subsection \<open>The store\<close>

datatype store_error = ErrJobMutation

type_synonym job_key = "task_id \<times> job_id"
type_synonym report_key = "task_id \<times> report_id"

record mem_store =
  ms_tasks :: "task_id \<rightharpoonup> task"
  ms_jobs :: "job_key \<rightharpoonup> aggregation_job"
  ms_claims :: "report_key \<rightharpoonup> job_id"

definition AddTask :: "mem_store \<Rightarrow> task \<Rightarrow> mem_store" where
  "AddTask m task = m\<lparr>ms_tasks := (ms_tasks m)(t_TaskID task \<mapsto> task)\<rparr>"

definition NewMemStore :: "task list \<Rightarrow> mem_store" where
  "NewMemStore tasks = fold (\<lambda>t m. m\<lparr>ms_tasks := (ms_tasks m)(t_TaskID t \<mapsto> t)\<rparr>) tasks
     \<lparr>ms_tasks = Map.empty, ms_jobs = Map.empty, ms_claims = Map.empty\<rparr>"

definition GetTask :: "mem_store \<Rightarrow> task_id \<Rightarrow> task option" where
  "GetTask m taskID = ms_tasks m taskID"

definition GetJob :: "mem_store \<Rightarrow> task_id \<Rightarrow> job_id \<Rightarrow> aggregation_job option" where
  "GetJob m taskID jobID = ms_jobs m (taskID, jobID)"

text \<open>Go ranges over a map in an unspecified order: \<open>order\<close> is the order of the keys it takes in
  this call, any list of the map's keys without repetition.\<close>

type_synonym iteration = "(job_key \<rightharpoonup> aggregation_job) \<Rightarrow> job_key list"

definition ranges :: "iteration \<Rightarrow> bool" where
  "ranges order \<longleftrightarrow> (\<forall>jobs. finite (dom jobs) \<longrightarrow> distinct (order jobs) \<and> set (order jobs) = dom jobs)"

definition JobsForTask :: "iteration \<Rightarrow> mem_store \<Rightarrow> task_id \<Rightarrow> aggregation_job list" where
  "JobsForTask order m taskID =
     List.map_filter (\<lambda>k. if fst k = taskID then ms_jobs m k else None) (order (ms_jobs m))"

definition PutJob :: "mem_store \<Rightarrow> aggregation_job \<Rightarrow> mem_store \<times> (store_error + unit)" where
  "PutJob m job =
     (let key = (aj_TaskID job, aj_AggregationJobID job) in
      case ms_jobs m key of
        Some existing \<Rightarrow>
          if aj_LastRequestHash existing = aj_LastRequestHash job then (m, Inr ())
          else (m, Inl ErrJobMutation)
      | None \<Rightarrow> (m\<lparr>ms_jobs := (ms_jobs m)(key \<mapsto> job)\<rparr>, Inr ()))"

primrec ClaimReportIDs ::
  "mem_store \<Rightarrow> task_id \<Rightarrow> job_id \<Rightarrow> report_id list \<Rightarrow> mem_store \<times> report_id list" where
  "ClaimReportIDs m taskID jobID [] = (m, [])"
| "ClaimReportIDs m taskID jobID (r # ids) =
     (case ms_claims m (taskID, r) of
        None \<Rightarrow> ClaimReportIDs (m\<lparr>ms_claims := (ms_claims m)((taskID, r) \<mapsto> jobID)\<rparr>) taskID jobID ids
      | Some owner \<Rightarrow>
          (case ClaimReportIDs m taskID jobID ids of
             (m, replayed) \<Rightarrow> (m, if owner \<noteq> jobID then r # replayed else replayed)))"

text \<open>The store hands out pointers: \<open>GetJob\<close> returns the stored object, \<open>PutJob\<close> stores the object it is
  given, and a handler that holds one writes into the stored job. The handlers write into the
  \<open>Response\<close> only. The object a handler holds is the stored one when the two agree in every
  other field; when it is no longer stored, nobody else sees the write.\<close>

definition WriteResponse :: "mem_store \<Rightarrow> aggregation_job \<Rightarrow> (aggjob_resp \<Rightarrow> aggjob_resp) \<Rightarrow> mem_store" where
  "WriteResponse m job f =
     (let key = (aj_TaskID job, aj_AggregationJobID job) in
      case ms_jobs m key of
        Some x \<Rightarrow>
          if x\<lparr>aj_Response := aj_Response job\<rparr> = job
          then m\<lparr>ms_jobs := (ms_jobs m)(key \<mapsto> x\<lparr>aj_Response := f (aj_Response x)\<rparr>)\<rparr>
          else m
      | None \<Rightarrow> m)"

definition DeleteJob :: "mem_store \<Rightarrow> task_id \<Rightarrow> job_id \<Rightarrow> mem_store" where
  "DeleteJob m taskID jobID = m\<lparr>ms_jobs := (ms_jobs m)((taskID, jobID) := None)\<rparr>"

subsection \<open>The Store interface\<close>

text \<open>The Go interface: the handler reaches a store through these operations only, and through the
  job pointers they hand out (\<open>st_WriteResponse\<close>).\<close>

record 's store =
  st_AddTask :: "'s \<Rightarrow> task \<Rightarrow> 's"
  st_GetTask :: "'s \<Rightarrow> task_id \<Rightarrow> task option"
  st_GetJob :: "'s \<Rightarrow> task_id \<Rightarrow> job_id \<Rightarrow> aggregation_job option"
  st_JobsForTask :: "'s \<Rightarrow> task_id \<Rightarrow> aggregation_job list"
  st_PutJob :: "'s \<Rightarrow> aggregation_job \<Rightarrow> 's \<times> (store_error + unit)"
  st_ClaimReportIDs :: "'s \<Rightarrow> task_id \<Rightarrow> job_id \<Rightarrow> report_id list \<Rightarrow> 's \<times> report_id list"
  st_DeleteJob :: "'s \<Rightarrow> task_id \<Rightarrow> job_id \<Rightarrow> 's"
  st_WriteResponse :: "'s \<Rightarrow> aggregation_job \<Rightarrow> (aggjob_resp \<Rightarrow> aggjob_resp) \<Rightarrow> 's"

definition memStore :: "iteration \<Rightarrow> mem_store store" where
  "memStore order = \<lparr>st_AddTask = AddTask, st_GetTask = GetTask, st_GetJob = GetJob,
     st_JobsForTask = JobsForTask order, st_PutJob = PutJob, st_ClaimReportIDs = ClaimReportIDs,
     st_DeleteJob = DeleteJob, st_WriteResponse = WriteResponse\<rparr>"

text \<open>What the interface's comments promise, over the tasks, jobs and claims a store holds.\<close>

definition key_of :: "aggregation_job \<Rightarrow> job_key" where
  "key_of job = (aj_TaskID job, aj_AggregationJobID job)"

definition claimed :: "(report_key \<rightharpoonup> job_id) \<Rightarrow> task_id \<Rightarrow> job_id \<Rightarrow> report_id list \<Rightarrow> (report_key \<rightharpoonup> job_id)" where
  "claimed c t j ids =
     (\<lambda>(t', r). if t' = t \<and> r \<in> set ids \<and> c (t', r) = None then Some j else c (t', r))"

definition written ::
  "(job_key \<rightharpoonup> aggregation_job) \<Rightarrow> aggregation_job \<Rightarrow> (aggjob_resp \<Rightarrow> aggjob_resp) \<Rightarrow> (job_key \<rightharpoonup> aggregation_job)" where
  "written jobs job f =
     (case jobs (key_of job) of
        Some x \<Rightarrow> if x\<lparr>aj_Response := aj_Response job\<rparr> = job
          then jobs(key_of job \<mapsto> x\<lparr>aj_Response := f (aj_Response x)\<rparr>) else jobs
      | None \<Rightarrow> jobs)"

locale store_contract =
  fixes st :: "'s store"
    and tasks :: "'s \<Rightarrow> task_id \<rightharpoonup> task"
    and jobs :: "'s \<Rightarrow> job_key \<rightharpoonup> aggregation_job"
    and claims :: "'s \<Rightarrow> report_key \<rightharpoonup> job_id"
    and wf :: "'s \<Rightarrow> bool"
  assumes get_task: "st_GetTask st s t = tasks s t"
    and get_job: "st_GetJob st s t j = jobs s (t, j)"
    and jobs_for_task: "wf s \<Longrightarrow> mset (st_JobsForTask st s t)
      = image_mset (\<lambda>k. the (jobs s k)) (mset_set {k \<in> dom (jobs s). fst k = t})"
    and wf_finite: "wf s \<Longrightarrow> finite (dom (jobs s))"
    and add_task: "tasks (st_AddTask st s x) = (tasks s)(t_TaskID x \<mapsto> x)"
      "jobs (st_AddTask st s x) = jobs s" "claims (st_AddTask st s x) = claims s" "wf s \<Longrightarrow> wf (st_AddTask st s x)"
    and put_job: "st_PutJob st s job = (s', r) \<Longrightarrow> tasks s' = tasks s \<and> claims s' = claims s \<and> (wf s \<longrightarrow> wf s')
      \<and> (case jobs s (key_of job) of
           None \<Rightarrow> r = Inr () \<and> jobs s' = (jobs s)(key_of job \<mapsto> job)
         | Some old \<Rightarrow> jobs s' = jobs s
             \<and> r = (if aj_LastRequestHash old = aj_LastRequestHash job then Inr () else Inl ErrJobMutation))"
    and claim: "st_ClaimReportIDs st s t j ids = (s', replayed) \<Longrightarrow>
      tasks s' = tasks s \<and> jobs s' = jobs s \<and> claims s' = claimed (claims s) t j ids \<and> (wf s \<longrightarrow> wf s')
      \<and> set replayed = {r \<in> set ids. \<exists>i. claims s (t, r) = Some i \<and> i \<noteq> j}"
    and delete_job: "tasks (st_DeleteJob st s t j) = tasks s" "claims (st_DeleteJob st s t j) = claims s"
      "jobs (st_DeleteJob st s t j) = (jobs s)((t, j) := None)" "wf s \<Longrightarrow> wf (st_DeleteJob st s t j)"
    and write_response: "tasks (st_WriteResponse st s job f) = tasks s" "claims (st_WriteResponse st s job f) = claims s"
      "jobs (st_WriteResponse st s job f) = written (jobs s) job f" "wf s \<Longrightarrow> wf (st_WriteResponse st s job f)"

subsection \<open>The in-memory store keeps the contract\<close>

definition mem_wf :: "mem_store \<Rightarrow> bool" where
  "mem_wf m \<longleftrightarrow> finite (dom (ms_jobs m))"

lemma claimed_Nil [simp]: "claimed c t j [] = c"
  by (auto simp: claimed_def)

lemma claimed_Cons: "claimed c t j (r # ids) = claimed (if c (t, r) = None then c((t, r) \<mapsto> j) else c) t j ids"
  by (auto simp: claimed_def fun_eq_iff)

lemma ClaimReportIDs_claims:
  "ClaimReportIDs m t j ids = (m', replayed) \<Longrightarrow>
     ms_tasks m' = ms_tasks m \<and> ms_jobs m' = ms_jobs m \<and> ms_claims m' = claimed (ms_claims m) t j ids"
proof (induction ids arbitrary: m m' replayed)
  case (Cons r ids)
  then show ?case
    by (cases "ms_claims m (t, r)")
      (fastforce simp: claimed_Cons split: prod.splits)+
qed simp

lemma ClaimReportIDs_replayed:
  "ClaimReportIDs m t j ids = (m', replayed) \<Longrightarrow>
     set replayed = {r \<in> set ids. \<exists>i. ms_claims m (t, r) = Some i \<and> i \<noteq> j}"
proof (induction ids arbitrary: m m' replayed)
  case (Cons r ids)
  show ?case
  proof (cases "ms_claims m (t, r)")
    case None
    with Cons show ?thesis by (auto split: if_splits)
  next
    case (Some i)
    with Cons show ?thesis by (auto split: prod.splits if_splits)
  qed
qed simp

text \<open>A job created again under the ID of a deleted one keeps its claims: it may aggregate the same
  reports once more.\<close>

lemma deleted_job_reclaims:
  assumes "ClaimReportIDs (DeleteJob m t j) t j ids = (m', replayed)" and "ms_claims m (t, r) = Some j"
  shows "r \<notin> set replayed"
  using ClaimReportIDs_replayed [OF assms(1)] assms(2) by (simp add: DeleteJob_def)

lemma JobsForTask_mset:
  assumes "ranges order" and "mem_wf m"
  shows "mset (JobsForTask order m t)
    = image_mset (\<lambda>k. the (ms_jobs m k)) (mset_set {k \<in> dom (ms_jobs m). fst k = t})"
proof -
  have ks: "distinct (order (ms_jobs m))" "set (order (ms_jobs m)) = dom (ms_jobs m)"
    using assms by (simp_all add: ranges_def mem_wf_def)
  have "List.map_filter (\<lambda>k. if fst k = t then ms_jobs m k else None) ks
      = map (\<lambda>k. the (ms_jobs m k)) (filter (\<lambda>k. fst k = t) ks)" if "set ks \<subseteq> dom (ms_jobs m)" for ks
    using that by (induction ks) (auto simp: List.map_filter_simps)
  then have "JobsForTask order m t = map (\<lambda>k. the (ms_jobs m k)) (filter (\<lambda>k. fst k = t) (order (ms_jobs m)))"
    using ks by (simp add: JobsForTask_def)
  moreover have "mset (filter (\<lambda>k. fst k = t) (order (ms_jobs m))) = mset_set {k \<in> dom (ms_jobs m). fst k = t}"
    using mset_set_set [of "filter (\<lambda>k. fst k = t) (order (ms_jobs m))"] ks by simp
  ultimately show ?thesis by simp
qed

lemma memStore_contract:
  assumes "ranges order"
  shows "store_contract (memStore order) ms_tasks ms_jobs ms_claims mem_wf"
proof
  fix m m' :: mem_store and t j ids replayed job r f
  have wr: "ms_jobs (WriteResponse m job f) = written (ms_jobs m) job f" "ms_tasks (WriteResponse m job f) = ms_tasks m"
    "ms_claims (WriteResponse m job f) = ms_claims m"
    by (simp_all add: WriteResponse_def written_def key_of_def Let_def split: option.split)
  show "ms_tasks (st_WriteResponse (memStore order) m job f) = ms_tasks m"
    "ms_claims (st_WriteResponse (memStore order) m job f) = ms_claims m"
    "ms_jobs (st_WriteResponse (memStore order) m job f) = written (ms_jobs m) job f"
    by (simp_all add: memStore_def wr)
  show "mem_wf m \<Longrightarrow> mem_wf (st_WriteResponse (memStore order) m job f)"
    by (auto simp: memStore_def mem_wf_def wr written_def split: option.split)
  show "mem_wf m \<Longrightarrow> mset (st_JobsForTask (memStore order) m t)
      = image_mset (\<lambda>k. the (ms_jobs m k)) (mset_set {k \<in> dom (ms_jobs m). fst k = t})"
    using JobsForTask_mset [OF assms] by (simp add: memStore_def)
  show "st_PutJob (memStore order) m job = (m', r) \<Longrightarrow> ms_tasks m' = ms_tasks m \<and> ms_claims m' = ms_claims m
      \<and> (mem_wf m \<longrightarrow> mem_wf m') \<and> (case ms_jobs m (key_of job) of
           None \<Rightarrow> r = Inr () \<and> ms_jobs m' = (ms_jobs m)(key_of job \<mapsto> job)
         | Some old \<Rightarrow> ms_jobs m' = ms_jobs m
             \<and> r = (if aj_LastRequestHash old = aj_LastRequestHash job then Inr () else Inl ErrJobMutation))"
    by (auto simp: memStore_def PutJob_def key_of_def mem_wf_def Let_def split: option.splits if_splits)
  show "st_ClaimReportIDs (memStore order) m t j ids = (m', replayed) \<Longrightarrow>
      ms_tasks m' = ms_tasks m \<and> ms_jobs m' = ms_jobs m \<and> ms_claims m' = claimed (ms_claims m) t j ids
      \<and> (mem_wf m \<longrightarrow> mem_wf m') \<and> set replayed = {r \<in> set ids. \<exists>i. ms_claims m (t, r) = Some i \<and> i \<noteq> j}"
    using ClaimReportIDs_claims ClaimReportIDs_replayed by (auto simp: memStore_def mem_wf_def)
qed (auto simp: memStore_def GetTask_def GetJob_def AddTask_def DeleteJob_def mem_wf_def)

text \<open>One order of iteration, the sorted keys; the contract is interpreted on the store that
  ranges in it, and \<open>memStore_contract\<close> covers every other.\<close>

definition keyOrder :: iteration where
  "keyOrder jobs = sorted_list_of_set (dom jobs)"

lemma ranges_keyOrder: "ranges keyOrder"
  by (simp add: ranges_def keyOrder_def)

interpretation mem: store_contract "memStore keyOrder" ms_tasks ms_jobs ms_claims mem_wf
  by (rule memStore_contract [OF ranges_keyOrder])

lemma NewMemStore_simps [simp]:
  "ms_jobs (NewMemStore ts) = Map.empty" "ms_claims (NewMemStore ts) = Map.empty" "mem_wf (NewMemStore ts)"
proof -
  have *: "ms_jobs (fold (\<lambda>t m. m\<lparr>ms_tasks := (ms_tasks m)(t_TaskID t \<mapsto> t)\<rparr>) ts m) = ms_jobs m
    \<and> ms_claims (fold (\<lambda>t m. m\<lparr>ms_tasks := (ms_tasks m)(t_TaskID t \<mapsto> t)\<rparr>) ts m) = ms_claims m" for m :: mem_store
    by (induction ts arbitrary: m) simp_all
  then show "ms_jobs (NewMemStore ts) = Map.empty" "ms_claims (NewMemStore ts) = Map.empty" "mem_wf (NewMemStore ts)"
    by (simp_all add: NewMemStore_def mem_wf_def)
qed

end
