(* ===== verification/Helper.thy ===== *)
theory Helper
  imports Prio3Correct Sha256 Store
begin

text \<open>
  \<^verbatim>\<open>pkg/dap/helper/helper.go\<close>: the helper's initialization of a single report and of a whole
  aggregation job. The libraries the code calls are gathered in a record: the byte builder of
  cryptobyte, the HPKE implementation of circl, and the XOF of the VDAF (the code's own, which
  theory Prio3 takes as an argument). A result is None where verification does not return.
\<close>

record ('b, 'o) env =
  e_cb :: "'b cryptobyte"
  e_cl :: "'o circl"
  e_xp :: expander

definition helperAggregatorID :: "8 word" where "helperAggregatorID = 1"
definition numAggregators :: "8 word" where "numAggregators = 2"

definition roleCollector :: "8 word" where "roleCollector = 0"
definition roleClient :: "8 word" where "roleClient = 1"
definition roleHelper :: "8 word" where "roleHelper = 3"

definition aggregateShareInfo :: "variant \<Rightarrow> bytes" where
  "aggregateShareInfo v = ascii (VersionString v @ '' aggregate share'') @ [roleHelper, roleCollector]"

definition helperInputShareInfo :: "variant \<Rightarrow> bytes" where
  "helperInputShareInfo v = ascii (VersionString v @ '' input share'') @ [roleClient, roleHelper]"

definition DAPVDAFContextFor :: "variant \<Rightarrow> task_id \<Rightarrow> bytes" where
  "DAPVDAFContextFor v taskID = ascii (VersionString v) @ taskID"

definition afterDraft18 :: "variant \<Rightarrow> bool" where
  "afterDraft18 v \<longleftrightarrow> v = VariantDraft19 \<or> v = VariantDraft20"

definition DAPVDAFContext :: "task_id \<Rightarrow> bytes" where
  "DAPVDAFContext taskID = DAPVDAFContextFor VariantDraft18 taskID"

subsection \<open>One report\<close>

definition validReportExtensions :: "extension list \<Rightarrow> extension list \<Rightarrow> bool" where
  "validReportExtensions pub priv \<longleftrightarrow> length pub = 0 \<and> length priv = 0"

text \<open>The candidates are tried in order; one whose associated data cannot be encoded is skipped.\<close>

definition candidates :: "variant \<Rightarrow> variant list" where
  "candidates v = [v, if v = VariantJanus then VariantDraft18 else VariantJanus]"

definition inputShareAad :: "task \<Rightarrow> verify_init \<Rightarrow> variant \<Rightarrow> input_share_aad" where
  "inputShareAad task vi v =
     \<lparr>isa_Variant = v, isa_TaskID = t_TaskID task, isa_TaskConfiguration = t_TaskConfig task,
      isa_ReportMetadata = rs_ReportMetadata (vi_ReportShare vi),
      isa_PublicShare = rs_PublicShare (vi_ReportShare vi)\<rparr>"

primrec openCandidates ::
  "('b, 'o) env \<Rightarrow> task \<Rightarrow> variant \<Rightarrow> verify_init \<Rightarrow> variant list \<Rightarrow> bytes option" where
  "openCandidates e task variant vi [] = None"
| "openCandidates e task variant vi (v # vs) =
     (let ct = rs_EncryptedInputShare (vi_ReportShare vi) in
      case marshal (e_cb e) (InputShareAad_Marshal (e_cb e)) (inputShareAad task vi v) of
        Inl _ \<Rightarrow> openCandidates e task variant vi vs
      | Inr aadBytes \<Rightarrow>
          (case Open (e_cl e) (t_HPKESuite task) (t_HPKEPrivateKey task) (helperInputShareInfo variant)
                  (ct_Enc ct) aadBytes (ct_Payload ct) of
             Inr plaintext \<Rightarrow> Some plaintext
           | Inl _ \<Rightarrow> openCandidates e task variant vi vs))"

definition rejectResp :: "variant \<Rightarrow> report_id \<Rightarrow> report_error \<Rightarrow> verify_resp" where
  "rejectResp variant reportID err =
     \<lparr>vr_Variant = variant, vr_ReportID = reportID, vr_Type = VerifyRespReject, vr_Payload = [], vr_Error = err\<rparr>"

definition rejectAgg :: "variant \<Rightarrow> report_id \<Rightarrow> 64 word \<Rightarrow> report_error \<Rightarrow> report_aggregation" where
  "rejectAgg variant reportID ord err =
     \<lparr>ra_ReportID = reportID, ra_Ord = ord, ra_State = StateFailed, ra_OutShare = None,
      ra_LastVerifyResp = rejectResp variant reportID err, ra_ReportError = err\<rparr>"

text \<open>\<^verbatim>\<open>x, err := ...; if err != nil { return reject(e) }\<close>, for a call that returns and for one
  that may not\<close>

definition orReject :: "'e + 'a \<Rightarrow> 'r option \<Rightarrow> ('a \<Rightarrow> 'r option) \<Rightarrow> 'r option" where
  "orReject r rej k = (case r of Inl _ \<Rightarrow> rej | Inr x \<Rightarrow> k x)"

definition orRejectRes :: "('e + 'a) option \<Rightarrow> 'r option \<Rightarrow> ('a \<Rightarrow> 'r option) \<Rightarrow> 'r option" where
  "orRejectRes r rej k = (case r of None \<Rightarrow> None | Some y \<Rightarrow> orReject y rej k)"

text \<open>From the opened plaintext on: the checks of the report and the helper's transition. The
  outcome is the reason of a rejection, or the output share and the outbound message.\<close>

definition verifyReport ::
  "('b, 'o) env \<Rightarrow> task \<Rightarrow> verify_key \<Rightarrow> verify_init \<Rightarrow> bytes \<Rightarrow> (report_error + elt list \<times> bytes) option" where
  "verifyReport e task vk vi plaintext =
     (let cb = e_cb e;
          md = rs_ReportMetadata (vi_ReportShare vi);
          invalid = Some (Inl ReportErrorInvalidMessage);
          failed = Some (Inl ReportErrorVdafVerifyError)
      in orReject (unmarshalAll (PlaintextInputShare_Unmarshal cb) plaintext) invalid (\<lambda>pis.
         if \<not> validReportExtensions (md_PublicExtensions md) (pis_PrivateExtensions pis) then invalid
         else orReject (NewCount numAggregators (t_VDAFContext task)) invalid (\<lambda>c.
              orReject (DecodeInputShare c helperAggregatorID (pis_Payload pis)) invalid (\<lambda>inputShare.
              orReject (unmarshalAll (PingPongMessage_Unmarshal cb) (vi_Payload vi)) invalid (\<lambda>inbound.
              if pp_Type inbound \<noteq> PingPongInitialize then invalid
              else orReject (DecodeVerifierShare c (pp_VerifierShare inbound)) invalid (\<lambda>leaderShare.
                   orRejectRes (VerifyInit (e_xp e) c vk helperAggregatorID (md_ReportID md)
                       (rs_PublicShare (vi_ReportShare vi)) inputShare) failed (\<lambda>(state, helperShare).
                   orRejectRes (VerifierSharesToMessage c [leaderShare, helperShare]) failed (\<lambda>verifierMsg.
                   orRejectRes (VerifyNext c state verifierMsg) failed (\<lambda>outShare.
                   orReject (marshal cb (PingPongMessage_Marshal cb)
                       \<lparr>pp_Type = PingPongFinish, pp_VerifierMessage = verifierMsg, pp_VerifierShare = []\<rparr>)
                     failed (\<lambda>outboundBytes. Some (Inr (outShare, outboundBytes))))))))))))"

definition aggregateInit ::
  "('b, 'o) env \<Rightarrow> task \<Rightarrow> verify_key \<Rightarrow> variant \<Rightarrow> verify_init \<Rightarrow> 64 word \<Rightarrow> (verify_resp \<times> report_aggregation) option" where
  "aggregateInit e task vk variant vi ord =
     (let reportID = md_ReportID (rs_ReportMetadata (vi_ReportShare vi));
          reject = (\<lambda>err. Some (rejectResp variant reportID err, rejectAgg variant reportID ord err))
      in if ct_ConfigID (rs_EncryptedInputShare (vi_ReportShare vi)) \<noteq> t_HPKEConfigID task
         then reject ReportErrorHpkeUnknownConfigID
         else case openCandidates e task variant vi (candidates variant) of
                None \<Rightarrow> reject ReportErrorHpkeDecryptError
              | Some plaintext \<Rightarrow>
                  (case verifyReport e task vk vi plaintext of
                     None \<Rightarrow> None
                   | Some (Inl err) \<Rightarrow> reject err
                   | Some (Inr (outShare, outboundBytes)) \<Rightarrow>
                       let vr = \<lparr>vr_Variant = VariantDraft18, vr_ReportID = reportID,
                                 vr_Type = VerifyRespContinue, vr_Payload = outboundBytes, vr_Error = 0\<rparr>
                       in Some (vr, \<lparr>ra_ReportID = reportID, ra_Ord = ord, ra_State = StateFinished,
                                     ra_OutShare = Some outShare, ra_LastVerifyResp = vr, ra_ReportError = 0\<rparr>)))"

subsection \<open>One job\<close>

definition reportIDs :: "aggjob_init_req \<Rightarrow> report_id list" where
  "reportIDs req = map (\<lambda>vi. md_ReportID (rs_ReportMetadata (vi_ReportShare vi))) (air_VerifyInits req)"

definition makeJob ::
  "task \<Rightarrow> variant \<Rightarrow> job_id \<Rightarrow> aggjob_init_req \<Rightarrow> bytes \<Rightarrow> (verify_resp \<times> report_aggregation) list \<Rightarrow> aggregation_job" where
  "makeJob task variant jobID req reqHash rs =
     \<lparr>aj_TaskID = t_TaskID task, aj_AggregationJobID = jobID, aj_AggParam = air_AggParam req,
      aj_State = JobActive, aj_ReportAggs = map snd rs,
      aj_Response = \<lparr>arr_Variant = variant, arr_VerifyResps = map fst rs\<rparr>, aj_LastRequestHash = reqHash\<rparr>"

definition buildRejectAllJob ::
  "task \<Rightarrow> job_id \<Rightarrow> aggjob_init_req \<Rightarrow> bytes \<Rightarrow> report_error \<Rightarrow> aggregation_job" where
  "buildRejectAllJob task jobID req reqHash err =
     makeJob task (t_Variant task) jobID req reqHash
       (map (\<lambda>(i, r). (rejectResp (t_Variant task) r err, rejectAgg (t_Variant task) r (word_of_nat i) err))
         (enumerate 0 (reportIDs req)))"

text \<open>The loop of \<open>buildInitJob\<close>, from index \<open>i\<close> on; \<open>replayed\<close> is the set of the code's map.\<close>

primrec initReports ::
  "('b, 'o) env \<Rightarrow> task \<Rightarrow> verify_key \<Rightarrow> variant \<Rightarrow> report_id set \<Rightarrow> nat \<Rightarrow> verify_init list
     \<Rightarrow> (verify_resp \<times> report_aggregation) list option" where
  "initReports e task vk variant replayed i [] = Some []"
| "initReports e task vk variant replayed i (vi # vis) =
     (let reportID = md_ReportID (rs_ReportMetadata (vi_ReportShare vi)) in
      case (if reportID \<in> replayed
            then Some (rejectResp variant reportID ReportErrorReportReplayed,
                       rejectAgg variant reportID (word_of_nat i) ReportErrorReportReplayed)
            else aggregateInit e task vk variant vi (word_of_nat i)) of
        None \<Rightarrow> None
      | Some r \<Rightarrow> map_option ((#) r) (initReports e task vk variant replayed (i + 1) vis))"

definition buildInitJob ::
  "('b, 'o) env \<Rightarrow> task \<Rightarrow> verify_key \<Rightarrow> variant \<Rightarrow> job_id \<Rightarrow> aggjob_init_req \<Rightarrow> bytes \<Rightarrow> report_id set
     \<Rightarrow> aggregation_job option" where
  "buildInitJob e task vk variant jobID req reqHash replayed =
     map_option (makeJob task variant jobID req reqHash)
       (initReports e task vk variant replayed 0 (air_VerifyInits req))"

definition claimReports :: "'s store \<Rightarrow> 's \<Rightarrow> task_id \<Rightarrow> job_id \<Rightarrow> aggjob_init_req \<Rightarrow> 's \<times> report_id set" where
  "claimReports st s taskID jobID req =
     (case st_ClaimReportIDs st s taskID jobID (reportIDs req) of (s, replayed) \<Rightarrow> (s, set replayed))"

definition hashBody :: "bytes \<Rightarrow> bytes" where
  "hashBody b = Sum256 b"

end
