(* ===== verification/Client.thy ===== *)
theory Client
  imports Helper
begin

text \<open>
  \<^verbatim>\<open>integration/matrix\<close>: the client. \<^verbatim>\<open>report.go\<close> shards a measurement and seals one input share to
  each aggregator, \<^verbatim>\<open>aggregator.go\<close> checks a published HPKE configuration, \<^verbatim>\<open>probe.go\<close> turns what
  was observed into a measurement. A result is None where sharding does not return.

  The random reader is given by what its four uses in a call of \<open>Report\<close> yield: the bytes the two
  \<^verbatim>\<open>io.ReadFull\<close> find (or the read error), and the entropy the two HPKE setups draw.
\<close>

definition matrix_roleClient :: "8 word" where "matrix_roleClient = 1"
definition roleLeader :: "8 word" where "roleLeader = 2"
definition matrix_roleHelper :: "8 word" where "matrix_roleHelper = 3"
definition matrix_numAggregators :: "8 word" where "matrix_numAggregators = 2"

record aggregator =
  ag_Suite :: suite
  ag_ConfigID :: hpke_config_id
  ag_PublicKey :: bytes

record matrix_task =
  mt_Variant :: variant
  mt_TaskID :: task_id
  mt_Config :: task_configuration
  mt_Leader :: aggregator
  mt_Helper :: aggregator

datatype seal_error = PlaintextError wire_error | HpkeError hpke_error

datatype client_error =
    ErrNoAggregatorKey | ErrMeasurementRange | ErrUnsupportedSuite | ErrAggregatorKeySize
  | PublicKeyError string | VdafError prio3_error | ReportIDError string | RandomnessError string
  | ShardError prio3_error | AadError wire_error | LeaderSealError seal_error | HelperSealError seal_error

record random_reader =
  rd_ReportID :: "string + bytes"
  rd_ShardRand :: "string + bytes"
  rd_Leader :: entropy
  rd_Helper :: entropy

text \<open>\<^verbatim>\<open>io.ReadFull\<close> into a buffer of \<open>n\<close> bytes\<close>

definition ReadFull :: "nat \<Rightarrow> string + bytes \<Rightarrow> string + bytes" where
  "ReadFull n src = (case src of
     Inl err \<Rightarrow> Inl err
   | Inr bs \<Rightarrow> if length bs < n then Inl ''unexpected EOF'' else Inr (take n bs))"

text \<open>\<^verbatim>\<open>x, err := ...; if err != nil { return nil, fmt.Errorf(..., err) }\<close>\<close>

definition orFail :: "('e \<Rightarrow> client_error) \<Rightarrow> 'e + 'a \<Rightarrow> ('a \<Rightarrow> (client_error + 'c) option) \<Rightarrow> (client_error + 'c) option" where
  "orFail w r k = (case r of Inl err \<Rightarrow> Some (Inl (w err)) | Inr x \<Rightarrow> k x)"

lemma orFail_simps [simp]: "orFail w (Inl e) k = Some (Inl (w e))" "orFail w (Inr x) k = k x"
  by (simp_all add: orFail_def)

lemma orFail_Inr_iff: "orFail w r k = Some (Inr y) \<longleftrightarrow> (\<exists>x. r = Inr x \<and> k x = Some (Inr y))"
  by (auto simp: orFail_def split: sum.splits)

subsection \<open>report.go\<close>

definition VDAFContext :: "matrix_task \<Rightarrow> bytes" where
  "VDAFContext t = ascii (VersionString (mt_Variant t)) @ mt_TaskID t"

definition inputShareInfo :: "matrix_task \<Rightarrow> 8 word \<Rightarrow> bytes" where
  "inputShareInfo t recipient =
     ascii (VersionString (mt_Variant t) @ '' input share'') @ [matrix_roleClient, recipient]"

text \<open>\<open>now\<close> is the Unix time, a signed 64-bit integer.\<close>

definition Task_truncate :: "matrix_task \<Rightarrow> 64 word \<Rightarrow> 64 word" where
  "Task_truncate t now =
     (let secs = if now <s 0 then 0 else now;
          precision = tc_TimePrecision (mt_Config t)
      in if precision = 0 then secs else secs div precision * precision)"

definition clientAad :: "matrix_task \<Rightarrow> report_metadata \<Rightarrow> bytes \<Rightarrow> input_share_aad" where
  "clientAad t meta publicShare =
     \<lparr>isa_Variant = mt_Variant t, isa_TaskID = mt_TaskID t, isa_TaskConfiguration = mt_Config t,
      isa_ReportMetadata = meta, isa_PublicShare = publicShare\<rparr>"

definition sealShare ::
  "('b, 'o) env \<Rightarrow> matrix_task \<Rightarrow> prio3_count \<Rightarrow> bytes \<Rightarrow> entropy \<Rightarrow> aggregator \<Rightarrow> 8 word \<Rightarrow> input_share
     \<Rightarrow> seal_error + hpke_ciphertext" where
  "sealShare e t c aad rnd agg recipient share =
     (case marshal (e_cb e) (total (PlaintextInputShare_Marshal (e_cb e)))
         \<lparr>pis_PrivateExtensions = [], pis_Payload = EncodeInputShare c share\<rparr> of
        Inl err \<Rightarrow> Inl (PlaintextError err)
      | Inr plaintext \<Rightarrow>
          (case Seal (e_cl e) rnd (ag_Suite agg) (ag_PublicKey agg) (inputShareInfo t recipient) aad plaintext of
             Inl err \<Rightarrow> Inl (HpkeError err)
           | Inr (enc, ct) \<Rightarrow> Inr \<lparr>ct_ConfigID = ag_ConfigID agg, ct_Enc = enc, ct_Payload = ct\<rparr>))"

text \<open>The two sealed shares; an index out of range panics.\<close>

definition sealReport ::
  "('b, 'o) env \<Rightarrow> matrix_task \<Rightarrow> random_reader \<Rightarrow> prio3_count \<Rightarrow> bytes \<Rightarrow> report_metadata \<Rightarrow> bytes \<Rightarrow> input_share list
     \<Rightarrow> (client_error + report) option" where
  "sealReport e t rnd c aad meta publicShare inShares =
     (case inShares of
        share0 # share1 # _ \<Rightarrow>
          orFail LeaderSealError
            (sealShare e t c aad (rd_Leader rnd) (mt_Leader t) roleLeader share0) (\<lambda>leaderShare.
          orFail HelperSealError
            (sealShare e t c aad (rd_Helper rnd) (mt_Helper t) matrix_roleHelper share1) (\<lambda>helperShare.
          Some (Inr \<lparr>rp_Metadata = meta, rp_PublicShare = publicShare,
            rp_LeaderEncryptedInputShare = leaderShare, rp_HelperEncryptedInputShare = helperShare\<rparr>)))
      | _ \<Rightarrow> None)"

definition Report ::
  "('b, 'o) env \<Rightarrow> matrix_task \<Rightarrow> random_reader \<Rightarrow> int \<Rightarrow> 64 word \<Rightarrow> (client_error + report) option" where
  "Report e t rnd measurement now =
     (if measurement \<noteq> 0 \<and> measurement \<noteq> 1 then Some (Inl ErrMeasurementRange)
      else if length (ag_PublicKey (mt_Leader t)) = 0 \<or> length (ag_PublicKey (mt_Helper t)) = 0
      then Some (Inl ErrNoAggregatorKey)
      else
        orFail VdafError (NewCount matrix_numAggregators (VDAFContext t)) (\<lambda>c.
        orFail ReportIDError (ReadFull ReportIDSize (rd_ReportID rnd)) (\<lambda>reportID.
        orFail RandomnessError (ReadFull (RandSize c) (rd_ShardRand rnd)) (\<lambda>shardRand.
        case Shard (e_xp e) c measurement reportID shardRand of
          None \<Rightarrow> None
        | Some r \<Rightarrow> orFail ShardError r (\<lambda>(publicShare, inShares).
            let meta = \<lparr>md_ReportID = reportID, md_Time = Task_truncate t now, md_PublicExtensions = []\<rparr> in
            orFail AadError (marshal (e_cb e) (InputShareAad_Marshal (e_cb e)) (clientAad t meta publicShare)) (\<lambda>aad.
            sealReport e t rnd c aad meta publicShare inShares))))))"

subsection \<open>aggregator.go, probe.go\<close>

definition AggregatorFromConfig :: "'o circl \<Rightarrow> hpke_config \<Rightarrow> client_error + aggregator" where
  "AggregatorFromConfig cl cfg =
     (let suite = \<lparr>s_KEM = hc_KemID cfg, s_KDF = hc_KdfID cfg, s_AEAD = hc_AeadID cfg\<rparr> in
      if \<not> Suite_IsValid cl suite then Inl ErrUnsupportedSuite
      else if length (hc_PublicKey cfg) \<noteq> PublicKeySize cl (s_KEM suite) then Inl ErrAggregatorKeySize
      else case UnmarshalBinaryPublicKey cl (s_KEM suite) (hc_PublicKey cfg) of
        Inl err \<Rightarrow> Inl (PublicKeyError err)
      | Inr _ \<Rightarrow> Inr \<lparr>ag_Suite = suite, ag_ConfigID = hc_ID cfg, ag_PublicKey = hc_PublicKey cfg\<rparr>)"

record measurement =
  me_ClientAPI :: bool
  me_FederationAPI :: bool

definition Measurement_Count :: "measurement \<Rightarrow> int" where
  "Measurement_Count m = (if me_ClientAPI m \<and> me_FederationAPI m then 1 else 0)"

subsection \<open>What a report consists of\<close>

lemma ReadFull_length: "ReadFull n src = Inr bs \<Longrightarrow> length bs = n"
  by (auto simp: ReadFull_def split: sum.splits if_splits)

lemma sealShare_Inr:
  assumes "sealShare e t c aad rnd agg recipient share = Inr ct"
  obtains plaintext where "ct_ConfigID ct = ag_ConfigID agg"
    and "marshal (e_cb e) (total (PlaintextInputShare_Marshal (e_cb e)))
         \<lparr>pis_PrivateExtensions = [], pis_Payload = EncodeInputShare c share\<rparr> = Inr plaintext"
    and "Seal (e_cl e) rnd (ag_Suite agg) (ag_PublicKey agg) (inputShareInfo t recipient) aad plaintext
         = Inr (ct_Enc ct, ct_Payload ct)"
  using assms by (auto simp: sealShare_def split: sum.splits)

lemma Report_Inr:
  assumes "Report e t rnd m now = Some (Inr rep)"
  obtains c share0 share1 rest rand aad where "NewCount 2 (VDAFContext t) = Inr c"
    and "length (md_ReportID (rp_Metadata rep)) = ReportIDSize"
    and "rp_Metadata rep = \<lparr>md_ReportID = md_ReportID (rp_Metadata rep), md_Time = Task_truncate t now, md_PublicExtensions = []\<rparr>"
    and "Shard (e_xp e) c m (md_ReportID (rp_Metadata rep)) rand = Some (Inr (rp_PublicShare rep, share0 # share1 # rest))"
    and "marshal (e_cb e) (InputShareAad_Marshal (e_cb e)) (clientAad t (rp_Metadata rep) (rp_PublicShare rep)) = Inr aad"
    and "sealShare e t c aad (rd_Leader rnd) (mt_Leader t) roleLeader share0 = Inr (rp_LeaderEncryptedInputShare rep)"
    and "sealShare e t c aad (rd_Helper rnd) (mt_Helper t) matrix_roleHelper share1 = Inr (rp_HelperEncryptedInputShare rep)"
proof -
  obtain c reportID rand ps ins aad where c: "NewCount 2 (VDAFContext t) = Inr c"
    and id: "length reportID = ReportIDSize" and shard: "Shard (e_xp e) c m reportID rand = Some (Inr (ps, ins))"
    and aad: "marshal (e_cb e) (InputShareAad_Marshal (e_cb e))
      (clientAad t \<lparr>md_ReportID = reportID, md_Time = Task_truncate t now, md_PublicExtensions = []\<rparr> ps) = Inr aad"
    and rest: "sealReport e t rnd c aad \<lparr>md_ReportID = reportID, md_Time = Task_truncate t now, md_PublicExtensions = []\<rparr>
      ps ins = Some (Inr rep)"
    using assms
    by (auto simp: Report_def orFail_Inr_iff Let_def matrix_numAggregators_def dest!: ReadFull_length
        split: if_splits option.splits prod.splits)
  from rest obtain share0 share1 tl where ins: "ins = share0 # share1 # tl"
    by (auto simp: sealReport_def split: list.splits)
  with rest have rep: "rp_Metadata rep = \<lparr>md_ReportID = reportID, md_Time = Task_truncate t now, md_PublicExtensions = []\<rparr>"
      "rp_PublicShare rep = ps"
    and "sealShare e t c aad (rd_Leader rnd) (mt_Leader t) roleLeader share0 = Inr (rp_LeaderEncryptedInputShare rep)"
    and "sealShare e t c aad (rd_Helper rnd) (mt_Helper t) matrix_roleHelper share1 = Inr (rp_HelperEncryptedInputShare rep)"
    by (auto simp: sealReport_def orFail_Inr_iff)
  with c id shard aad ins show thesis by (intro that [of c rand share0 share1 tl aad]) simp_all
qed

text \<open>The timestamp is the clock, at least 0, rounded down to the precision.\<close>

lemma Task_truncate_value:
  "unat (Task_truncate t now) =
     (let p = unat (tc_TimePrecision (mt_Config t)); clock = nat (sint now)
      in if p = 0 then clock else clock div p * p)"
proof -
  let ?p = "tc_TimePrecision (mt_Config t)"
  let ?s = "if now <s 0 then 0 else now"
  have clock: "unat ?s = nat (sint now)"
  proof (cases "sint now < 0")
    case False
    then have "uint now = sint now"
      using sint_lt [of now] by (subst uint_sint) (simp add: take_bit_int_eq_self)
    then have "unat now = nat (sint now)" by (simp flip: nat_uint_eq)
    with False show ?thesis by (simp add: word_sless_alt)
  qed (simp add: word_sless_alt)
  have "unat (?s div ?p) * unat ?p \<le> unat ?s" by (simp only: unat_div div_times_less_eq_dividend)
  also have "\<dots> < 2 ^ LENGTH(64)" by (rule unsigned_less)
  finally have "unat (?s div ?p * ?p) = unat (?s div ?p) * unat ?p" by (rule unat_mult_lem [THEN iffD1])
  also have "\<dots> = unat ?s div unat ?p * unat ?p" by (simp only: unat_div)
  finally have mult: "unat (?s div ?p * ?p) = nat (sint now) div unat ?p * unat ?p" unfolding clock .
  show ?thesis
  proof (cases "?p = 0")
    case False
    then have "unat ?p \<noteq> 0" by (simp add: unat_eq_0)
    with False mult show ?thesis by (simp only: Task_truncate_def Let_def if_False)
  qed (use clock in \<open>simp add: Task_truncate_def\<close>)
qed

subsection \<open>The configuration check\<close>

text \<open>
  C38. The check of a published HPKE configuration anticipates sealing: to an accepted one a
  share is sealed with its own suite and key, and only the HPKE library's sender can fail; to a
  refused one no share could ever be sealed.
\<close>

theorem aggregator_config_checked:
  "let suite = \<lparr>s_KEM = hc_KemID cfg, s_KDF = hc_KdfID cfg, s_AEAD = hc_AeadID cfg\<rparr> in
   case AggregatorFromConfig cl cfg of
     Inr agg \<Rightarrow> ag_Suite agg = suite \<and> ag_ConfigID agg = hc_ID cfg \<and> ag_PublicKey agg = hc_PublicKey cfg
       \<and> (\<exists>pub. UnmarshalBinaryPublicKey cl (hc_KemID cfg) (hc_PublicKey cfg) = Inr pub
            \<and> (\<forall>rnd info aad pt. Seal cl rnd (ag_Suite agg) (ag_PublicKey agg) info aad pt
                = attempt (NewSender cl suite pub info) (\<lambda>sender.
                  attempt (Sender_Setup cl sender rnd) (\<lambda>(enc, sealer).
                  attempt (Sealer_Seal cl sealer pt aad) (\<lambda>ct. Inr (enc, ct))))))
   | Inl _ \<Rightarrow> \<forall>rnd info aad pt. \<exists>err. Seal cl rnd suite (hc_PublicKey cfg) info aad pt = Inl err"
  by (auto simp: AggregatorFromConfig_def Seal_def Let_def split: sum.split)

end
