(* ===== verification/Handler.thy ===== *)
theory Handler
  imports Helper
begin

text \<open>
  \<^verbatim>\<open>pkg/dap/helper/handler.go\<close>: the HTTP handler. A request's handler is a program over the
  store: a sequence of atomic store operations with computation in between, ending in a
  response. The Go server runs the handlers of several requests at once; \<open>run\<close> executes one
  program alone, and theory Server interleaves them.

  A response holds the status, the headers set and the body; a problem document is kept as the
  record the code builds, before its JSON encoding. The request body is what reading it yields:
  None if the read fails. Log output is left out.
\<close>

subsection \<open>Requests, responses, programs\<close>

record http_request =
  rq_Method :: string
  rq_Path :: string
  rq_Body :: "bytes option"

record problem_document =
  pd_Type :: string
  pd_Title :: string
  pd_Status :: nat
  pd_Detail :: string

datatype body = NoBody | Message bytes | Problem problem_document

record http_response =
  re_Status :: nat
  re_Headers :: "(string \<times> string) list"
  re_Body :: body

datatype 's prog = Return http_response | Atomic "'s \<Rightarrow> 's \<times> 's prog" | Diverge

text \<open>The store's operations as steps.\<close>

definition ask :: "('s \<Rightarrow> 'a) \<Rightarrow> ('a \<Rightarrow> 's prog) \<Rightarrow> 's prog" where
  "ask f k = Atomic (\<lambda>s. (s, k (f s)))"

definition act :: "('s \<Rightarrow> 's \<times> 'a) \<Rightarrow> ('a \<Rightarrow> 's prog) \<Rightarrow> 's prog" where
  "act f k = Atomic (\<lambda>s. case f s of (s, x) \<Rightarrow> (s, k x))"

primrec run :: "'s prog \<Rightarrow> 's \<Rightarrow> ('s \<times> http_response) option" where
  "run (Return r) = (\<lambda>s. Some (s, r))"
| "run (Atomic f) = (\<lambda>s. case (map_prod id run \<circ> f) s of (s, g) \<Rightarrow> g s)"
| "run Diverge = (\<lambda>s. None)"

lemma run_ask [simp]: "run (ask f k) s = run (k (f s)) s"
  by (simp add: ask_def)

lemma run_act [simp]: "run (act f k) s = (case f s of (s, x) \<Rightarrow> run (k x) s)"
  by (simp add: act_def split: prod.split)

subsection \<open>Writing responses\<close>

definition mediaResp :: string where
  "mediaResp = ''application/ppm-dap;message=aggregation-job-resp''"

definition mediaAggregateShare :: string where
  "mediaAggregateShare = ''application/ppm-dap;message=aggregate-share''"

definition errorURNPrefix :: string where
  "errorURNPrefix = ''urn:ietf:params:ppm:dap:error:''"

definition writeProblem :: "(string \<times> string) list \<Rightarrow> nat \<Rightarrow> string \<Rightarrow> string \<Rightarrow> http_response" where
  "writeProblem hdrs status errName detail =
     \<lparr>re_Status = status, re_Headers = hdrs @ [(''Content-Type'', ''application/problem+json'')],
      re_Body = Problem \<lparr>pd_Type = errorURNPrefix @ errName, pd_Title = errName, pd_Status = status,
        pd_Detail = detail\<rparr>\<rparr>"

text \<open>The answer with a job's response. Every caller passes a pointer into a job, \<open>&job.Response\<close>, and
  encoding it writes the variant into the elements: \<open>writeResp\<close> takes the job, and the write is a step
  of its own on the store.\<close>

definition respMessage :: "'b cryptobyte \<Rightarrow> task_id \<Rightarrow> job_id \<Rightarrow> aggjob_resp \<Rightarrow> nat \<Rightarrow> http_response" where
  "respMessage cb taskID jobID resp status =
     (case marshal cb (AggregationJobResp_Marshal cb) resp of
        Inl _ \<Rightarrow> writeProblem [] 500 ''invalidMessage'' ''cannot encode response''
      | Inr bs \<Rightarrow> \<lparr>re_Status = status,
          re_Headers = [(''Location'', resourcePath taskID jobID), (''Content-Type'', mediaResp)],
          re_Body = Message bs\<rparr>)"

definition writeResp ::
  "'b cryptobyte \<Rightarrow> 's store \<Rightarrow> task_id \<Rightarrow> job_id \<Rightarrow> aggregation_job \<Rightarrow> nat \<Rightarrow> 's prog" where
  "writeResp cb st taskID jobID job status =
     act (\<lambda>s. (st_WriteResponse st s job (marshalledResp cb), ()))
       (\<lambda>_. Return (respMessage cb taskID jobID (aj_Response job) status))"

subsection \<open>Checks on a request\<close>

definition maxBodyBytes :: nat where "maxBodyBytes = 16777216"

text \<open>\<^verbatim>\<open>io.ReadAll(io.LimitReader(r.Body, maxBodyBytes))\<close>\<close>

definition readBody :: "http_request \<Rightarrow> bytes option" where
  "readBody r = map_option (take maxBodyBytes) (rq_Body r)"

definition recognizedAggJobExt :: "16 word \<Rightarrow> bool" where
  "recognizedAggJobExt t \<longleftrightarrow> t = AggregationJobExtLeaderSelectedBatchID"

fun leaderSelectedBatchID :: "aggjob_extension list \<Rightarrow> bytes \<times> bool" where
  "leaderSelectedBatchID [] = (replicate BatchIDSize 0, False)"
| "leaderSelectedBatchID (x # exts) =
     (if aje_Type x = AggregationJobExtLeaderSelectedBatchID then AggregationJobExtension_BatchID x
      else leaderSelectedBatchID exts)"

text \<open>None is success, otherwise the error name and the detail.\<close>

definition validateExtensions :: "task \<Rightarrow> aggjob_extension list \<Rightarrow> (string \<times> string) option" where
  "validateExtensions task exts =
     (if \<not> list_all (\<lambda>x. recognizedAggJobExt (aje_Type x)) exts then
        Some (''unsupportedExtension'', ''unrecognized aggregation-job extension type'')
      else if \<not> StrictlyIncreasingAggJobExtensions exts then
        Some (''invalidMessage'', ''aggregation-job extensions not in strictly increasing order'')
      else if tc_BatchMode (t_TaskConfig task) = BatchModeLeaderSelected \<and> \<not> snd (leaderSelectedBatchID exts) then
        Some (''invalidMessage'', ''leader-selected task requires a valid leader_selected_batch_id extension'')
      else None)"

text \<open>The loop over the reports, with the map of those seen as a set.\<close>

fun duplicateFrom :: "report_id set \<Rightarrow> verify_init list \<Rightarrow> bool" where
  "duplicateFrom seen [] = False"
| "duplicateFrom seen (vi # vis) =
     (let r = md_ReportID (rs_ReportMetadata (vi_ReportShare vi)) in
      if r \<in> seen then True else duplicateFrom (insert r seen) vis)"

definition hasDuplicateReportIDs :: "verify_init list \<Rightarrow> bool" where
  "hasDuplicateReportIDs vis = duplicateFrom {} vis"

subsection \<open>Creating a job\<close>

text \<open>The answer when \<open>PutJob\<close> fails: the stored job's response if it is for the same request.\<close>

definition afterPut ::
  "('b, 'o) env \<Rightarrow> 's store \<Rightarrow> task_id \<Rightarrow> job_id \<Rightarrow> bytes \<Rightarrow> aggregation_job \<Rightarrow> store_error + unit \<Rightarrow> 's prog" where
  "afterPut e st taskID jobID reqHash job r =
     (case r of
        Inr _ \<Rightarrow> writeResp (e_cb e) st taskID jobID job 200
      | Inl _ \<Rightarrow> ask (\<lambda>s. st_GetJob st s taskID jobID) (\<lambda>existing.
          case existing of
            Some x \<Rightarrow>
              if aj_LastRequestHash x = reqHash then writeResp (e_cb e) st taskID jobID x 200
              else Return (writeProblem [] 409 ''invalidMessage'' ''aggregation job already exists with different content'')
          | None \<Rightarrow> Return (writeProblem [] 409 ''invalidMessage'' ''aggregation job already exists with different content'')))"

text \<open>The tail \<open>handleCreate\<close> and \<open>handleJanusInit\<close> share: replay the stored response, or claim the
  reports, aggregate them and store the job.\<close>

definition initJob ::
  "('b, 'o) env \<Rightarrow> 's store \<Rightarrow> task_id \<Rightarrow> task \<Rightarrow> verify_key \<Rightarrow> variant \<Rightarrow> job_id \<Rightarrow> aggjob_init_req \<Rightarrow> bytes \<Rightarrow> 's prog" where
  "initJob e st taskID task vk variant jobID req reqHash =
     ask (\<lambda>s. st_GetJob st s taskID jobID) (\<lambda>existing.
       case existing of
         Some x \<Rightarrow>
           if aj_LastRequestHash x = reqHash then writeResp (e_cb e) st taskID jobID x 200
           else Return (writeProblem [] 409 ''invalidMessage'' ''aggregation job already exists with different content'')
       | None \<Rightarrow>
           act (\<lambda>s. claimReports st s taskID jobID req) (\<lambda>replayed.
             case buildInitJob e task vk variant jobID req reqHash replayed of
               None \<Rightarrow> Diverge
             | Some job \<Rightarrow> act (\<lambda>s. st_PutJob st s job) (afterPut e st taskID jobID reqHash job)))"

definition handleCreate :: "('b, 'o) env \<Rightarrow> 's store \<Rightarrow> http_request \<Rightarrow> task_id \<Rightarrow> 's prog" where
  "handleCreate e st r taskID =
     ask (\<lambda>s. st_GetTask st s taskID) (\<lambda>task.
     case task of
       None \<Rightarrow> Return (writeProblem [] 400 ''unrecognizedTask'' ''no such task'')
     | Some task \<Rightarrow>
     (case readBody r of
       None \<Rightarrow> Return (writeProblem [] 400 ''invalidMessage'' ''cannot read request body'')
     | Some body \<Rightarrow>
     (case unmarshalAll (AggregationJobInitReq_Unmarshal (e_cb e) (t_Variant task)) body of
       Inl _ \<Rightarrow> Return (writeProblem [] 400 ''invalidMessage'' ''malformed AggregationJobInitReq'')
     | Inr req \<Rightarrow>
     (let reqHash = hashBody body; jobID = take JobIDSize reqHash in
      case t_VerifyKeys task (air_VerificationKeyID req) of
       None \<Rightarrow>
         if \<not> afterDraft18 (t_Variant task) then
           Return (writeProblem [] 400 ''invalidMessage'' ''unknown verification_key_id'')
         else
           let job = buildRejectAllJob task jobID req reqHash ReportErrorUnknownVerificationKeyID in
           act (\<lambda>s. st_PutJob st s job) (afterPut e st taskID jobID reqHash job)
     | Some vk \<Rightarrow>
     (case validateExtensions task (air_Extensions req) of
       Some (errName, detail) \<Rightarrow> Return (writeProblem [] 400 errName detail)
     | None \<Rightarrow>
       if length (air_AggParam req) \<noteq> 0 then
         Return (writeProblem [] 400 ''invalidAggregationParameter'' ''Prio3Count takes no aggregation parameter'')
       else if hasDuplicateReportIDs (air_VerifyInits req) then
         Return (writeProblem [] 400 ''invalidMessage'' ''duplicate report IDs in request'')
       else initJob e st taskID task vk (t_Variant task) jobID req reqHash)))))"

definition handleJanusInit ::
  "('b, 'o) env \<Rightarrow> 's store \<Rightarrow> http_request \<Rightarrow> task_id \<Rightarrow> job_id \<Rightarrow> 's prog" where
  "handleJanusInit e st r taskID jobID =
     ask (\<lambda>s. st_GetTask st s taskID) (\<lambda>task.
     case task of
       None \<Rightarrow> Return (writeProblem [] 400 ''unrecognizedTask'' ''no such task'')
     | Some task \<Rightarrow>
     (case readBody r of
       None \<Rightarrow> Return (writeProblem [] 400 ''invalidMessage'' ''cannot read request body'')
     | Some body \<Rightarrow>
     if afterDraft18 (t_Variant task) then
       Return (writeProblem [(''Allow'', ''POST, GET, DELETE'')] 405 ''unrecognizedMessage''
         (''this task speaks '' @ VersionString (t_Variant task) @
          ''; aggregation jobs are created with POST on the collection URL''))
     else
     (case unmarshalAll (AggregationJobInitReq_Unmarshal (e_cb e) VariantJanus) body of
       Inl _ \<Rightarrow> Return (writeProblem [] 400 ''invalidMessage'' ''malformed AggregationJobInitReq'')
     | Inr req \<Rightarrow>
       if length (air_AggParam req) \<noteq> 0 then
         Return (writeProblem [] 400 ''invalidAggregationParameter'' ''Prio3Count takes no aggregation parameter'')
       else if hasDuplicateReportIDs (air_VerifyInits req) then
         Return (writeProblem [] 400 ''invalidMessage'' ''duplicate report IDs in request'')
       else case t_VerifyKeys task 0 of
         None \<Rightarrow> Return (writeProblem [] 400 ''invalidMessage'' ''task has no verification key'')
       | Some vk \<Rightarrow> initJob e st taskID task vk VariantJanus jobID req (hashBody body))))"

definition handleGet :: "('b, 'o) env \<Rightarrow> 's store \<Rightarrow> task_id \<Rightarrow> job_id \<Rightarrow> 's prog" where
  "handleGet e st taskID jobID =
     ask (\<lambda>s. st_GetJob st s taskID jobID) (\<lambda>job.
       case job of
         None \<Rightarrow> Return (writeProblem [] 404 ''invalidMessage'' ''no such aggregation job'')
       | Some job \<Rightarrow> writeResp (e_cb e) st taskID jobID job 200)"

subsection \<open>The aggregate share\<close>

text \<open>The two nested loops as one over the reports of all jobs; \<open>agg\<close> is None while it is nil,
  which appending nothing to a nil slice leaves it.\<close>

fun sumOutShares :: "elt list option \<Rightarrow> report_aggregation list \<Rightarrow> field_error + elt list option" where
  "sumOutShares agg [] = Inr agg"
| "sumOutShares agg (ra # ras) =
     (case (ra_State ra, ra_OutShare ra) of
        (StateFinished, Some share) \<Rightarrow>
          (case agg of
             None \<Rightarrow> sumOutShares (if share = [] then None else Some share) ras
           | Some a \<Rightarrow> (case VecAdd a share of
               Inl err \<Rightarrow> Inl err
             | Inr s \<Rightarrow> sumOutShares (Some s) ras))
      | _ \<Rightarrow> sumOutShares agg ras)"

definition sealAggregateShare ::
  "('b, 'o) env \<Rightarrow> entropy \<Rightarrow> task_id \<Rightarrow> task \<Rightarrow> aggregate_share_req \<Rightarrow> elt list \<Rightarrow> http_response" where
  "sealAggregateShare e ent taskID task req agg =
     (case marshal (e_cb e) (total (AggregateShareAad_Marshal (e_cb e)))
         \<lparr>asa_TaskID = taskID, asa_AggParam = asr_AggParam req, asa_BatchSelector = asr_BatchSelector req\<rparr> of
        Inl _ \<Rightarrow> writeProblem [] 500 ''invalidMessage'' ''cannot encode AggregateShareAad''
      | Inr aadBytes \<Rightarrow>
     (case Seal (e_cl e) ent (t_CollectorHPKESuite task) (t_CollectorHPKEPublicKey task)
             (aggregateShareInfo (t_Variant task)) aadBytes (EncodeVec agg) of
        Inl _ \<Rightarrow> writeProblem [] 500 ''invalidMessage'' ''cannot seal aggregate share''
      | Inr (enc, ct) \<Rightarrow>
     (case marshal (e_cb e) (total (AggregateShare_Marshal (e_cb e)))
             \<lparr>ct_ConfigID = t_CollectorHPKEConfigID task, ct_Enc = enc, ct_Payload = ct\<rparr> of
        Inl _ \<Rightarrow> writeProblem [] 500 ''invalidMessage'' ''cannot encode AggregateShare''
      | Inr bs \<Rightarrow> \<lparr>re_Status = 200, re_Headers = [(''Content-Type'', mediaAggregateShare)], re_Body = Message bs\<rparr>)))"

definition handleAggregateShare ::
  "('b, 'o) env \<Rightarrow> 's store \<Rightarrow> entropy \<Rightarrow> http_request \<Rightarrow> task_id \<Rightarrow> 's prog" where
  "handleAggregateShare e st ent r taskID =
     ask (\<lambda>s. st_GetTask st s taskID) (\<lambda>task.
     case task of
       None \<Rightarrow> Return (writeProblem [] 400 ''unrecognizedTask'' ''no such task'')
     | Some task \<Rightarrow>
     (case readBody r of
       None \<Rightarrow> Return (writeProblem [] 400 ''invalidMessage'' ''cannot read request body'')
     | Some body \<Rightarrow>
     (case unmarshalAll (AggregateShareReq_Unmarshal (e_cb e)) body of
       Inl _ \<Rightarrow> Return (writeProblem [] 400 ''invalidMessage'' ''malformed AggregateShareReq'')
     | Inr req \<Rightarrow>
     ask (\<lambda>s. st_JobsForTask st s taskID) (\<lambda>js.
       Return (case sumOutShares None (concat (map aj_ReportAggs js)) of
         Inl _ \<Rightarrow> writeProblem [] 500 ''invalidMessage'' ''aggregate sum failed''
       | Inr None \<Rightarrow> writeProblem [] 400 ''invalidMessage'' ''no aggregated reports for batch''
       | Inr (Some agg) \<Rightarrow> sealAggregateShare e ent taskID task req agg)))))"

subsection \<open>Routing\<close>

definition ServeHTTP :: "('b, 'o) env \<Rightarrow> 's store \<Rightarrow> entropy \<Rightarrow> http_request \<Rightarrow> 's prog" where
  "ServeHTTP e st ent r =
     (case parseAggregateSharePath (rq_Path r) of
        Some taskID \<Rightarrow>
          if rq_Method r = ''PUT'' then handleAggregateShare e st ent r taskID
          else if rq_Method r = ''DELETE'' then Return \<lparr>re_Status = 200, re_Headers = [], re_Body = NoBody\<rparr>
          else Return (writeProblem [(''Allow'', ''PUT, DELETE'')] 405 ''unrecognizedMessage''
            ''unsupported method on the aggregate share resource'')
      | None \<Rightarrow>
     (case parseAggregationPath (rq_Path r) of
        None \<Rightarrow> Return (writeProblem [] 404 ''unrecognizedTask'' ''malformed aggregation job path'')
      | Some (taskID, None) \<Rightarrow>
          if rq_Method r = ''POST'' then handleCreate e st r taskID
          else Return (writeProblem [(''Allow'', ''POST'')] 405 ''unrecognizedMessage''
            ''unsupported method on the aggregation_jobs collection'')
      | Some (taskID, Some jobID) \<Rightarrow>
          if rq_Method r = ''PUT'' then handleJanusInit e st r taskID jobID
          else if rq_Method r = ''GET'' then handleGet e st taskID jobID
          else if rq_Method r = ''POST'' then
            Return (writeProblem [] 501 ''unrecognizedMessage''
              (''aggregation-job continuation is not implemented in v0.1 (Prio3Count is single round, DAP-18 '' @
               [CHR 0xC2, CHR 0xA7] @ ''4.5.4)''))
          else if rq_Method r = ''DELETE'' then
            act (\<lambda>s. (st_DeleteJob st s taskID jobID, ()))
              (\<lambda>_. Return \<lparr>re_Status = 200, re_Headers = [], re_Body = NoBody\<rparr>)
          else Return (writeProblem [(''Allow'', ''PUT, POST, GET, DELETE'')] 405 ''unrecognizedMessage''
            ''unsupported method on the aggregation job resource'')))"

end
