(* ===== verification/HelperFacts.thy ===== *)
theory HelperFacts
  imports Handler
begin

text \<open>
  What initializing a report, a job and the checks on a request establish: the two outcomes of
  a report, the shape of its output share, and the report aggregations of a built job.
\<close>


lemma orReject_simps [simp]: "orReject (Inl e) rej k = rej" "orReject (Inr x) rej k = k x"
  by (simp_all add: orReject_def)

lemma orRejectRes_simps [simp]:
  "orRejectRes None rej k = None" "orRejectRes (Some y) rej k = orReject y rej k"
  by (simp_all add: orRejectRes_def)

text \<open>A rejection continues no further: the outcome is the rejection or comes from the rest.\<close>

lemma orReject_cases:
  assumes "orReject r rej k = Some y" and "rej = Some y \<Longrightarrow> Q" and "\<And>x. r = Inr x \<Longrightarrow> k x = Some y \<Longrightarrow> Q"
  shows Q
  using assms by (cases r) simp_all

lemma orRejectRes_cases:
  assumes "orRejectRes r rej k = Some y" and "rej = Some y \<Longrightarrow> Q"
    and "\<And>x. r = Some (Inr x) \<Longrightarrow> k x = Some y \<Longrightarrow> Q"
  shows Q
  using assms by (cases r) (auto elim: orReject_cases)

definition reject_reasons :: "report_error set" where
  "reject_reasons = {ReportErrorReportReplayed, ReportErrorHpkeUnknownConfigID, ReportErrorHpkeDecryptError,
     ReportErrorVdafVerifyError, ReportErrorInvalidMessage}"

lemma verifyReport_Inl:
  assumes "verifyReport e task vk vi pt = Some (Inl err)"
  shows "err = ReportErrorInvalidMessage \<or> err = ReportErrorVdafVerifyError"
  using assms unfolding verifyReport_def Let_def
  by (elim orReject_cases orRejectRes_cases) (auto split: if_splits elim!: orReject_cases orRejectRes_cases)

lemma VerifyInit_helper:
  assumes "VerifyInit xp c vk i nonce ps in' = Some (Inr (outShare, v))" and "i \<noteq> 0"
  shows "helperMeasShare xp c i (is_Seed in') = Some (Inr outShare)"
proof -
  have "is_AggID in' = i"
    and "andThen (expandInputShare xp c in') (\<lambda>(measShare, proofsShare).
        let outShare = v_Truncate Count measShare in
        andThen (queryRands xp c vk nonce) (\<lambda>qr.
        if length proofsShare < ProofLen Count then None
        else
          let proofShare = take (ProofLen Count) proofsShare;
              qr = take (QueryRandLen Count) qr
          in andThen (wrapErr FlpError
               (Query Count measShare proofShare qr [] (unat (c_shares c)))) (\<lambda>v.
               Some (Inr (outShare, v))))) = Some (Inr (outShare, v))"
    using assms(1) by (auto simp: VerifyInit_def split: if_splits)
  then obtain ms pf where "expandInputShare xp c in' = Some (Inr (ms, pf))" and "v_Truncate Count ms = outShare"
    by (auto simp: andThen_Inr_iff Let_def split: if_splits)
  with assms(2) \<open>is_AggID in' = i\<close> show ?thesis
    by (auto simp: expandInputShare_def andThen_Inr_iff Count_def Count_Truncate_def)
qed

lemma VerifierSharesToMessage_Inr: "VerifierSharesToMessage c shares = Some (Inr msg) \<Longrightarrow> msg = []"
  by (auto simp: VerifierSharesToMessage_def andThen_Inr_iff split: sum.splits if_splits)

lemma VerifyNext_Inr: "VerifyNext c st msg = Some (Inr outShare) \<Longrightarrow> outShare = st"
  by (auto simp: VerifyNext_def split: if_splits)

definition finishMessage :: ping_pong_message where
  "finishMessage = \<lparr>pp_Type = PingPongFinish, pp_VerifierMessage = [], pp_VerifierShare = []\<rparr>"

text \<open>The calls an accepted report has been through.\<close>

lemma verifyReport_parts:
  assumes "verifyReport e task vk vi pt = Some (Inr (outShare, ob))"
  obtains pis c in' inbound ls hs msg where "unmarshalAll (PlaintextInputShare_Unmarshal (e_cb e)) pt = Inr pis"
    and "NewCount numAggregators (t_VDAFContext task) = Inr c"
    and "DecodeInputShare c helperAggregatorID (pis_Payload pis) = Inr in'"
    and "unmarshalAll (PingPongMessage_Unmarshal (e_cb e)) (vi_Payload vi) = Inr inbound"
    and "DecodeVerifierShare c (pp_VerifierShare inbound) = Inr ls"
    and "VerifyInit (e_xp e) c vk helperAggregatorID (md_ReportID (rs_ReportMetadata (vi_ReportShare vi)))
       (rs_PublicShare (vi_ReportShare vi)) in' = Some (Inr (outShare, hs))"
    and "VerifierSharesToMessage c [ls, hs] = Some (Inr msg)"
    and "marshal (e_cb e) (PingPongMessage_Marshal (e_cb e)) finishMessage = Inr ob"
proof -
  obtain pis c in' inbound ls st hs msg where *: "unmarshalAll (PlaintextInputShare_Unmarshal (e_cb e)) pt = Inr pis"
    "NewCount numAggregators (t_VDAFContext task) = Inr c"
    "DecodeInputShare c helperAggregatorID (pis_Payload pis) = Inr in'"
    "unmarshalAll (PingPongMessage_Unmarshal (e_cb e)) (vi_Payload vi) = Inr inbound"
    "DecodeVerifierShare c (pp_VerifierShare inbound) = Inr ls"
    "VerifyInit (e_xp e) c vk helperAggregatorID (md_ReportID (rs_ReportMetadata (vi_ReportShare vi)))
       (rs_PublicShare (vi_ReportShare vi)) in' = Some (Inr (st, hs))"
    "VerifierSharesToMessage c [ls, hs] = Some (Inr msg)" "VerifyNext c st msg = Some (Inr outShare)"
    "marshal (e_cb e) (PingPongMessage_Marshal (e_cb e))
       \<lparr>pp_Type = PingPongFinish, pp_VerifierMessage = msg, pp_VerifierShare = []\<rparr> = Inr ob"
    using assms unfolding verifyReport_def Let_def
    by (auto split: if_splits elim!: orReject_cases orRejectRes_cases)
  have "msg = []" "outShare = st" using *(7,8) VerifierSharesToMessage_Inr VerifyNext_Inr by blast+
  with * show thesis by (intro that [of pis c in' inbound ls hs msg]) (simp_all add: finishMessage_def)
qed

lemma verifyReport_Inr:
  assumes xof: "field_xof (e_xp e)" and ok: "verifyReport e task vk vi pt = Some (Inr (outShare, ob))"
  shows "length outShare = 1 \<and> list_all canonical outShare
    \<and> marshal (e_cb e) (PingPongMessage_Marshal (e_cb e)) finishMessage = Inr ob"
proof (rule verifyReport_parts [OF ok], goal_cases)
  case (1 pis c in' inbound ls hs msg)
  then have "helperMeasShare (e_xp e) c helperAggregatorID (is_Seed in') = Some (Inr outShare)"
    by (auto simp: helperAggregatorID_def dest: VerifyInit_helper)
  with field_xof.expansion_lengths(1) [OF xof] 1 show ?thesis by blast
qed

text \<open>The two outcomes of a report's initialization.\<close>

lemma aggregateInit_cases:
  assumes "aggregateInit e task vk variant vi ord = Some (vr, ra)"
  obtains (rejected) err where "err \<in> reject_reasons"
      and "vr = rejectResp variant (md_ReportID (rs_ReportMetadata (vi_ReportShare vi))) err"
      and "ra = rejectAgg variant (md_ReportID (rs_ReportMetadata (vi_ReportShare vi))) ord err"
  | (finished) pt outShare ob where "verifyReport e task vk vi pt = Some (Inr (outShare, ob))"
      and "openCandidates e task variant vi (candidates variant) = Some pt"
      and "vr = \<lparr>vr_Variant = VariantDraft18, vr_ReportID = md_ReportID (rs_ReportMetadata (vi_ReportShare vi)),
        vr_Type = VerifyRespContinue, vr_Payload = ob, vr_Error = 0\<rparr>"
      and "ra = \<lparr>ra_ReportID = md_ReportID (rs_ReportMetadata (vi_ReportShare vi)), ra_Ord = ord,
        ra_State = StateFinished, ra_OutShare = Some outShare, ra_LastVerifyResp = vr, ra_ReportError = 0\<rparr>"
  using assms verifyReport_Inl [of e task vk vi]
  by (auto simp: aggregateInit_def Let_def reject_reasons_def split: if_splits option.splits sum.splits prod.splits)

definition ra_ok :: "report_aggregation \<Rightarrow> bool" where
  "ra_ok ra \<longleftrightarrow> ra_State ra = StateFinished \<longrightarrow> (\<exists>x. ra_OutShare ra = Some [x] \<and> canonical x)"

lemma aggregateInit_ra:
  assumes "field_xof (e_xp e)" and "aggregateInit e task vk variant vi ord = Some (vr, ra)"
  shows "ra_ReportID ra = md_ReportID (rs_ReportMetadata (vi_ReportShare vi)) \<and> ra_ok ra"
  using assms(2)
proof (cases rule: aggregateInit_cases)
  case (rejected err)
  then show ?thesis by (simp add: rejectAgg_def ra_ok_def)
next
  case (finished pt outShare ob)
  with verifyReport_Inr [OF assms(1) finished(1)] show ?thesis by (auto simp: ra_ok_def length_Suc_conv)
qed

lemma initReports_ras:
  assumes xof: "field_xof (e_xp e)" and "initReports e task vk variant replayed i vis = Some rs"
  shows "map (ra_ReportID \<circ> snd) rs = map (\<lambda>vi. md_ReportID (rs_ReportMetadata (vi_ReportShare vi))) vis
    \<and> (\<forall>(vr, ra)\<in>set rs. ra_ok ra \<and> (ra_State ra = StateFinished \<longrightarrow> ra_ReportID ra \<notin> replayed))"
  using assms(2)
proof (induction vis arbitrary: i rs)
  case (Cons vi vis)
  let ?r = "md_ReportID (rs_ReportMetadata (vi_ReportShare vi))"
  obtain vr ra rs' where rs: "rs = (vr, ra) # rs'" "initReports e task vk variant replayed (i + 1) vis = Some rs'"
    and hd: "if ?r \<in> replayed then ra = rejectAgg variant ?r (word_of_nat i) ReportErrorReportReplayed
      else aggregateInit e task vk variant vi (word_of_nat i) = Some (vr, ra)"
    using Cons.prems by (auto simp: Let_def split: option.splits if_splits)
  have "ra_ReportID ra = ?r \<and> ra_ok ra \<and> (ra_State ra = StateFinished \<longrightarrow> ?r \<notin> replayed)"
    using hd aggregateInit_ra [OF xof] by (auto simp: rejectAgg_def ra_ok_def split: if_splits)
  with Cons.IH [OF rs(2)] rs(1) show ?case by auto
qed simp

lemma buildInitJob_facts:
  assumes "field_xof (e_xp e)" and "buildInitJob e task vk variant jobID req reqHash replayed = Some job"
  shows "key_of job = (t_TaskID task, jobID)" and "map ra_ReportID (aj_ReportAggs job) = reportIDs req"
    and "aj_LastRequestHash job = reqHash"
    and "\<forall>ra\<in>set (aj_ReportAggs job). ra_ok ra \<and> (ra_State ra = StateFinished \<longrightarrow> ra_ReportID ra \<notin> replayed)"
proof -
  obtain rs where rs: "initReports e task vk variant replayed 0 (air_VerifyInits req) = Some rs"
    and job: "job = makeJob task variant jobID req reqHash rs"
    using assms(2) by (auto simp: buildInitJob_def)
  note facts = initReports_ras [OF assms(1) rs]
  show "key_of job = (t_TaskID task, jobID)" "aj_LastRequestHash job = reqHash"
    by (simp_all add: job makeJob_def key_of_def)
  show "map ra_ReportID (aj_ReportAggs job) = reportIDs req"
    using facts by (simp add: job makeJob_def reportIDs_def comp_def)
  show "\<forall>ra\<in>set (aj_ReportAggs job). ra_ok ra \<and> (ra_State ra = StateFinished \<longrightarrow> ra_ReportID ra \<notin> replayed)"
    using facts by (auto simp: job makeJob_def)
qed

text \<open>A well-formed row holds the response it was built with: a finished report has its output
  share and a continue response, a failed one neither, and the reason it was rejected with.\<close>

definition row_ok :: "report_aggregation \<Rightarrow> bool" where
  "row_ok ra \<longleftrightarrow> vr_ReportID (ra_LastVerifyResp ra) = ra_ReportID ra
     \<and> (case ra_State ra of
          StateFinished \<Rightarrow> (\<exists>x. ra_OutShare ra = Some [x] \<and> canonical x)
            \<and> vr_Type (ra_LastVerifyResp ra) = VerifyRespContinue \<and> ra_ReportError ra = 0
        | StateFailed \<Rightarrow> ra_OutShare ra = None \<and> vr_Type (ra_LastVerifyResp ra) = VerifyRespReject
            \<and> vr_Payload (ra_LastVerifyResp ra) = [] \<and> vr_Error (ra_LastVerifyResp ra) = ra_ReportError ra
            \<and> ra_ReportError ra \<noteq> 0)"

text \<open>The response lists the rows' responses in order; once an element has been written to the wire it
  carries the variant of the response.\<close>

definition job_ok :: "aggregation_job \<Rightarrow> bool" where
  "job_ok job \<longleftrightarrow> aj_State job = JobActive \<and> list_all row_ok (aj_ReportAggs job)
     \<and> list_all2 (\<lambda>ra r. r = ra_LastVerifyResp ra
           \<or> r = (ra_LastVerifyResp ra)\<lparr>vr_Variant := arr_Variant (aj_Response job)\<rparr>)
         (aj_ReportAggs job) (arr_VerifyResps (aj_Response job))
     \<and> map ra_Ord (aj_ReportAggs job) = map word_of_nat [0..<length (aj_ReportAggs job)]"

text \<open>What encoding its response does to a job: elements of the response take the response's variant,
  nothing else changes.\<close>

definition marks :: "aggregation_job \<Rightarrow> aggregation_job \<Rightarrow> bool" where
  "marks job job' \<longleftrightarrow> (\<exists>rs. list_all2 (\<lambda>r r'. r' = r \<or> r' = r\<lparr>vr_Variant := arr_Variant (aj_Response job)\<rparr>)
       (arr_VerifyResps (aj_Response job)) rs
     \<and> job' = job\<lparr>aj_Response := (aj_Response job)\<lparr>arr_VerifyResps := rs\<rparr>\<rparr>)"

lemma marks_marshalled: "marks job (job\<lparr>aj_Response := marshalledResp cb (aj_Response job)\<rparr>)"
  unfolding marks_def marshalledResp_def using writeVariants_marks by blast

lemma marks_simps:
  assumes "marks job job'"
  shows "aj_ReportAggs job' = aj_ReportAggs job" "aj_TaskID job' = aj_TaskID job"
    "aj_AggregationJobID job' = aj_AggregationJobID job" "aj_LastRequestHash job' = aj_LastRequestHash job"
    "key_of job' = key_of job"
  using assms by (auto simp: marks_def key_of_def)

lemma job_ok_marks:
  assumes "job_ok job" and "marks job job'"
  shows "job_ok job'"
proof -
  obtain rs where rs: "list_all2 (\<lambda>r r'. r' = r \<or> r' = r\<lparr>vr_Variant := arr_Variant (aj_Response job)\<rparr>)
      (arr_VerifyResps (aj_Response job)) rs"
    and job': "job' = job\<lparr>aj_Response := (aj_Response job)\<lparr>arr_VerifyResps := rs\<rparr>\<rparr>"
    using assms(2) by (auto simp: marks_def)
  have old: "list_all2 (\<lambda>ra r. r = ra_LastVerifyResp ra
      \<or> r = (ra_LastVerifyResp ra)\<lparr>vr_Variant := arr_Variant (aj_Response job)\<rparr>)
      (aj_ReportAggs job) (arr_VerifyResps (aj_Response job))"
    using assms(1) by (simp add: job_ok_def)
  have "list_all2 (\<lambda>ra r. r = ra_LastVerifyResp ra
      \<or> r = (ra_LastVerifyResp ra)\<lparr>vr_Variant := arr_Variant (aj_Response job)\<rparr>) (aj_ReportAggs job) rs"
    by (rule list_all2_trans [OF _ old rs]) auto
  with assms(1) show ?thesis by (simp add: job_ok_def job')
qed

lemma row_ok_rejectAgg: "err \<noteq> 0 \<Longrightarrow> row_ok (rejectAgg v r ord err)"
  by (simp add: row_ok_def rejectAgg_def rejectResp_def)

lemma reject_reasons_nonzero: "err \<in> reject_reasons \<Longrightarrow> err \<noteq> 0"
  by (auto simp: reject_reasons_def)

lemma aggregateInit_row:
  assumes "field_xof (e_xp e)" and "aggregateInit e task vk variant vi ord = Some (vr, ra)"
  shows "row_ok ra \<and> ra_LastVerifyResp ra = vr \<and> ra_Ord ra = ord"
  using assms(2)
proof (cases rule: aggregateInit_cases)
  case (rejected err)
  then show ?thesis using row_ok_rejectAgg [OF reject_reasons_nonzero] by (simp add: rejectAgg_def)
next
  case (finished pt outShare ob)
  with verifyReport_Inr [OF assms(1) finished(1)] show ?thesis by (auto simp: row_ok_def length_Suc_conv)
qed

lemma initReports_rows:
  assumes xof: "field_xof (e_xp e)" and "initReports e task vk variant replayed i vis = Some rs"
  shows "list_all row_ok (map snd rs) \<and> map (ra_LastVerifyResp \<circ> snd) rs = map fst rs
    \<and> map (ra_Ord \<circ> snd) rs = map word_of_nat [i..<i + length rs]"
  using assms(2)
proof (induction vis arbitrary: i rs)
  case (Cons vi vis)
  let ?r = "md_ReportID (rs_ReportMetadata (vi_ReportShare vi))"
  obtain vr ra rs' where rs: "rs = (vr, ra) # rs'" "initReports e task vk variant replayed (i + 1) vis = Some rs'"
    and hd: "if ?r \<in> replayed
      then vr = rejectResp variant ?r ReportErrorReportReplayed \<and> ra = rejectAgg variant ?r (word_of_nat i) ReportErrorReportReplayed
      else aggregateInit e task vk variant vi (word_of_nat i) = Some (vr, ra)"
    using Cons.prems by (auto simp: Let_def split: option.splits if_splits)
  have "row_ok ra \<and> ra_LastVerifyResp ra = vr \<and> ra_Ord ra = word_of_nat i"
    using hd aggregateInit_row [OF xof] row_ok_rejectAgg [OF reject_reasons_nonzero, of ReportErrorReportReplayed]
    by (auto simp: rejectAgg_def reject_reasons_def split: if_splits)
  moreover have "[i..<i + length rs] = i # [Suc i..<Suc i + length rs']" using rs(1) by (simp add: upt_conv_Cons del: upt_Suc)
  ultimately show ?case using Cons.IH [OF rs(2)] rs(1) by (simp del: upt_Suc)
qed simp

lemma makeJob_ok:
  assumes "list_all row_ok (map snd rs)" and "map (ra_LastVerifyResp \<circ> snd) rs = map fst rs"
    and "map (ra_Ord \<circ> snd) rs = map word_of_nat [0..<length rs]"
  shows "job_ok (makeJob task variant jobID req reqHash rs)"
proof -
  have "\<forall>x\<in>set rs. ra_LastVerifyResp (snd x) = fst x" using assms(2) by (simp add: comp_def)
  with assms(1,3) show ?thesis by (simp add: job_ok_def makeJob_def list.rel_map list_all2_same)
qed

lemma buildInitJob_ok:
  assumes "field_xof (e_xp e)" and "buildInitJob e task vk variant jobID req reqHash replayed = Some job"
  shows "job_ok job"
proof -
  obtain rs where rs: "initReports e task vk variant replayed 0 (air_VerifyInits req) = Some rs"
    and job: "job = makeJob task variant jobID req reqHash rs"
    using assms(2) by (auto simp: buildInitJob_def)
  from initReports_rows [OF assms(1) rs] show ?thesis by (simp add: job makeJob_ok)
qed

lemma rejectAllJob_ok: "err \<noteq> 0 \<Longrightarrow> job_ok (buildRejectAllJob task jobID req reqHash err)"
  unfolding buildRejectAllJob_def
  by (rule makeJob_ok)
    (auto simp: list_all_iff enumerate_eq_zip rejectAgg_def rejectResp_def row_ok_def intro!: nth_equalityI)

lemma duplicateFrom_iff:
  "duplicateFrom seen vis \<longleftrightarrow>
    \<not> distinct (map (\<lambda>vi. md_ReportID (rs_ReportMetadata (vi_ReportShare vi))) vis)
    \<or> (\<exists>vi\<in>set vis. md_ReportID (rs_ReportMetadata (vi_ReportShare vi)) \<in> seen)"
  by (induction vis arbitrary: seen) (auto simp: Let_def intro: rev_image_eqI)

lemma hasDuplicateReportIDs_iff: "hasDuplicateReportIDs (air_VerifyInits req) \<longleftrightarrow> \<not> distinct (reportIDs req)"
  by (simp add: hasDuplicateReportIDs_def duplicateFrom_iff reportIDs_def)

end
