(* ===== verification/Server.thy ===== *)
theory Server
  imports HelperFacts
begin

text \<open>
  The helper as a server: requests arrive at any time, their handlers take turns at the store
  in any order, one atomic operation at a time, and tasks are registered while it runs. The
  invariant of the reachable states is what protects a batch against replay: a report counted
  in a stored job is claimed by that job, so no two jobs of a task count the same report.
\<close>

subsection \<open>Interleaving\<close>

type_synonym 's system = "'s \<times> 's prog list"

inductive sys_step :: "('b, 'o) env \<Rightarrow> 's store \<Rightarrow> 's system \<Rightarrow> 's system \<Rightarrow> bool" for e st where
  request: "sys_step e st (s, ts) (s, ts @ [ServeHTTP e st ent r])"
| atomic: "i < length ts \<Longrightarrow> ts ! i = Atomic f \<Longrightarrow> f s = (s', p) \<Longrightarrow> sys_step e st (s, ts) (s', ts[i := p])"
| add_task: "sys_step e st (s, ts) (st_AddTask st s x, ts)"

inductive reachable :: "('b, 'o) env \<Rightarrow> 's store \<Rightarrow> 's \<Rightarrow> 's system \<Rightarrow> bool" for e st s0 where
  init: "reachable e st s0 (s0, [])"
| step: "reachable e st s0 c \<Longrightarrow> sys_step e st c c' \<Longrightarrow> reachable e st s0 c'"

inductive_cases sys_stepE [elim]: "sys_step e st c c'"

text \<open>A request served alone is one of the interleavings.\<close>

lemma run_steps:
  "run p s = Some (s', r) \<Longrightarrow> reachable e st s0 (s, ts @ [p]) \<Longrightarrow> reachable e st s0 (s', ts @ [Return r])"
proof (induction p arbitrary: s)
  case (Atomic f)
  obtain s1 p1 where f: "f s = (s1, p1)" by (cases "f s")
  have "sys_step e st (s, ts @ [Atomic f]) (s1, (ts @ [Atomic f])[length ts := p1])"
    by (rule sys_step.atomic [where f = f]) (simp_all add: f)
  then have "reachable e st s0 (s1, ts @ [p1])"
    using Atomic.prems(2) by (auto intro: reachable.step)
  moreover have "run p1 s1 = Some (s', r)" using Atomic.prems(1) f by simp
  moreover have "f s \<in> range f" by (rule rangeI)
  ultimately show ?case using Atomic.IH [of "f s" p1 s1] f by (simp add: snds.simps)
qed auto

subsection \<open>The invariant\<close>

definition accounted :: "(report_key \<rightharpoonup> job_id) \<Rightarrow> aggregation_job \<Rightarrow> bool" where
  "accounted c job \<longleftrightarrow> job_ok job \<and> (\<forall>ra\<in>set (aj_ReportAggs job). ra_ok ra \<and> (ra_State ra = StateFinished \<longrightarrow>
     c (aj_TaskID job, ra_ReportID ra) = Some (aj_AggregationJobID job)))
     \<and> distinct (map ra_ReportID (filter (\<lambda>ra. ra_State ra = StateFinished) (aj_ReportAggs job)))"

lemma accounted_mono: "accounted c job \<Longrightarrow> c \<subseteq>\<^sub>m c' \<Longrightarrow> accounted c' job"
  by (auto simp: accounted_def map_le_def) (metis domI)

lemma accounted_marks: "accounted c job \<Longrightarrow> marks job job' \<Longrightarrow> accounted c job'"
  using job_ok_marks [of job job'] by (auto simp: accounted_def marks_simps)

lemma claimed_mono: "c \<subseteq>\<^sub>m claimed c t j ids"
  by (auto simp: map_le_def claimed_def)

context store_contract
begin

definition inv :: "'s \<Rightarrow> bool" where
  "inv s \<longleftrightarrow> wf s \<and> (\<forall>t x. tasks s t = Some x \<longrightarrow> t_TaskID x = t)
     \<and> (\<forall>k job. jobs s k = Some job \<longrightarrow> key_of job = k \<and> accounted (claims s) job)"

text \<open>What one step does to the claims and the jobs: it claims unclaimed reports for a job, stores a
  job under a free key, deletes one or writes the variant into the response of one. A step that does
  none of these claims nothing.\<close>

definition evolves :: "'s \<Rightarrow> 's \<Rightarrow> bool" where
  "evolves s s' \<longleftrightarrow> jobs s' = jobs s \<and> (\<exists>t j ids. claims s' = claimed (claims s) t j ids)
     \<or> claims s' = claims s \<and> (\<exists>job. jobs s (key_of job) = None \<and> jobs s' = (jobs s)(key_of job \<mapsto> job))
     \<or> claims s' = claims s \<and> (\<exists>k. jobs s' = (jobs s)(k := None))
     \<or> claims s' = claims s \<and> (\<exists>k job job'. jobs s k = Some job \<and> marks job job' \<and> jobs s' = (jobs s)(k \<mapsto> job'))"

text \<open>What no step does: release or reassign a claim, or change a stored job other than by deleting
  it or writing the variant into its response.\<close>

definition kept :: "'s \<Rightarrow> 's \<Rightarrow> bool" where
  "kept s s' \<longleftrightarrow> claims s \<subseteq>\<^sub>m claims s'
     \<and> (\<forall>k job. jobs s k = Some job \<longrightarrow>
          jobs s' k = Some job \<or> jobs s' k = None \<or> (\<exists>job'. jobs s' k = Some job' \<and> marks job job'))"

lemma evolves_kept: "evolves s s' \<Longrightarrow> kept s s'"
  using claimed_mono by (auto simp: evolves_def kept_def split: if_splits)

lemma evolves_claim: "jobs s' = jobs s \<Longrightarrow> claims s' = claimed (claims s) t j ids \<Longrightarrow> evolves s s'"
  unfolding evolves_def by blast

lemma evolves_same: "jobs s' = jobs s \<Longrightarrow> claims s' = claims s \<Longrightarrow> evolves s s'"
  unfolding evolves_def by (metis claimed_Nil)

lemma evolves_refl [simp]: "evolves s s"
  by (rule evolves_same) simp_all

text \<open>What a program may still do in a store that has at least the claims \<open>c\<close>: every step keeps
  the invariant, the claims and the stored jobs.\<close>

inductive safe :: "(report_key \<rightharpoonup> job_id) \<Rightarrow> 's prog \<Rightarrow> bool" where
  "safe c (Return r)"
| "safe c Diverge"
| "(\<And>s. inv s \<Longrightarrow> c \<subseteq>\<^sub>m claims s \<Longrightarrow> inv (fst (f s)) \<and> evolves s (fst (f s))
      \<and> safe (claims (fst (f s))) (snd (f s))) \<Longrightarrow> safe c (Atomic f)"

inductive_simps safe_Atomic: "safe c (Atomic f)"

lemma safe_mono: "safe c p \<Longrightarrow> c \<subseteq>\<^sub>m c' \<Longrightarrow> safe c' p"
  by (induction arbitrary: c' rule: safe.induct) (auto intro!: safe.intros intro: map_le_trans)

lemma safe_ask:
  assumes "\<And>s. inv s \<Longrightarrow> c \<subseteq>\<^sub>m claims s \<Longrightarrow> safe (claims s) (k (f s))"
  shows "safe c (ask f k)"
  unfolding ask_def using assms by (auto intro: safe.intros)

lemma safe_act:
  assumes "\<And>s s' x. inv s \<Longrightarrow> c \<subseteq>\<^sub>m claims s \<Longrightarrow> f s = (s', x) \<Longrightarrow>
    inv s' \<and> evolves s s' \<and> safe (claims s') (k x)"
  shows "safe c (act f k)"
  unfolding act_def using assms by (auto intro!: safe.intros split: prod.split)

lemma inv_PutJob:
  assumes "inv s" and "st_PutJob st s job = (s', r)" and "accounted (claims s) job"
  shows "inv s' \<and> claims s' = claims s \<and> evolves s s'"
proof -
  note put = put_job [OF assms(2)]
  have "evolves s s'"
  proof (cases "jobs s (key_of job)")
    case None
    with put show ?thesis unfolding evolves_def by auto
  next
    case (Some old)
    with put show ?thesis by (intro evolves_same) simp_all
  qed
  moreover have "inv s'" using assms put by (auto simp: inv_def split: option.splits if_splits)
  ultimately show ?thesis using put by blast
qed

lemma inv_claim:
  assumes "inv s" and "st_ClaimReportIDs st s t j ids = (s', replayed)"
  shows "inv s' \<and> evolves s s'"
proof -
  have "accounted (claims s) job \<Longrightarrow> accounted (claims s') job" for job
    using claim [OF assms(2)] claimed_mono by (auto intro: accounted_mono)
  with assms(1) claim [OF assms(2)] evolves_claim show ?thesis by (auto simp: inv_def)
qed

lemma inv_delete: "inv s \<Longrightarrow> inv (st_DeleteJob st s t j) \<and> evolves s (st_DeleteJob st s t j)"
  using delete_job by (auto simp: inv_def evolves_def)

lemma inv_add_task:
  "inv s \<Longrightarrow> inv (st_AddTask st s x) \<and> evolves s (st_AddTask st s x) \<and> claims (st_AddTask st s x) = claims s"
  using add_task by (auto simp: inv_def intro: evolves_same)

lemma inv_write:
  assumes "inv s"
  shows "inv (st_WriteResponse st s job (marshalledResp cb)) \<and> evolves s (st_WriteResponse st s job (marshalledResp cb))"
proof -
  let ?s = "st_WriteResponse st s job (marshalledResp cb)"
  note wr = write_response [of s job "marshalledResp cb"]
  consider "jobs ?s = jobs s"
    | x where "jobs s (key_of job) = Some x"
      "jobs ?s = (jobs s)(key_of job \<mapsto> x\<lparr>aj_Response := marshalledResp cb (aj_Response x)\<rparr>)"
    using wr(3) by (auto simp: written_def split: option.splits if_splits)
  then show ?thesis
  proof cases
    case 1
    with wr assms show ?thesis by (auto simp: inv_def intro: evolves_same)
  next
    case (2 x)
    note m = marks_marshalled [of x cb]
    have "evolves s ?s" unfolding evolves_def using 2 m wr(2) by blast
    moreover have x: "key_of x = key_of job \<and> accounted (claims s) x" using assms 2(1) unfolding inv_def by blast
    have "key_of y = k \<and> accounted (claims ?s) y" if "jobs ?s k = Some y" for k y
    proof (cases "k = key_of job")
      case True
      with that 2(2) x accounted_marks [OF _ m] marks_simps(5) [OF m] wr(2) show ?thesis by simp
    next
      case False
      with that 2(2) have "jobs s k = Some y" by simp
      with assms wr(2) show ?thesis unfolding inv_def by metis
    qed
    then have "inv ?s" using assms wr unfolding inv_def by simp
    ultimately show ?thesis by blast
  qed
qed

lemma safe_writeResp: "safe c (writeResp cb st taskID jobID job status)"
  unfolding writeResp_def by (rule safe_act) (use inv_write in \<open>auto intro: safe.intros\<close>)

text \<open>The job a request builds counts only reports it has claimed.\<close>

lemma claimed_job_accounted:
  assumes xof: "field_xof (e_xp e)" and inv: "inv s" and t: "t_TaskID task = taskID" and d: "distinct (reportIDs req)"
    and cl: "claimReports st s taskID jobID req = (s', replayed)"
    and job: "buildInitJob e task vk variant jobID req reqHash replayed = Some job"
  shows "accounted (claims s') job"
proof -
  obtain rl where rl: "st_ClaimReportIDs st s taskID jobID (reportIDs req) = (s', rl)" "replayed = set rl"
    using cl by (auto simp: claimReports_def split: prod.splits)
  note claim = claim [OF rl(1)] and facts = buildInitJob_facts [OF xof job]
  have "claims s' (taskID, ra_ReportID ra) = Some jobID"
    if ra: "ra \<in> set (aj_ReportAggs job)" "ra_State ra = StateFinished" for ra
  proof -
    have "ra_ReportID ra \<in> set (reportIDs req)" "ra_ReportID ra \<notin> replayed"
      using ra facts(4) by (auto simp flip: facts(2))
    then show ?thesis using claim rl(2) by (auto simp: claimed_def)
  qed
  moreover have "distinct (map ra_ReportID (filter P (aj_ReportAggs job)))" for P
    using d by (auto simp flip: facts(2) intro: distinct_map_filter)
  ultimately show ?thesis using facts(1,4) t buildInitJob_ok [OF xof job] by (auto simp: accounted_def key_of_def)
qed

lemma rejectAll_accounted: "accounted c (buildRejectAllJob task jobID req reqHash ReportErrorUnknownVerificationKeyID)"
proof -
  let ?job = "buildRejectAllJob task jobID req reqHash ReportErrorUnknownVerificationKeyID"
  have ok: "job_ok ?job" by (rule rejectAllJob_ok) simp
  have f: "\<forall>ra\<in>set (aj_ReportAggs ?job). ra_State ra = StateFailed"
    by (auto simp: buildRejectAllJob_def makeJob_def rejectAgg_def)
  then have "filter (\<lambda>ra. ra_State ra = StateFinished) (aj_ReportAggs ?job) = []" by (simp add: filter_empty_conv)
  with f ok show ?thesis by (auto simp: accounted_def ra_ok_def)
qed

lemma safe_afterPut: "safe c (afterPut e st taskID jobID reqHash job r)"
  by (cases r) (auto simp: afterPut_def intro!: safe_ask safe.intros safe_writeResp split: option.split)

lemma safe_put: "accounted c job \<Longrightarrow> safe c (act (\<lambda>s. st_PutJob st s job) (afterPut e st taskID jobID reqHash job))"
proof (rule safe_act, goal_cases)
  case (1 s s' x)
  then show ?case using inv_PutJob [OF 1(2,4)] accounted_mono [of c job] safe_afterPut by simp
qed

lemma safe_initJob:
  assumes "field_xof (e_xp e)" and "t_TaskID task = taskID" and "distinct (reportIDs req)"
  shows "safe c (initJob e st taskID task vk variant jobID req reqHash)"
  unfolding initJob_def
proof (rule safe_ask, goal_cases)
  case (1 s)
  have "safe (claims s) (act (\<lambda>s. claimReports st s taskID jobID req) (\<lambda>replayed.
      case buildInitJob e task vk variant jobID req reqHash replayed of None \<Rightarrow> Diverge
      | Some job \<Rightarrow> act (\<lambda>s. st_PutJob st s job) (afterPut e st taskID jobID reqHash job)))"
  proof (rule safe_act, goal_cases)
    case (1 s s' replayed)
    have "inv s' \<and> evolves s s'"
      using 1 inv_claim by (auto simp: claimReports_def split: prod.splits)
    moreover have "safe (claims s') (act (\<lambda>s. st_PutJob st s job) (afterPut e st taskID jobID reqHash job))"
      if "buildInitJob e task vk variant jobID req reqHash replayed = Some job" for job
      by (rule safe_put [OF claimed_job_accounted [OF assms(1) 1(1) assms(2,3) 1(3) that]])
    ultimately show ?case by (auto split: option.split intro: safe.intros)
  qed
  then show ?case by (auto split: option.split intro: safe.intros safe_writeResp)
qed

lemma safe_get_task:
  assumes "\<And>c task. t_TaskID task = t \<Longrightarrow> safe c (k (Some task))" and "\<And>c. safe c (k None)"
  shows "safe c (ask (\<lambda>s. st_GetTask st s t) k)"
proof (rule safe_ask, goal_cases)
  case (1 s)
  then show ?case using assms by (cases "tasks s t") (auto simp: get_task inv_def)
qed

lemma safe_handleCreate:
  assumes "field_xof (e_xp e)"
  shows "safe c (handleCreate e st r taskID)"
  unfolding handleCreate_def
  by (rule safe_get_task)
    (auto simp: Let_def hasDuplicateReportIDs_iff split: option.splits sum.splits
      intro: safe.intros safe_put rejectAll_accounted safe_initJob [OF assms])

lemma safe_handleJanusInit:
  assumes "field_xof (e_xp e)"
  shows "safe c (handleJanusInit e st r taskID jobID)"
  unfolding handleJanusInit_def
  by (rule safe_get_task)
    (auto simp: hasDuplicateReportIDs_iff split: option.splits sum.splits
      intro: safe.intros safe_initJob [OF assms])

lemma safe_handleAggregateShare: "safe c (handleAggregateShare e st ent r taskID)"
  unfolding handleAggregateShare_def
  by (rule safe_ask) (auto split: option.splits sum.splits intro!: safe_ask intro: safe.intros)

lemma safe_ServeHTTP:
  assumes "field_xof (e_xp e)"
  shows "safe c (ServeHTTP e st ent r)"
proof -
  have del: "safe c (act (\<lambda>s. (st_DeleteJob st s t j, ())) (\<lambda>_. Return x))" for c t j x
    by (rule safe_act) (use inv_delete in \<open>auto intro: safe.intros\<close>)
  have get: "safe c (handleGet e st t j)" for c t j
    unfolding handleGet_def by (rule safe_ask) (auto split: option.split intro: safe.intros safe_writeResp)
  show ?thesis
    unfolding ServeHTTP_def
    using safe_handleCreate [OF assms] safe_handleJanusInit [OF assms] safe_handleAggregateShare del get
    by (auto split: option.split intro: safe.intros)
qed

text \<open>One step from a state with the invariant and safe programs.\<close>

lemma step_safe:
  assumes xof: "field_xof (e_xp e)" and inv: "inv s" "\<forall>p\<in>set ts. safe (claims s) p"
    and step: "sys_step e st (s, ts) (s', ts')"
  shows "inv s' \<and> evolves s s' \<and> (\<forall>p\<in>set ts'. safe (claims s') p)"
  using step
proof cases
  case (request ent r)
  with inv safe_ServeHTTP [OF xof] show ?thesis by auto
next
  case (atomic i f p)
  then have "safe (claims s) (Atomic f)" using inv(2) by (metis nth_mem)
  with atomic inv(1) have step: "inv s'" "evolves s s'" "safe (claims s') p"
    unfolding safe_Atomic by (metis fst_conv map_le_refl snd_conv)+
  then have "claims s \<subseteq>\<^sub>m claims s'" using evolves_kept by (simp add: kept_def)
  then have "\<forall>p\<in>set ts. safe (claims s') p" using inv(2) safe_mono by blast
  moreover have "set ts' \<subseteq> insert p (set ts)" using set_update_subset_insert [of ts i p] atomic by simp
  ultimately show ?thesis using step by blast
next
  case (add_task x)
  with inv inv_add_task [OF inv(1), of x] show ?thesis by auto
qed

lemma reachable_safe:
  assumes "field_xof (e_xp e)" and "inv s0" and "reachable e st s0 (s, ts)"
  shows "inv s \<and> (\<forall>p\<in>set ts. safe (claims s) p)"
  using assms(3)
proof (induction "(s, ts)" arbitrary: s ts rule: reachable.induct)
  case init
  then show ?case using assms(2) by simp
next
  case (step c)
  obtain s1 ts1 where c: "c = (s1, ts1)" by (cases c)
  with step have "inv s1" "\<forall>p\<in>set ts1. safe (claims s1) p" by auto
  from step_safe [OF assms(1) this step(3) [unfolded c]] show ?case by simp
qed

end

subsection \<open>The reports counted\<close>

lemma distinct_concat_map:
  assumes "distinct js" and "\<And>j. j \<in> set js \<Longrightarrow> distinct (h j)"
    and "\<And>i j. i \<in> set js \<Longrightarrow> j \<in> set js \<Longrightarrow> i \<noteq> j \<Longrightarrow> set (h i) \<inter> set (h j) = {}"
  shows "distinct (concat (map h js))"
  using assms
proof (induction js)
  case (Cons j js)
  have "set (h j) \<inter> set (h i) = {}" if "i \<in> set js" for i
    using Cons.prems(1) that by (intro Cons.prems(3)) auto
  moreover have "distinct (concat (map h js))"
    using Cons.prems by (intro Cons.IH) auto
  ultimately show ?case using Cons.prems(2) by auto
qed simp

definition counted :: "aggregation_job list \<Rightarrow> report_aggregation list" where
  "counted js = filter (\<lambda>ra. ra_State ra = StateFinished) (concat (map aj_ReportAggs js))"

context store_contract
begin

lemma jobs_for_task_set: "inv s \<Longrightarrow> set (st_JobsForTask st s t) = {job. \<exists>k. jobs s k = Some job \<and> fst k = t}"
proof -
  assume "inv s"
  then have wf: "wf s" by (simp add: inv_def)
  have "set_mset (mset (st_JobsForTask st s t)) = (\<lambda>k. the (jobs s k)) ` {k \<in> dom (jobs s). fst k = t}"
    using jobs_for_task [OF wf] wf_finite [OF wf] by simp
  also have "\<dots> = {job. \<exists>k. jobs s k = Some job \<and> fst k = t}" by force
  finally show ?thesis by simp
qed

lemma jobs_for_task_distinct: "inv s \<Longrightarrow> distinct (st_JobsForTask st s t)"
proof -
  assume inv: "inv s"
  then have wf: "wf s" by (simp add: inv_def)
  have inj: "inj_on (\<lambda>k. the (jobs s k)) {k \<in> dom (jobs s). fst k = t}"
  proof (rule inj_onI)
    fix k l assume "k \<in> {k \<in> dom (jobs s). fst k = t}" "l \<in> {k \<in> dom (jobs s). fst k = t}"
      and "the (jobs s k) = the (jobs s l)"
    then obtain job where "jobs s k = Some job" "jobs s l = Some job" by auto
    then show "k = l" using inv by (metis inv_def)
  qed
  have "mset (st_JobsForTask st s t) = mset_set ((\<lambda>k. the (jobs s k)) ` {k \<in> dom (jobs s). fst k = t})"
    unfolding jobs_for_task [OF wf] by (rule image_mset_mset_set [OF inj])
  moreover obtain ys where "distinct ys" "set ys = (\<lambda>k. the (jobs s k)) ` {k \<in> dom (jobs s). fst k = t}"
    using finite_distinct_list [of "(\<lambda>k. the (jobs s k)) ` {k \<in> dom (jobs s). fst k = t}"] wf_finite [OF wf] by auto
  ultimately have "mset (st_JobsForTask st s t) = mset ys" by (metis mset_set_set)
  with \<open>distinct ys\<close> show ?thesis using mset_eq_imp_distinct_iff by blast
qed

lemma job_of_task:
  assumes "inv s" and "job \<in> set (st_JobsForTask st s t)"
  shows "aj_TaskID job = t \<and> jobs s (t, aj_AggregationJobID job) = Some job \<and> accounted (claims s) job"
  using assms unfolding jobs_for_task_set [OF assms(1)] by (auto simp: inv_def key_of_def)

lemma inv_claims:
  assumes "inv s" and "jobs s k = Some job" and "ra \<in> set (aj_ReportAggs job)" and "ra_State ra = StateFinished"
  shows "claims s (fst k, ra_ReportID ra) = Some (snd k)"
proof -
  have "k = (aj_TaskID job, aj_AggregationJobID job)" "accounted (claims s) job"
    using assms(1,2) by (cases k; auto simp: inv_def key_of_def)+
  with assms(3,4) show ?thesis by (simp add: accounted_def)
qed

lemma counted_distinct:
  assumes "inv s"
  shows "distinct (map ra_ReportID (counted (st_JobsForTask st s t)))"
proof -
  let ?h = "\<lambda>job. map ra_ReportID (filter (\<lambda>ra. ra_State ra = StateFinished) (aj_ReportAggs job))"
  have "distinct (concat (map ?h (st_JobsForTask st s t)))"
  proof (rule distinct_concat_map [OF jobs_for_task_distinct [OF assms]])
    show "distinct (?h job)" if "job \<in> set (st_JobsForTask st s t)" for job
      using job_of_task [OF assms that] by (simp add: accounted_def)
    show "set (?h i) \<inter> set (?h j) = {}" if "i \<in> set (st_JobsForTask st s t)" "j \<in> set (st_JobsForTask st s t)" "i \<noteq> j" for i j
    proof -
      have "r \<in> set (?h job) \<Longrightarrow> claims s (t, r) = Some (aj_AggregationJobID job)"
        if "job \<in> set (st_JobsForTask st s t)" for r job
        using job_of_task [OF assms that] by (auto simp: accounted_def)
      moreover have "aj_AggregationJobID i \<noteq> aj_AggregationJobID j"
        using job_of_task [OF assms that(1)] job_of_task [OF assms that(2)] that(3) by auto
      ultimately have False if "r \<in> set (?h i)" "r \<in> set (?h j)" for r
        using that \<open>i \<in> set _\<close> \<open>j \<in> set _\<close> by (metis option.inject)
      then show ?thesis by blast
    qed
  qed
  moreover have "map ra_ReportID (counted js) = concat (map ?h js)" for js
    by (induction js) (simp_all add: counted_def)
  ultimately show ?thesis by simp
qed

lemma counted_ok: "inv s \<Longrightarrow> ra \<in> set (counted (st_JobsForTask st s t)) \<Longrightarrow>
    \<exists>x. ra_OutShare ra = Some [x] \<and> canonical x"
  using job_of_task [of s _ t] by (fastforce simp: counted_def accounted_def ra_ok_def)

end

end
