(* ===== verification/Aggregate.thy ===== *)
theory Aggregate
  imports Server
begin

text \<open>
  Collection: the aggregate the helper seals is the sum of the contributions of the reports
  it counts, each exactly once, whatever order the store ranges over its jobs in.
\<close>

text \<open>The value an accepted report contributes.\<close>

definition contribution :: "report_aggregation \<Rightarrow> gf" where
  "contribution ra = (case ra_OutShare ra of Some [x] \<Rightarrow> gfe x | _ \<Rightarrow> 0)"

lemma sumOutShares_from:
  assumes "\<forall>ra\<in>set ras. ra_ok ra" and "canonical a"
  shows "\<exists>x. sumOutShares (Some [a]) ras = Inr (Some [x]) \<and> canonical x
    \<and> gfe x = gfe a + sum_list (map contribution (filter (\<lambda>ra. ra_State ra = StateFinished) ras))"
  using assms
proof (induction ras arbitrary: a)
  case (Cons ra ras)
  show ?case
  proof (cases "ra_State ra")
    case StateFinished
    then obtain y where y: "ra_OutShare ra = Some [y]" "canonical y" using Cons.prems(1) by (auto simp: ra_ok_def)
    have "VecAdd [a] [y] = Inr [Field_Add a y]" by (simp add: VecAdd_def)
    with StateFinished y Cons.IH [of "Field_Add a y"] Cons.prems(1) show ?thesis
      by (auto simp: contribution_def add.assoc)
  next
    case StateFailed
    with Cons show ?thesis by simp
  qed
qed auto

lemma sumOutShares_total:
  assumes "\<forall>ra\<in>set ras. ra_ok ra"
  shows "if filter (\<lambda>ra. ra_State ra = StateFinished) ras = [] then sumOutShares None ras = Inr None
    else (\<exists>x. sumOutShares None ras = Inr (Some [x]) \<and> canonical x
      \<and> gfe x = sum_list (map contribution (filter (\<lambda>ra. ra_State ra = StateFinished) ras)))"
  using assms
proof (induction ras)
  case (Cons ra ras)
  show ?case
  proof (cases "ra_State ra")
    case StateFinished
    then obtain y where y: "ra_OutShare ra = Some [y]" "canonical y" using Cons.prems by (auto simp: ra_ok_def)
    with StateFinished sumOutShares_from [of ras y] Cons.prems show ?thesis by (auto simp: contribution_def)
  next
    case StateFailed
    with Cons show ?thesis by simp
  qed
qed simp

definition aggregateOf :: "report_aggregation list \<Rightarrow> elt" where
  "aggregateOf ras = word_of_int (Rep_gf (sum_list (map contribution ras)))"

lemma sumOutShares_value:
  assumes "\<forall>job\<in>set js. \<forall>ra\<in>set (aj_ReportAggs job). ra_ok ra"
  shows "sumOutShares None (concat (map aj_ReportAggs js))
    = Inr (if counted js = [] then None else Some [aggregateOf (counted js)])"
proof -
  have "\<forall>ra\<in>set (concat (map aj_ReportAggs js)). ra_ok ra" using assms by auto
  from sumOutShares_total [OF this] show ?thesis
    using canonical_of_gf by (auto simp: counted_def aggregateOf_def gfe_inject [symmetric] split: if_splits)
qed

lemma aggregateOf_mset: "mset ras = mset ras' \<Longrightarrow> aggregateOf ras = aggregateOf ras'"
  unfolding aggregateOf_def by (metis mset_map sum_mset_sum_list)

lemma counted_mset: "mset js = mset js' \<Longrightarrow> mset (counted js) = mset (counted js')"
proof -
  assume eq: "mset js = mset js'"
  have "mset (counted js) = filter_mset (\<lambda>ra. ra_State ra = StateFinished) (\<Sum>j\<in>#mset js. mset (aj_ReportAggs j))" for js
    by (simp add: counted_def mset_concat mset_map [symmetric] comp_def sum_mset_sum_list del: mset_map)
  then show ?thesis using eq by simp
qed

lemma NewMemStore_tasks: "ms_tasks (NewMemStore ts) t = Some x \<Longrightarrow> t_TaskID x = t"
proof -
  have *: "\<forall>t x. ms_tasks m t = Some x \<longrightarrow> t_TaskID x = t \<Longrightarrow>
      \<forall>t x. ms_tasks (fold (\<lambda>t m. m\<lparr>ms_tasks := (ms_tasks m)(t_TaskID t \<mapsto> t)\<rparr>) ts m) t = Some x \<longrightarrow> t_TaskID x = t"
    for m :: mem_store
  proof (induction ts arbitrary: m)
    case (Cons a ts)
    show ?case unfolding fold_Cons comp_def by (rule Cons.IH) (use Cons.prems in auto)
  qed simp
  have "\<forall>t x. ms_tasks (NewMemStore ts) t = Some x \<longrightarrow> t_TaskID x = t"
    unfolding NewMemStore_def by (rule *) simp
  then show "ms_tasks (NewMemStore ts) t = Some x \<Longrightarrow> t_TaskID x = t" by blast
qed

abbreviation mem_inv :: "mem_store \<Rightarrow> bool" where
  "mem_inv \<equiv> store_contract.inv ms_tasks ms_jobs ms_claims mem_wf"

lemma reachable_inv:
  assumes "field_xof (e_xp e)" and "ranges order" and "reachable e (memStore order) (NewMemStore tasks) (m, ts)"
  shows "mem_inv m"
proof -
  note sc = memStore_contract [OF assms(2)]
  have "mem_inv (NewMemStore tasks)" by (simp add: store_contract.inv_def [OF sc] NewMemStore_tasks)
  from store_contract.reachable_safe [OF sc assms(1) this assms(3)] show ?thesis by blast
qed

end
