(* ===== verification/WireProps.thy ===== *)
theory WireProps
  imports WireJob
begin


text \<open>
  What the \<^verbatim>\<open>wire\<close> package promises its callers, message by message: the statements are the
  laws of the codec locales at the package's own readers and writers, for any cryptobyte
  library that does what its documentation says. Messages for the witnesses come first.
\<close>

subsection \<open>Sample messages\<close>

definition sample_ct :: hpke_ciphertext where
  "sample_ct = \<lparr>ct_ConfigID = 7, ct_Enc = [1, 2], ct_Payload = [3]\<rparr>"

definition sample_md :: report_metadata where
  "sample_md = \<lparr>md_ReportID = replicate 16 9, md_Time = 5,
     md_PublicExtensions = [\<lparr>ext_Type = 1, ext_Data = [8]\<rparr>]\<rparr>"

definition sample_report :: report where
  "sample_report = \<lparr>rp_Metadata = sample_md, rp_PublicShare = [], rp_LeaderEncryptedInputShare = sample_ct,
     rp_HelperEncryptedInputShare = sample_ct\<rparr>"

definition sample_init :: "variant \<Rightarrow> aggjob_init_req" where
  "sample_init v = \<lparr>air_Variant = v, air_VerificationKeyID = (if v = VariantJanus then 0 else 4), air_AggParam = [],
     air_Extensions = [],
     air_PartBatchSelector = (if v = VariantJanus then \<lparr>pbs_BatchMode = 1, pbs_Config = [6]\<rparr> else zero_pbs),
     air_VerifyInits = [\<lparr>vi_ReportShare = \<lparr>rs_ReportMetadata = sample_md, rs_PublicShare = [],
        rs_EncryptedInputShare = sample_ct\<rparr>, vi_Payload = [2]\<rparr>]\<rparr>"

definition sample_resp :: "variant \<Rightarrow> aggjob_resp" where
  "sample_resp v = \<lparr>arr_Variant = v, arr_VerifyResps =
     [\<lparr>vr_Variant = v, vr_ReportID = replicate 16 1, vr_Type = VerifyRespContinue, vr_Payload = [5], vr_Error = 0\<rparr>,
      \<lparr>vr_Variant = v, vr_ReportID = replicate 16 2, vr_Type = VerifyRespReject, vr_Payload = [], vr_Error = 8\<rparr>]\<rparr>"

definition sample_tc :: "variant \<Rightarrow> task_configuration" where
  "sample_tc v = \<lparr>tc_Variant = v, tc_TaskInfo = [1], tc_LeaderEndpoint = [2], tc_HelperEndpoint = [3],
     tc_TimePrecision = 3600, tc_MinBatchSize = 10, tc_BatchMode = 1, tc_BatchConfig = [], tc_VdafType = 1,
     tc_VdafConfiguration = [], tc_Extensions = [\<lparr>te_Type = 2, te_Data = [4]\<rparr>]\<rparr>"

definition sample_aad :: "variant \<Rightarrow> input_share_aad" where
  "sample_aad v = \<lparr>isa_Variant = v, isa_TaskID = replicate 32 1,
     isa_TaskConfiguration = (if v = VariantJanus then zero_tc else sample_tc v),
     isa_ReportMetadata = sample_md, isa_PublicShare = []\<rparr>"

lemmas sample_defs = sample_ct_def sample_md_def sample_report_def sample_init_def sample_resp_def
  sample_tc_def sample_aad_def

lemmas writer_defs = Report_Marshal_def ReportMetadata_Marshal_def HpkeCiphertext_Marshal_def ReportID_Marshal_def
  Time_Marshal_def marshalExtensionVec_def Extension_Marshal_def AggregationJobInitReq_Marshal_def
  PartialBatchSelector_Marshal_def VerifyInit_Marshal_def ReportShare_Marshal_def marshalAggJobExtVec_def
  AggregationJobResp_Marshal_def VerifyResp_Marshal_def setVariants_def TaskConfiguration_Marshal_def
  TaskExtension_Marshal_def InputShareAad_Marshal_def TaskID_Marshal_def BatchSelector_Marshal_def
  AggregateShareAad_Marshal_def PingPongMessage_Marshal_def

lemmas wf_defs = report_ok_def md_ok_def ct_ok_def air_ok_def vi_ok_def rs_ok_def arr_ok_def vr_ok_def tc_ok_def
  isa_ok_def ReportIDSize_def TaskIDSize_def

lemma sample_codes: "reportErrorToWire 8 v = Some (if draft19Values v then 7 else 8)"
  by (simp add: reportErrorToWire_def reportErrorTable_def reportError18_def reportError19_def)

lemma sample_encodings:
  "\<exists>w. marshal ref_cb (total (Report_Marshal ref_cb)) sample_report = Inr w"
  "\<exists>w. marshal ref_cb (total (AggregationJobInitReq_Marshal ref_cb)) (sample_init v) = Inr w"
  "\<exists>w. marshal ref_cb (AggregationJobResp_Marshal ref_cb) (sample_resp v) = Inr w"
  "\<exists>w. marshal ref_cb (TaskConfiguration_Marshal ref_cb) (sample_tc v) = Inr w"
  "\<exists>w. marshal ref_cb (InputShareAad_Marshal ref_cb) (sample_aad v) = Inr w"
proof -
  note enc = encoding_def [of ref_cb "AggregationJobResp_Marshal ref_cb"]
    encoding_def [of ref_cb "TaskConfiguration_Marshal ref_cb"] encoding_def [of ref_cb "InputShareAad_Marshal ref_cb"]
  note ev = marshal_Inr_iff writer_defs sample_defs sample_codes cat_Some_iff Let_def enc
  show "\<exists>w. marshal ref_cb (total (Report_Marshal ref_cb)) sample_report = Inr w" by (simp add: ev)
  show "\<exists>w. marshal ref_cb (total (AggregationJobInitReq_Marshal ref_cb)) (sample_init v) = Inr w" by (simp add: ev)
  show "\<exists>w. marshal ref_cb (AggregationJobResp_Marshal ref_cb) (sample_resp v) = Inr w" by (simp add: ev)
  show "\<exists>w. marshal ref_cb (TaskConfiguration_Marshal ref_cb) (sample_tc v) = Inr w" by (simp add: ev)
  show "\<exists>w. marshal ref_cb (InputShareAad_Marshal ref_cb) (sample_aad v) = Inr w" by (simp add: ev)
qed

lemma sample_wf:
  "report_ok sample_report" "air_ok v (sample_init v)" "arr_ok v (sample_resp v)" "tc_ok v (sample_tc v)"
  "isa_ok v (sample_aad v)"
  by (simp_all add: sample_defs wf_defs)

subsection \<open>Properties\<close>

context cryptobyte_laws
begin

lemmas message_codecs = report.codec_iff air.codec_iff arr.codec_iff tc.codec_iff pp.codec_iff
lemmas report_truncated = report.truncated_rejected
lemmas report_trailing = report.trailing_rejected
lemmas aad_unique = isa.unique_encoding

end

text \<open>
  C31. Decoding a Report is the exact inverse of encoding: the bytes decode to a report
  precisely when the report is well formed and encodes to those bytes, so an accepted report
  has one encoding only.
\<close>

theorem report_codec:
  assumes "cryptobyte_laws cb"
  shows "unmarshalAll (Report_Unmarshal cb) w = Inr r \<longleftrightarrow>
    report_ok r \<and> marshal cb (total (Report_Marshal cb)) r = Inr w"
  using cryptobyte_laws.message_codecs(1) [OF assms] by blast

theorem report_codec_witness:
  "\<exists>w. marshal ref_cb (total (Report_Marshal ref_cb)) sample_report = Inr w
    \<and> unmarshalAll (Report_Unmarshal ref_cb) w = Inr sample_report"
  using report_codec [OF ref.cryptobyte_laws_axioms] sample_encodings(1) sample_wf(1) by blast

text \<open>
  Every strict prefix of an encoded Report is rejected as malformed, and an encoded Report
  followed by any bytes is rejected as trailing data with their exact number.
\<close>

theorem report_framing:
  assumes "cryptobyte_laws cb" and "report_ok r" and "marshal cb (total (Report_Marshal cb)) r = Inr w"
  shows "(\<forall>n<length w. unmarshalAll (Report_Unmarshal cb) (take n w) = Inl ErrMalformed)
    \<and> (\<forall>s. s \<noteq> [] \<longrightarrow> unmarshalAll (Report_Unmarshal cb) (w @ s) = Inl (ErrTrailingData (length s)))"
proof (intro conjI allI impI)
  fix n assume "n < length w"
  then have "w = take n w @ drop n w" "drop n w \<noteq> []" by simp_all
  then show "unmarshalAll (Report_Unmarshal cb) (take n w) = Inl ErrMalformed"
    using cryptobyte_laws.report_truncated [OF assms(1,2), of "take n w" "drop n w"] assms(3) by simp
qed (rule cryptobyte_laws.report_trailing [OF assms])

theorem report_framing_witness:
  "\<exists>w. marshal ref_cb (total (Report_Marshal ref_cb)) sample_report = Inr w
    \<and> unmarshalAll (Report_Unmarshal ref_cb) (w @ [0, 0]) = Inl (ErrTrailingData 2)"
proof -
  obtain w where w: "marshal ref_cb (total (Report_Marshal ref_cb)) sample_report = Inr w"
    using sample_encodings(1) by blast
  from report_framing [OF ref.cryptobyte_laws_axioms sample_wf(1) w] w show ?thesis by auto
qed

text \<open>
  C29. For every draft variant, decoding an AggregationJobInitReq is the exact inverse of
  encoding: the bytes decode to a request precisely when the request has the shape of that
  variant and encodes to those bytes.
\<close>

theorem aggregation_init_codec:
  assumes "cryptobyte_laws cb"
  shows "unmarshalAll (AggregationJobInitReq_Unmarshal cb v) w = Inr a \<longleftrightarrow>
    air_ok v a \<and> marshal cb (total (AggregationJobInitReq_Marshal cb)) a = Inr w"
  using cryptobyte_laws.message_codecs(2) [OF assms] by blast

theorem aggregation_init_codec_witness:
  "\<forall>v. \<exists>w. marshal ref_cb (total (AggregationJobInitReq_Marshal ref_cb)) (sample_init v) = Inr w
    \<and> unmarshalAll (AggregationJobInitReq_Unmarshal ref_cb v) w = Inr (sample_init v)"
  using aggregation_init_codec [OF ref.cryptobyte_laws_axioms] sample_encodings(2) sample_wf(2) by blast

text \<open>
  C30. For every draft variant, decoding an AggregationJobResp is the exact inverse of encoding
  on well-formed responses, through the variant's own report-error registry.
\<close>

theorem aggregation_resp_codec:
  assumes "cryptobyte_laws cb"
  shows "unmarshalAll (AggregationJobResp_Unmarshal cb v) w = Inr a \<longleftrightarrow>
    arr_ok v a \<and> marshal cb (AggregationJobResp_Marshal cb) a = Inr w"
  using cryptobyte_laws.message_codecs(3) [OF assms] by blast

theorem aggregation_resp_codec_witness:
  "\<forall>v. \<exists>w. marshal ref_cb (AggregationJobResp_Marshal ref_cb) (sample_resp v) = Inr w
    \<and> unmarshalAll (AggregationJobResp_Unmarshal ref_cb v) w = Inr (sample_resp v)"
  using aggregation_resp_codec [OF ref.cryptobyte_laws_axioms] sample_encodings(3) sample_wf(3) by blast

text \<open>
  C32. For every draft variant, decoding a TaskConfiguration is the exact inverse of encoding,
  with the draft's own bound on task_info.
\<close>

theorem task_configuration_codec:
  assumes "cryptobyte_laws cb"
  shows "unmarshalAll (TaskConfiguration_Unmarshal cb v) w = Inr t \<longleftrightarrow>
    tc_ok v t \<and> marshal cb (TaskConfiguration_Marshal cb) t = Inr w"
  using cryptobyte_laws.message_codecs(4) [OF assms] by blast

theorem task_configuration_codec_witness:
  "\<forall>v. \<exists>w. marshal ref_cb (TaskConfiguration_Marshal ref_cb) (sample_tc v) = Inr w
    \<and> unmarshalAll (TaskConfiguration_Unmarshal ref_cb v) w = Inr (sample_tc v)"
  using task_configuration_codec [OF ref.cryptobyte_laws_axioms] sample_encodings(4) sample_wf(4) by blast

text \<open>
  The associated data of an input share binds all its fields: within a variant, equal
  bytes mean the same task, task configuration, report metadata and public share.
\<close>

theorem input_share_aad_binding:
  assumes "cryptobyte_laws cb" and "isa_ok v a" and "isa_ok v a'"
    and "marshal cb (InputShareAad_Marshal cb) a = Inr w" and "marshal cb (InputShareAad_Marshal cb) a' = Inr w"
  shows "a = a'"
  by (rule cryptobyte_laws.aad_unique [OF assms])

theorem input_share_aad_binding_witness:
  "marshal ref_cb (InputShareAad_Marshal ref_cb) (sample_aad VariantDraft18)
   \<noteq> marshal ref_cb (InputShareAad_Marshal ref_cb) ((sample_aad VariantDraft18)\<lparr>isa_TaskID := replicate 32 2\<rparr>)"
proof
  let ?a = "sample_aad VariantDraft18" and ?b = "(sample_aad VariantDraft18)\<lparr>isa_TaskID := replicate 32 2\<rparr>"
  assume eq: "marshal ref_cb (InputShareAad_Marshal ref_cb) ?a = marshal ref_cb (InputShareAad_Marshal ref_cb) ?b"
  obtain w where w: "marshal ref_cb (InputShareAad_Marshal ref_cb) ?a = Inr w" using sample_encodings(5) by blast
  have ok: "isa_ok VariantDraft18 ?a" "isa_ok VariantDraft18 ?b" by (simp_all add: sample_wf) (simp add: sample_defs wf_defs)
  have "?a = ?b" by (rule input_share_aad_binding [OF ref.cryptobyte_laws_axioms ok w]) (simp add: eq [symmetric] w)
  then have "isa_TaskID ?a = isa_TaskID ?b" by (rule arg_cong)
  then show False by (simp add: sample_defs)
qed

text \<open>
  The associated data of an aggregate share, which no code parses, binds its fields: equal
  bytes mean the same task, aggregation parameter and batch selector.
\<close>

theorem aggregate_share_aad_binding:
  assumes "cryptobyte_laws cb" and "length (asa_TaskID a) = 32" and "length (asa_TaskID a') = 32"
    and "marshal cb (total (AggregateShareAad_Marshal cb)) a = Inr w"
    and "marshal cb (total (AggregateShareAad_Marshal cb)) a' = Inr w"
  shows "a = a'"
  using cryptobyte_laws.AggregateShareAad_injective [OF assms(1) _ _ assms(4,5)] assms(2,3)
  by (simp add: TaskIDSize_def)

theorem aggregate_share_aad_binding_witness:
  "marshal ref_cb (total (AggregateShareAad_Marshal ref_cb))
     \<lparr>asa_TaskID = replicate 32 1, asa_AggParam = [], asa_BatchSelector = \<lparr>bs_BatchMode = 1, bs_Identifier = [2]\<rparr>\<rparr>
   \<noteq> marshal ref_cb (total (AggregateShareAad_Marshal ref_cb))
     \<lparr>asa_TaskID = replicate 32 1, asa_AggParam = [], asa_BatchSelector = \<lparr>bs_BatchMode = 1, bs_Identifier = [3]\<rparr>\<rparr>"
proof
  let ?f = "\<lambda>i. \<lparr>asa_TaskID = replicate 32 1, asa_AggParam = [], asa_BatchSelector = \<lparr>bs_BatchMode = 1, bs_Identifier = [i]\<rparr>\<rparr>"
  let ?m = "marshal ref_cb (total (AggregateShareAad_Marshal ref_cb))"
  assume eq: "?m (?f 2) = ?m (?f 3)"
  obtain w where w: "?m (?f 2) = Inr w" by (simp add: marshal_Inr_iff writer_defs cat_Some_iff)
  have "?f 2 = ?f 3"
    by (rule aggregate_share_aad_binding [OF ref.cryptobyte_laws_axioms _ _ w]) (simp_all add: eq [symmetric] w)
  then show False by simp
qed

text \<open>
  Decoding a framed ping-pong message is the exact inverse of encoding one that carries
  only the fields of its type, and a message of an unknown type is refused by the encoder.
\<close>

theorem ping_pong_codec:
  assumes "cryptobyte_laws cb"
  shows "(unmarshalAll (PingPongMessage_Unmarshal cb) w = Inr m \<longleftrightarrow>
      pp_ok m \<and> marshal cb (PingPongMessage_Marshal cb) m = Inr w)
    \<and> (pp_Type m > 2 \<longrightarrow> marshal cb (PingPongMessage_Marshal cb) m = Inl (UnknownPingPongType (pp_Type m)))"
proof (intro conjI impI)
  show "unmarshalAll (PingPongMessage_Unmarshal cb) w = Inr m \<longleftrightarrow>
      pp_ok m \<and> marshal cb (PingPongMessage_Marshal cb) m = Inr w"
    using cryptobyte_laws.message_codecs(5) [OF assms] by blast
  assume "pp_Type m > 2"
  then have "pp_Type m \<noteq> 0" "pp_Type m \<noteq> 1" "pp_Type m \<noteq> 2" by auto
  then show "marshal cb (PingPongMessage_Marshal cb) m = Inl (UnknownPingPongType (pp_Type m))"
    by (simp add: marshal_def PingPongMessage_Marshal_def)
qed

theorem ping_pong_codec_witness:
  "\<exists>w. marshal ref_cb (PingPongMessage_Marshal ref_cb) \<lparr>pp_Type = 2, pp_VerifierMessage = [9], pp_VerifierShare = []\<rparr> = Inr w
    \<and> unmarshalAll (PingPongMessage_Unmarshal ref_cb) w
      = Inr \<lparr>pp_Type = 2, pp_VerifierMessage = [9], pp_VerifierShare = []\<rparr>"
proof -
  let ?m = "\<lparr>pp_Type = 2, pp_VerifierMessage = [9], pp_VerifierShare = []\<rparr>"
  obtain w where w: "marshal ref_cb (PingPongMessage_Marshal ref_cb) ?m = Inr w"
    by (simp add: marshal_Inr_iff encoding_def writer_defs cat_Some_iff)
  with ping_pong_codec [OF ref.cryptobyte_laws_axioms, of w ?m] show ?thesis by (simp add: pp_ok_def)
qed

lemma table_members:
  "reportErrorToWire e v \<noteq> None \<longleftrightarrow> e \<in> fst ` set (reportErrorTable v)"
  by (auto simp: reportErrorToWire_def map_of_eq_None_iff)

text \<open>
  C33. The two report-error registries are partial bijections: a code point decodes to a reason
  exactly when the reason encodes to it, each draft has exactly its own set of reasons, and
  encoding a response fails exactly for a rejection whose reason its draft lacks.
\<close>

theorem report_error_registry:
  "(reportErrorFromWire b v = Some e \<longleftrightarrow> reportErrorToWire e v = Some b)
   \<and> (reportErrorToWire e v \<noteq> None \<longleftrightarrow>
        e \<in> (if draft19Values v then {0, 1, 2, 3, 4, 5, 6, 8, 9, 12, 13} else {0, 1, 2, 3, 4, 5, 6, 7, 8, 9, 10, 11}))
   \<and> (VerifyResp_Marshal cb r = Inl err \<longleftrightarrow>
        vr_Type r = 2 \<and> reportErrorToWire (vr_Error r) (vr_Variant r) = None
        \<and> err = NoCodePoint (vr_Error r) (vr_Variant r))"
  using reportErrorFromWire_iff VerifyResp_Marshal_Inl_iff
  unfolding table_members by (simp add: reportErrorTable_def reportError18_def reportError19_def)

end
