(* ===== verification/Honest.thy ===== *)
theory Honest
  imports Client Aggregate WireProps
begin

text \<open>
  An honest client's report at the helper: the composition of the client, the HPKE wrapper, the
  wire codecs, the VDAF and the helper's initialization.
\<close>

subsection \<open>Enrolment\<close>

text \<open>The client's task and the helper's agree, as both are configured out of band; the helper
  holds the key pair whose public half the client has.\<close>

definition enrolled :: "matrix_task \<Rightarrow> task \<Rightarrow> bool" where
  "enrolled t task \<longleftrightarrow> t_TaskID task = mt_TaskID t \<and> t_Variant task = mt_Variant t
     \<and> t_TaskConfig task = mt_Config t \<and> t_VDAFContext task = DAPVDAFContextFor (mt_Variant t) (mt_TaskID t)
     \<and> t_HPKESuite task = ag_Suite (mt_Helper t) \<and> t_HPKEConfigID task = ag_ConfigID (mt_Helper t)
     \<and> t_HPKEPublicKey task = ag_PublicKey (mt_Helper t)"

definition keyPair :: "'o circl \<Rightarrow> suite \<Rightarrow> bytes \<Rightarrow> bytes \<Rightarrow> bool" where
  "keyPair cl s pk sk \<longleftrightarrow> (\<exists>ent. GenerateKeyPair cl ent s = Inr (pk, sk))"

text \<open>The leader's request entry for a report: its share for the helper and a framed message.\<close>

definition verifyInitOf :: "report \<Rightarrow> bytes \<Rightarrow> verify_init" where
  "verifyInitOf rep payload =
     \<lparr>vi_ReportShare = \<lparr>rs_ReportMetadata = rp_Metadata rep, rs_PublicShare = rp_PublicShare rep,
        rs_EncryptedInputShare = rp_HelperEncryptedInputShare rep\<rparr>, vi_Payload = payload\<rparr>"

definition initializeMessage :: "prio3_count \<Rightarrow> elt list \<Rightarrow> ping_pong_message" where
  "initializeMessage c lv =
     \<lparr>pp_Type = PingPongInitialize, pp_VerifierMessage = [], pp_VerifierShare = EncodeVerifierShare c lv\<rparr>"

lemma contexts_agree: "DAPVDAFContextFor (mt_Variant t) (mt_TaskID t) = VDAFContext t"
  by (simp add: DAPVDAFContextFor_def VDAFContext_def)

lemma infos_agree: "helperInputShareInfo (mt_Variant t) = inputShareInfo t matrix_roleHelper"
  by (simp add: helperInputShareInfo_def inputShareInfo_def roleClient_def roleHelper_def
      matrix_roleClient_def matrix_roleHelper_def)

lemma aads_agree:
  "enrolled t task \<Longrightarrow> inputShareAad task (verifyInitOf rep payload) (mt_Variant t)
     = clientAad t (rp_Metadata rep) (rp_PublicShare rep)"
  by (simp add: enrolled_def inputShareAad_def clientAad_def verifyInitOf_def)

subsection \<open>Messages that always encode\<close>

context cryptobyte_laws
begin

lemmas pis_roundtrip = pis.roundtrip
lemmas pp_roundtrip = pp.roundtrip

lemma finish_encodes: "\<exists>w. marshal cb (PingPongMessage_Marshal cb) finishMessage = Inr w"
  by (simp add: marshal_Inr_iff encoding_def PingPongMessage_Marshal_def finishMessage_def cat_Some_iff)

lemma initialize_encodes:
  assumes "length lv = 4"
  shows "\<exists>w. marshal cb (PingPongMessage_Marshal cb) (initializeMessage c lv) = Inr w
    \<and> unmarshalAll (PingPongMessage_Unmarshal cb) w = Inr (initializeMessage c lv) \<and> length w = 37"
proof -
  have "length (EncodeVerifierShare c lv) = 32" using assms by (simp add: EncodeVerifierShare_def)
  then obtain w where w: "marshal cb (PingPongMessage_Marshal cb) (initializeMessage c lv) = Inr w" "length w = 37"
    by (simp add: marshal_Inr_iff encoding_def PingPongMessage_Marshal_def initializeMessage_def cat_Some_iff)
  have "pp_ok (initializeMessage c lv)" by (simp add: pp_ok_def initializeMessage_def)
  from pp_roundtrip [OF this w(1)] w show ?thesis by blast
qed

lemma opened_share:
  assumes "marshal cb (total (PlaintextInputShare_Marshal cb)) \<lparr>pis_PrivateExtensions = [], pis_Payload = b\<rparr> = Inr pt"
    and "b \<noteq> []"
  shows "unmarshalAll (PlaintextInputShare_Unmarshal cb) pt = Inr \<lparr>pis_PrivateExtensions = [], pis_Payload = b\<rparr>"
  using assms by (intro pis_roundtrip) (simp_all add: pis_ok_def)

end


subsection \<open>One report\<close>

lemma DecodeInputShare_nonempty: "DecodeInputShare c i b = Inr s \<Longrightarrow> b \<noteq> []"
  by (auto simp: DecodeInputShare_def Let_def Count_sizes proofs_def EncodedSize_def SeedSize_def split: if_splits)

lemma verifyReport_accepts:
  assumes cb: "cryptobyte_laws (e_cb e)"
    and pt: "unmarshalAll (PlaintextInputShare_Unmarshal (e_cb e)) pt = Inr \<lparr>pis_PrivateExtensions = [], pis_Payload = b\<rparr>"
    and md: "md_PublicExtensions (rs_ReportMetadata (vi_ReportShare vi)) = []"
    and c: "NewCount 2 (t_VDAFContext task) = Inr c" and share: "DecodeInputShare c 1 b = Inr hin"
    and msg: "unmarshalAll (PingPongMessage_Unmarshal (e_cb e)) (vi_Payload vi) = Inr (initializeMessage c lv)"
    and lv: "length lv = 4" "list_all canonical lv"
    and vi: "VerifyInit (e_xp e) c vk 1 (md_ReportID (rs_ReportMetadata (vi_ReportShare vi)))
       (rs_PublicShare (vi_ReportShare vi)) hin = Some (Inr (hout, hv))"
    and ok: "VerifierSharesToMessage c [lv, hv] = Some (Inr [])"
  obtains ob where "marshal (e_cb e) (PingPongMessage_Marshal (e_cb e)) finishMessage = Inr ob"
    and "verifyReport e task vk vi pt = Some (Inr (hout, ob))"
proof -
  obtain ob where ob: "marshal (e_cb e) (PingPongMessage_Marshal (e_cb e)) finishMessage = Inr ob"
    using cryptobyte_laws.finish_encodes [OF cb] by blast
  have "verifyReport e task vk vi pt = Some (Inr (hout, ob))"
    using pt md c share msg vi ok ob DecodeVerifierShare_EncodeVerifierShare [OF lv]
    by (simp add: verifyReport_def validReportExtensions_def numAggregators_def helperAggregatorID_def
        initializeMessage_def VerifyNext_def finishMessage_def)
  with ob show thesis by (rule that)
qed

lemma openCandidates_client:
  assumes cl: "circl_laws (e_cl e)" and enr: "enrolled t task"
    and keys: "keyPair (e_cl e) (t_HPKESuite task) (t_HPKEPublicKey task) (t_HPKEPrivateKey task)"
    and aad: "marshal (e_cb e) (InputShareAad_Marshal (e_cb e)) (clientAad t (rp_Metadata rep) (rp_PublicShare rep)) = Inr aad"
    and seal: "Seal (e_cl e) rnd (ag_Suite (mt_Helper t)) (ag_PublicKey (mt_Helper t)) (inputShareInfo t matrix_roleHelper)
      aad pt = Inr (ct_Enc (rp_HelperEncryptedInputShare rep), ct_Payload (rp_HelperEncryptedInputShare rep))"
  shows "openCandidates e task (mt_Variant t) (verifyInitOf rep payload) (candidates (mt_Variant t)) = Some pt"
proof -
  obtain ent where gen: "GenerateKeyPair (e_cl e) ent (ag_Suite (mt_Helper t)) = Inr (ag_PublicKey (mt_Helper t), t_HPKEPrivateKey task)"
    using keys enr by (auto simp: keyPair_def enrolled_def)
  have "Open (e_cl e) (t_HPKESuite task) (t_HPKEPrivateKey task) (helperInputShareInfo (mt_Variant t))
      (ct_Enc (rp_HelperEncryptedInputShare rep)) aad (ct_Payload (rp_HelperEncryptedInputShare rep)) = Inr pt"
    using circl_laws.Open_Seal [OF cl gen seal] enr by (simp add: infos_agree enrolled_def)
  moreover have "rs_EncryptedInputShare (vi_ReportShare (verifyInitOf rep payload)) = rp_HelperEncryptedInputShare rep"
    by (simp add: verifyInitOf_def)
  moreover obtain w where "candidates (mt_Variant t) = [mt_Variant t, w]" by (simp add: candidates_def)
  ultimately show ?thesis using aad aads_agree [OF enr] by (simp add: Let_def)
qed

definition goodQuery :: "expander \<Rightarrow> prio3_count \<Rightarrow> bytes \<Rightarrow> bytes \<Rightarrow> bool" where
  "goodQuery xp c vk nonce \<longleftrightarrow> (\<exists>t. queryRands xp c vk nonce = Some (Inr [t]) \<and> Field_Mul t t \<noteq> 1)"

lemma two_shares:
  assumes xof: "field_xof xp" and c: "NewCount 2 ctx = Inr c"
    and sh: "Shard xp c m nonce rand = Some (Inr (ps, ins))" and q: "goodQuery xp c vk nonce"
  obtains lout lv hout hv where "VerifyInit xp c vk 0 nonce ps (ins ! 0) = Some (Inr (lout, lv))"
    and "VerifyInit xp c vk 1 nonce ps (ins ! 1) = Some (Inr (hout, hv))"
    and "VerifierSharesToMessage c [lv, hv] = Some (Inr [])"
    and "length lv = 4" "list_all canonical lv" and "length lout = 1" "length hout = 1"
    and "gfe (lout ! 0) + gfe (hout ! 0) = of_int m"
proof -
  obtain t where t: "queryRands xp c vk nonce = Some (Inr [t])" "Field_Mul t t \<noteq> 1"
    using q by (auto simp: goodQuery_def)
  have t2: "gfe t ^ 2 \<noteq> 1"
    using t field_xof.expansion_lengths(4) [OF xof t(1)] by (intro test_point) simp_all
  have two: "unat (2 :: 8 word) = 2" "[0..<2] = [0, 1 :: nat]" by (simp_all add: upt_rec)
  show thesis
  proof (rule field_xof.Prio3_complete [OF xof c sh t(1) t2], goal_cases)
    case (1 outs vss)
    note r = 1 [unfolded two]
    have "(\<Sum>i<2. gfe (outs i ! 0)) = gfe (outs 0 ! 0) + gfe (outs 1 ! 0)" by (simp add: numeral_2_eq_2)
    then show thesis
      using r(1) [of 0] r(1) [of 1] r(2) r(3) [of 0] r(3) [of 1] r(4) r(5) [of 0]
      by (intro that [of "outs 0" "vss 0" "outs 1" "vss 1"]) simp_all
  qed
qed

text \<open>What a leader that follows the protocol does with a report: it opens its own share under the
  client's associated data, decodes it, runs its preparation and sends its verifier share.\<close>

definition leaderStep ::
  "('b, 'o) env \<Rightarrow> matrix_task \<Rightarrow> bytes \<Rightarrow> prio3_count \<Rightarrow> verify_key \<Rightarrow> report \<Rightarrow> elt list \<Rightarrow> bytes \<Rightarrow> bool" where
  "leaderStep e t sk c vk rep lout payload \<longleftrightarrow>
     (\<exists>aad pt pis lin lv.
        marshal (e_cb e) (InputShareAad_Marshal (e_cb e)) (clientAad t (rp_Metadata rep) (rp_PublicShare rep)) = Inr aad
      \<and> Open (e_cl e) (ag_Suite (mt_Leader t)) sk (inputShareInfo t roleLeader)
          (ct_Enc (rp_LeaderEncryptedInputShare rep)) aad (ct_Payload (rp_LeaderEncryptedInputShare rep)) = Inr pt
      \<and> unmarshalAll (PlaintextInputShare_Unmarshal (e_cb e)) pt = Inr pis
      \<and> DecodeInputShare c 0 (pis_Payload pis) = Inr lin
      \<and> VerifyInit (e_xp e) c vk 0 (md_ReportID (rp_Metadata rep)) (rp_PublicShare rep) lin = Some (Inr (lout, lv))
      \<and> marshal (e_cb e) (PingPongMessage_Marshal (e_cb e)) (initializeMessage c lv) = Inr payload)"

lemma leaderStep_unique:
  "leaderStep e t sk c vk rep lout payload \<Longrightarrow> leaderStep e t sk c vk rep lout' payload' \<Longrightarrow> lout' = lout \<and> payload' = payload"
  by (auto simp: leaderStep_def)

definition finishedAgg :: "report_id \<Rightarrow> 64 word \<Rightarrow> elt \<Rightarrow> bytes \<Rightarrow> verify_resp \<times> report_aggregation" where
  "finishedAgg r ord x ob =
     (let vr = \<lparr>vr_Variant = VariantDraft18, vr_ReportID = r, vr_Type = VerifyRespContinue, vr_Payload = ob, vr_Error = 0\<rparr>
      in (vr, \<lparr>ra_ReportID = r, ra_Ord = ord, ra_State = StateFinished, ra_OutShare = Some [x],
               ra_LastVerifyResp = vr, ra_ReportError = 0\<rparr>))"

text \<open>The two shares a report carries, as their recipients get them.\<close>

lemma Report_shares:
  assumes laws: "cryptobyte_laws (e_cb e)" "field_xof (e_xp e)"
    and rep: "Report e t rnd m now = Some (Inr rep)" and c: "NewCount 2 (VDAFContext t) = Inr c"
  obtains share0 share1 rest rand aad pt0 pt1 where "md_PublicExtensions (rp_Metadata rep) = []"
    and "Shard (e_xp e) c m (md_ReportID (rp_Metadata rep)) rand = Some (Inr (rp_PublicShare rep, share0 # share1 # rest))"
    and "marshal (e_cb e) (InputShareAad_Marshal (e_cb e)) (clientAad t (rp_Metadata rep) (rp_PublicShare rep)) = Inr aad"
    and "Seal (e_cl e) (rd_Leader rnd) (ag_Suite (mt_Leader t)) (ag_PublicKey (mt_Leader t)) (inputShareInfo t roleLeader) aad pt0
      = Inr (ct_Enc (rp_LeaderEncryptedInputShare rep), ct_Payload (rp_LeaderEncryptedInputShare rep))"
    and "unmarshalAll (PlaintextInputShare_Unmarshal (e_cb e)) pt0
      = Inr \<lparr>pis_PrivateExtensions = [], pis_Payload = EncodeInputShare c share0\<rparr>"
    and "DecodeInputShare c 0 (EncodeInputShare c share0) = Inr share0"
    and "Seal (e_cl e) (rd_Helper rnd) (ag_Suite (mt_Helper t)) (ag_PublicKey (mt_Helper t)) (inputShareInfo t matrix_roleHelper) aad pt1
      = Inr (ct_Enc (rp_HelperEncryptedInputShare rep), ct_Payload (rp_HelperEncryptedInputShare rep))"
    and "unmarshalAll (PlaintextInputShare_Unmarshal (e_cb e)) pt1
      = Inr \<lparr>pis_PrivateExtensions = [], pis_Payload = EncodeInputShare c share1\<rparr>"
    and "DecodeInputShare c 1 (EncodeInputShare c share1) = Inr share1"
    and "ct_ConfigID (rp_HelperEncryptedInputShare rep) = ag_ConfigID (mt_Helper t)"
proof -
  obtain share0 share1 rest rand aad where md: "md_PublicExtensions (rp_Metadata rep) = []"
    and shard: "Shard (e_xp e) c m (md_ReportID (rp_Metadata rep)) rand = Some (Inr (rp_PublicShare rep, share0 # share1 # rest))"
    and aad: "marshal (e_cb e) (InputShareAad_Marshal (e_cb e)) (clientAad t (rp_Metadata rep) (rp_PublicShare rep)) = Inr aad"
    and seal0: "sealShare e t c aad (rd_Leader rnd) (mt_Leader t) roleLeader share0 = Inr (rp_LeaderEncryptedInputShare rep)"
    and seal1: "sealShare e t c aad (rd_Helper rnd) (mt_Helper t) matrix_roleHelper share1 = Inr (rp_HelperEncryptedInputShare rep)"
    using Report_Inr [OF rep] c by (metis report_metadata.select_convs(3) sum.inject(2))
  have dec: "DecodeInputShare c 0 (EncodeInputShare c share0) = Inr share0"
    "DecodeInputShare c 1 (EncodeInputShare c share1) = Inr share1"
    using field_xof.Shard_codec [OF laws(2) c shard, of 0] field_xof.Shard_codec [OF laws(2) c shard, of 1] by simp_all
  obtain pt0 where p0: "marshal (e_cb e) (total (PlaintextInputShare_Marshal (e_cb e)))
       \<lparr>pis_PrivateExtensions = [], pis_Payload = EncodeInputShare c share0\<rparr> = Inr pt0"
    and s0: "Seal (e_cl e) (rd_Leader rnd) (ag_Suite (mt_Leader t)) (ag_PublicKey (mt_Leader t)) (inputShareInfo t roleLeader) aad pt0
      = Inr (ct_Enc (rp_LeaderEncryptedInputShare rep), ct_Payload (rp_LeaderEncryptedInputShare rep))"
    by (rule sealShare_Inr [OF seal0])
  obtain pt1 where p1: "marshal (e_cb e) (total (PlaintextInputShare_Marshal (e_cb e)))
       \<lparr>pis_PrivateExtensions = [], pis_Payload = EncodeInputShare c share1\<rparr> = Inr pt1"
    and s1: "Seal (e_cl e) (rd_Helper rnd) (ag_Suite (mt_Helper t)) (ag_PublicKey (mt_Helper t)) (inputShareInfo t matrix_roleHelper) aad pt1
      = Inr (ct_Enc (rp_HelperEncryptedInputShare rep), ct_Payload (rp_HelperEncryptedInputShare rep))"
    and cfg: "ct_ConfigID (rp_HelperEncryptedInputShare rep) = ag_ConfigID (mt_Helper t)"
    by (rule sealShare_Inr [OF seal1])
  note u0 = cryptobyte_laws.opened_share [OF laws(1) p0 DecodeInputShare_nonempty [OF dec(1)]]
  note u1 = cryptobyte_laws.opened_share [OF laws(1) p1 DecodeInputShare_nonempty [OF dec(2)]]
  show thesis by (rule that [OF md shard aad s0 u0 dec(1) s1 u1 dec(2) cfg])
qed

lemma honest_report:
  assumes laws: "cryptobyte_laws (e_cb e)" "circl_laws (e_cl e)" "field_xof (e_xp e)"
    and enr: "enrolled t task" and keys: "keyPair (e_cl e) (t_HPKESuite task) (t_HPKEPublicKey task) (t_HPKEPrivateKey task)"
    and lkeys: "keyPair (e_cl e) (ag_Suite (mt_Leader t)) (ag_PublicKey (mt_Leader t)) sk"
    and rep: "Report e t rnd m now = Some (Inr rep)" and c: "NewCount 2 (VDAFContext t) = Inr c"
    and q: "goodQuery (e_xp e) c vk (md_ReportID (rp_Metadata rep))"
  obtains lout payload x ob where "leaderStep e t sk c vk rep lout payload"
    and "marshal (e_cb e) (PingPongMessage_Marshal (e_cb e)) finishMessage = Inr ob"
    and "\<And>ord. aggregateInit e task vk (mt_Variant t) (verifyInitOf rep payload) ord
      = Some (finishedAgg (md_ReportID (rp_Metadata rep)) ord x ob)"
    and "length lout = 1" and "gfe (lout ! 0) + gfe x = of_int m" and "length payload = 37"
proof -
  obtain share0 share1 rest rand aad pt0 pt1 where md: "md_PublicExtensions (rp_Metadata rep) = []"
    and shard: "Shard (e_xp e) c m (md_ReportID (rp_Metadata rep)) rand = Some (Inr (rp_PublicShare rep, share0 # share1 # rest))"
    and aad: "marshal (e_cb e) (InputShareAad_Marshal (e_cb e)) (clientAad t (rp_Metadata rep) (rp_PublicShare rep)) = Inr aad"
    and s0: "Seal (e_cl e) (rd_Leader rnd) (ag_Suite (mt_Leader t)) (ag_PublicKey (mt_Leader t)) (inputShareInfo t roleLeader) aad pt0
      = Inr (ct_Enc (rp_LeaderEncryptedInputShare rep), ct_Payload (rp_LeaderEncryptedInputShare rep))"
    and u0: "unmarshalAll (PlaintextInputShare_Unmarshal (e_cb e)) pt0
      = Inr \<lparr>pis_PrivateExtensions = [], pis_Payload = EncodeInputShare c share0\<rparr>"
      "DecodeInputShare c 0 (EncodeInputShare c share0) = Inr share0"
    and s1: "Seal (e_cl e) (rd_Helper rnd) (ag_Suite (mt_Helper t)) (ag_PublicKey (mt_Helper t)) (inputShareInfo t matrix_roleHelper) aad pt1
      = Inr (ct_Enc (rp_HelperEncryptedInputShare rep), ct_Payload (rp_HelperEncryptedInputShare rep))"
    and u1: "unmarshalAll (PlaintextInputShare_Unmarshal (e_cb e)) pt1
      = Inr \<lparr>pis_PrivateExtensions = [], pis_Payload = EncodeInputShare c share1\<rparr>"
      "DecodeInputShare c 1 (EncodeInputShare c share1) = Inr share1"
    and cfg: "ct_ConfigID (rp_HelperEncryptedInputShare rep) = ag_ConfigID (mt_Helper t)"
    by (rule Report_shares [OF laws(1,3) rep c])
  obtain lout lv hout hv where v0: "VerifyInit (e_xp e) c vk 0 (md_ReportID (rp_Metadata rep)) (rp_PublicShare rep) share0 = Some (Inr (lout, lv))"
    and v1: "VerifyInit (e_xp e) c vk 1 (md_ReportID (rp_Metadata rep)) (rp_PublicShare rep) share1 = Some (Inr (hout, hv))"
    and ok: "VerifierSharesToMessage c [lv, hv] = Some (Inr [])"
    and lv: "length lv = 4" "list_all canonical lv" and len: "length lout = 1" "length hout = 1"
    and sum: "gfe (lout ! 0) + gfe (hout ! 0) = of_int m"
    using two_shares [OF laws(3) c shard q] by (metis nth_Cons_0 nth_Cons_Suc One_nat_def)
  obtain payload where payload: "marshal (e_cb e) (PingPongMessage_Marshal (e_cb e)) (initializeMessage c lv) = Inr payload"
    "unmarshalAll (PingPongMessage_Unmarshal (e_cb e)) payload = Inr (initializeMessage c lv)" "length payload = 37"
    using cryptobyte_laws.initialize_encodes [OF laws(1) lv(1)] by blast
  have leader: "leaderStep e t sk c vk rep lout payload"
    using aad circl_laws.Open_Seal [OF laws(2) _ s0] lkeys u0 v0 payload(1)
    by (fastforce simp: leaderStep_def keyPair_def)
  obtain x where x: "hout = [x]" using len(2) by (auto simp: length_Suc_conv)
  note opened = openCandidates_client [OF laws(2) enr keys aad s1, of payload]
  let ?vi = "verifyInitOf rep payload"
  have vi: "rs_ReportMetadata (vi_ReportShare ?vi) = rp_Metadata rep" "rs_PublicShare (vi_ReportShare ?vi) = rp_PublicShare rep"
    "vi_Payload ?vi = payload" "rs_EncryptedInputShare (vi_ReportShare ?vi) = rp_HelperEncryptedInputShare rep"
    by (simp_all add: verifyInitOf_def)
  have ctx: "NewCount 2 (t_VDAFContext task) = Inr c" using c enr by (simp add: enrolled_def contexts_agree)
  obtain ob where ob: "marshal (e_cb e) (PingPongMessage_Marshal (e_cb e)) finishMessage = Inr ob"
    and vr: "verifyReport e task vk ?vi pt1 = Some (Inr (hout, ob))"
    using verifyReport_accepts [OF laws(1) u1(1) _ ctx u1(2) _ lv, of ?vi vk hout hv] md v1 ok payload(2) vi by metis
  have "aggregateInit e task vk (mt_Variant t) ?vi ord = Some (finishedAgg (md_ReportID (rp_Metadata rep)) ord x ob)" for ord
    using opened vr cfg enr x by (simp add: aggregateInit_def Let_def vi enrolled_def finishedAgg_def)
  with leader ob len(1) sum x payload(3) show thesis by (intro that [of lout payload ob x]) simp_all
qed

end
