(* ===== verification/Collect.thy ===== *)
theory Collect
  imports Honest
begin

text \<open>
  Collection: what the aggregate-share endpoint returns, and that it does not depend on the order
  in which the store ranges over its jobs.
\<close>

subsection \<open>The aggregate share\<close>

lemma aggregateOf_value: "canonical (aggregateOf ras) \<and> gfe (aggregateOf ras) = (\<Sum>ra\<leftarrow>ras. contribution ra)"
  by (simp add: aggregateOf_def canonical_of_gf)

lemma jobs_ok:
  assumes "ranges order" and "mem_inv m"
  shows "\<forall>job\<in>set (JobsForTask order m t). \<forall>ra\<in>set (aj_ReportAggs job). ra_ok ra"
  using store_contract.job_of_task [OF memStore_contract [OF assms(1)] assms(2), of _ t]
  by (simp add: memStore_def accounted_def)

lemma sealAggregateShare_200:
  assumes "sealAggregateShare e ent taskID task req agg = resp" and "re_Status resp = 200"
  obtains aad enc ct bs where
    "marshal (e_cb e) (total (AggregateShareAad_Marshal (e_cb e)))
       \<lparr>asa_TaskID = taskID, asa_AggParam = asr_AggParam req, asa_BatchSelector = asr_BatchSelector req\<rparr> = Inr aad"
    and "Seal (e_cl e) ent (t_CollectorHPKESuite task) (t_CollectorHPKEPublicKey task)
       (aggregateShareInfo (t_Variant task)) aad (EncodeVec agg) = Inr (enc, ct)"
    and "marshal (e_cb e) (total (AggregateShare_Marshal (e_cb e)))
       \<lparr>ct_ConfigID = t_CollectorHPKEConfigID task, ct_Enc = enc, ct_Payload = ct\<rparr> = Inr bs"
    and "resp = \<lparr>re_Status = 200, re_Headers = [(''Content-Type'', mediaAggregateShare)], re_Body = Message bs\<rparr>"
  using assms by (auto simp: sealAggregateShare_def writeProblem_def split: sum.splits prod.splits)

lemma handleAggregateShare_200:
  assumes "run (handleAggregateShare e (memStore order) ent r t) m = Some (m', resp)" and "re_Status resp = 200"
    and "ranges order" and "mem_inv m"
  obtains task body req where "m' = m" and "GetTask m t = Some task" and "readBody r = Some body"
    and "unmarshalAll (AggregateShareReq_Unmarshal (e_cb e)) body = Inr req"
    and "counted (JobsForTask order m t) \<noteq> []"
    and "sealAggregateShare e ent t task req [aggregateOf (counted (JobsForTask order m t))] = resp"
proof -
  have st: "st_GetTask (memStore order) = GetTask" "st_JobsForTask (memStore order) = JobsForTask order"
    by (simp_all add: memStore_def)
  note val = sumOutShares_value [OF jobs_ok [OF assms(3,4)], of t]
  show thesis
    using assms(1,2) that
    by (auto simp: handleAggregateShare_def st val writeProblem_def split: option.splits sum.splits if_splits)
qed

text \<open>The answer to an aggregate-share request is a ciphertext for the collector, bound to the task and
  to the request's batch, that opens to the encoding of \<open>x\<close>.\<close>

definition share_opens :: "('b, 'o) env \<Rightarrow> task \<Rightarrow> http_request \<Rightarrow> http_response \<Rightarrow> elt \<Rightarrow> bool" where
  "share_opens e task r resp x \<longleftrightarrow> (\<exists>body req aad ct bs. readBody r = Some body
     \<and> unmarshalAll (AggregateShareReq_Unmarshal (e_cb e)) body = Inr req
     \<and> marshal (e_cb e) (total (AggregateShareAad_Marshal (e_cb e)))
         \<lparr>asa_TaskID = t_TaskID task, asa_AggParam = asr_AggParam req, asa_BatchSelector = asr_BatchSelector req\<rparr> = Inr aad
     \<and> ct_ConfigID ct = t_CollectorHPKEConfigID task
     \<and> marshal (e_cb e) (total (AggregateShare_Marshal (e_cb e))) ct = Inr bs \<and> re_Body resp = Message bs
     \<and> (\<forall>sk. keyPair (e_cl e) (t_CollectorHPKESuite task) (t_CollectorHPKEPublicKey task) sk \<longrightarrow>
          Open (e_cl e) (t_CollectorHPKESuite task) sk (aggregateShareInfo (t_Variant task)) (ct_Enc ct) aad (ct_Payload ct)
            = Inr (EncodeVec [x])))"

lemma aggregate_share_opens:
  assumes cl: "circl_laws (e_cl e)" and "ranges order" and "mem_inv m"
    and "run (handleAggregateShare e (memStore order) ent r t) m = Some (m', resp)" and "re_Status resp = 200"
  obtains task where "m' = m" and "GetTask m t = Some task" and "t_TaskID task = t"
    and "share_opens e task r resp (aggregateOf (counted (JobsForTask order m t)))"
proof -
  let ?x = "aggregateOf (counted (JobsForTask order m t))"
  obtain task body req where m: "m' = m" and task: "GetTask m t = Some task" and body: "readBody r = Some body"
    "unmarshalAll (AggregateShareReq_Unmarshal (e_cb e)) body = Inr req"
    and seal: "sealAggregateShare e ent t task req [?x] = resp"
    by (rule handleAggregateShare_200 [OF assms(4,5,2,3)])
  have t: "t_TaskID task = t"
    using assms(3) task by (simp add: store_contract.inv_def [OF memStore_contract [OF assms(2)]] GetTask_def)
  obtain aad enc ct bs where s: "marshal (e_cb e) (total (AggregateShareAad_Marshal (e_cb e)))
       \<lparr>asa_TaskID = t, asa_AggParam = asr_AggParam req, asa_BatchSelector = asr_BatchSelector req\<rparr> = Inr aad"
    "Seal (e_cl e) ent (t_CollectorHPKESuite task) (t_CollectorHPKEPublicKey task) (aggregateShareInfo (t_Variant task)) aad
       (EncodeVec [?x]) = Inr (enc, ct)"
    "marshal (e_cb e) (total (AggregateShare_Marshal (e_cb e)))
       \<lparr>ct_ConfigID = t_CollectorHPKEConfigID task, ct_Enc = enc, ct_Payload = ct\<rparr> = Inr bs"
    "resp = \<lparr>re_Status = 200, re_Headers = [(''Content-Type'', mediaAggregateShare)], re_Body = Message bs\<rparr>"
    by (rule sealAggregateShare_200 [OF seal assms(5)])
  have "Open (e_cl e) (t_CollectorHPKESuite task) sk (aggregateShareInfo (t_Variant task)) enc aad ct = Inr (EncodeVec [?x])"
    if "keyPair (e_cl e) (t_CollectorHPKESuite task) (t_CollectorHPKEPublicKey task) sk" for sk
    using circl_laws.Open_Seal [OF cl _ s(2)] that by (auto simp: keyPair_def)
  with body s have "share_opens e task r resp ?x"
    unfolding share_opens_def t
    by (intro exI [of _ body] exI [of _ req] exI [of _ aad]
        exI [of _ "\<lparr>ct_ConfigID = t_CollectorHPKEConfigID task, ct_Enc = enc, ct_Payload = ct\<rparr>"] exI [of _ bs]) simp
  from that [OF m task t this] show thesis .
qed

end
