(* ===== verification/Requests.thy ===== *)
theory Requests
  imports Collect
begin

text \<open>
  The life of a request: a retried request gets the same answer and changes nothing more, and every
  request is answered when the XOF returns.
\<close>

subsection \<open>Retries\<close>

text \<open>Run again after its answer, the program changes nothing and answers the same.\<close>

definition settles :: "mem_store prog \<Rightarrow> mem_store \<Rightarrow> bool" where
  "settles p m \<longleftrightarrow> (\<forall>m' resp. run p m = Some (m', resp) \<longrightarrow> run p m' = Some (m', resp) \<and> ms_tasks m' = ms_tasks m)"

lemma settles_Return [simp]: "settles (Return resp) m"
  by (simp add: settles_def)

lemma memStore_simps:
  "st_PutJob (memStore order) = PutJob" "st_GetJob (memStore order) = GetJob"
  "st_WriteResponse (memStore order) = WriteResponse" "st_DeleteJob (memStore order) = DeleteJob"
  "st_GetTask (memStore order) = GetTask" "st_JobsForTask (memStore order) = JobsForTask order"
  "st_ClaimReportIDs (memStore order) = ClaimReportIDs"
  by (simp_all add: memStore_def)

text \<open>A job whose response has been encoded answers as before, and encoding it again changes
  nothing.\<close>

definition markJob :: "'b cryptobyte \<Rightarrow> aggregation_job \<Rightarrow> aggregation_job" where
  "markJob cb job = job\<lparr>aj_Response := marshalledResp cb (aj_Response job)\<rparr>"

lemma markJob_simps [simp]:
  "aj_TaskID (markJob cb job) = aj_TaskID job" "aj_AggregationJobID (markJob cb job) = aj_AggregationJobID job"
  "aj_LastRequestHash (markJob cb job) = aj_LastRequestHash job" "aj_ReportAggs (markJob cb job) = aj_ReportAggs job"
  "aj_Response (markJob cb job) = marshalledResp cb (aj_Response job)" "markJob cb (markJob cb job) = markJob cb job"
  by (simp_all add: markJob_def)

lemma respMessage_marked [simp]:
  "respMessage cb t j (marshalledResp cb a) status = respMessage cb t j a status"
  by (simp add: respMessage_def)

lemma WriteResponse_again:
  "WriteResponse (WriteResponse m job (marshalledResp cb)) job (marshalledResp cb) = WriteResponse m job (marshalledResp cb)"
  by (simp add: WriteResponse_def Let_def split: option.split)

lemma WriteResponse_tasks [simp]:
  "ms_tasks (WriteResponse m job f) = ms_tasks m" "ms_claims (WriteResponse m job f) = ms_claims m"
  by (simp_all add: WriteResponse_def Let_def split: option.split)

lemma WriteResponse_stored:
  assumes "ms_jobs m (t, j) = Some job" and "aj_TaskID job = t" and "aj_AggregationJobID job = j"
  shows "WriteResponse m job (marshalledResp cb) = m\<lparr>ms_jobs := (ms_jobs m)((t, j) \<mapsto> markJob cb job)\<rparr>"
  using assms by (simp add: WriteResponse_def markJob_def)

lemma run_writeResp [simp]:
  "run (writeResp cb (memStore order) t j job status) m
    = Some (WriteResponse m job (marshalledResp cb), respMessage cb t j (aj_Response job) status)"
  by (simp add: writeResp_def memStore_simps)

lemma WriteResponse_marked:
  assumes "ms_jobs m (t, j) = Some (markJob cb job)" and "aj_TaskID job = t" and "aj_AggregationJobID job = j"
  shows "WriteResponse m (markJob cb job) (marshalledResp cb) = m"
proof -
  have "(ms_jobs m)((t, j) \<mapsto> markJob cb job) = ms_jobs m" using assms(1) by auto
  then show ?thesis using WriteResponse_stored [OF assms(1), of cb] assms(2,3) by simp
qed

text \<open>Answering with a stored job is settled, whether it was stored before or by this request.\<close>

lemma settles_replay:
  assumes "ms_jobs m (t, j) = Some job" and "aj_TaskID job = t" and "aj_AggregationJobID job = j"
    and "\<And>m x. ms_jobs m (t, j) = Some x \<Longrightarrow> aj_LastRequestHash x = aj_LastRequestHash job \<Longrightarrow>
      run p m = run (writeResp cb (memStore order) t j x 200) m"
  shows "settles p m"
proof -
  let ?m = "m\<lparr>ms_jobs := (ms_jobs m)((t, j) \<mapsto> markJob cb job)\<rparr>"
  have "run p m = Some (?m, respMessage cb t j (aj_Response job) 200)"
    using assms(4) [OF assms(1) refl] WriteResponse_stored [OF assms(1-3), of cb] by simp
  moreover have "run p ?m = Some (?m, respMessage cb t j (aj_Response job) 200)"
    using assms(4) [of ?m "markJob cb job"] WriteResponse_marked [of ?m t j cb job, OF _ assms(2,3)] by simp
  ultimately show ?thesis by (simp add: settles_def)
qed

lemma settles_put:
  assumes "aj_TaskID job = t" and "aj_AggregationJobID job = j" and "aj_LastRequestHash job = h"
  shows "settles (act (\<lambda>s. st_PutJob (memStore order) s job) (afterPut e (memStore order) t j h job)) m"
proof -
  let ?F = "marshalledResp (e_cb e)"
  obtain m1 r where put: "PutJob m job = (m1, r)" by (cases "PutJob m job")
  show ?thesis
  proof (cases r)
    case (Inl err)
    then obtain x where "ms_jobs m (t, j) = Some x" and "aj_LastRequestHash x \<noteq> h" and "m1 = m"
      using put assms by (auto simp: PutJob_def Let_def split: option.splits if_splits)
    with put Inl show ?thesis by (simp add: settles_def memStore_simps afterPut_def GetJob_def)
  next
    case (Inr u)
    have "PutJob (WriteResponse m1 job ?F) job = (WriteResponse m1 job ?F, Inr ())"
      using put Inr by (auto simp: PutJob_def WriteResponse_def Let_def split: option.splits if_splits)
    moreover have "ms_tasks m1 = ms_tasks m" using put by (auto simp: PutJob_def Let_def split: option.splits if_splits)
    ultimately show ?thesis
      using put Inr by (simp add: settles_def memStore_simps afterPut_def WriteResponse_again)
  qed
qed

definition under_key :: "mem_store \<Rightarrow> bool" where
  "under_key m \<longleftrightarrow> (\<forall>t x. ms_tasks m t = Some x \<longrightarrow> t_TaskID x = t)
     \<and> (\<forall>t j job. ms_jobs m (t, j) = Some job \<longrightarrow> aj_TaskID job = t \<and> aj_AggregationJobID job = j)"

lemma settles_initJob:
  assumes "under_key m" and "t_TaskID task = t"
  shows "settles (initJob e (memStore order) t task vk v j req h) m"
proof (cases "ms_jobs m (t, j)")
  case (Some x)
  then have key: "aj_TaskID x = t" "aj_AggregationJobID x = j" using assms(1) by (auto simp: under_key_def)
  show ?thesis
  proof (cases "aj_LastRequestHash x = h")
    case True
    show ?thesis
      by (rule settles_replay [OF Some key, where cb = "e_cb e" and order = order]) (use True in \<open>simp add: initJob_def memStore_simps GetJob_def\<close>)
  next
    case False
    with Some show ?thesis by (simp add: settles_def initJob_def memStore_simps GetJob_def)
  qed
next
  case None
  obtain m1 rep where cl: "claimReports (memStore order) m t j req = (m1, rep)" by (cases "claimReports (memStore order) m t j req")
  then have m1: "ms_jobs m1 = ms_jobs m" "ms_tasks m1 = ms_tasks m"
    using ClaimReportIDs_claims by (auto simp: claimReports_def memStore_simps split: prod.splits)
  show ?thesis
  proof (cases "buildInitJob e task vk v j req h rep")
    case None
    with cl \<open>ms_jobs m (t, j) = None\<close> show ?thesis by (simp add: settles_def initJob_def memStore_simps GetJob_def)
  next
    case (Some job)
    then have job: "aj_TaskID job = t" "aj_AggregationJobID job = j" "aj_LastRequestHash job = h"
      using assms(2) by (auto simp: buildInitJob_def makeJob_def)
    let ?m = "\<lambda>job. m1\<lparr>ms_jobs := (ms_jobs m)((t, j) \<mapsto> job)\<rparr>"
    have "WriteResponse (?m job) job (marshalledResp (e_cb e)) = ?m (markJob (e_cb e) job)"
      using WriteResponse_stored [of "?m job" t j job "e_cb e"] job by simp
    moreover have "WriteResponse (?m (markJob (e_cb e) job)) (markJob (e_cb e) job) (marshalledResp (e_cb e))
        = ?m (markJob (e_cb e) job)"
      using job by (intro WriteResponse_marked) simp_all
    ultimately show ?thesis
      using Some cl m1 job None
      by (simp add: settles_def initJob_def memStore_simps GetJob_def PutJob_def afterPut_def)
  qed
qed

lemma settles_handleGet:
  assumes "under_key m"
  shows "settles (handleGet e (memStore order) t j) m"
proof (cases "ms_jobs m (t, j)")
  case (Some x)
  then have key: "aj_TaskID x = t" "aj_AggregationJobID x = j" using assms by (auto simp: under_key_def)
  show ?thesis
    by (rule settles_replay [OF Some key, where cb = "e_cb e" and order = order]) (simp add: handleGet_def memStore_simps GetJob_def)
qed (simp add: settles_def handleGet_def memStore_simps GetJob_def)

lemma settles_task:
  assumes "\<And>x. GetTask m t = Some x \<Longrightarrow> settles (k (Some x)) m" and "GetTask m t = None \<Longrightarrow> settles (k None) m"
  shows "settles (ask (\<lambda>s. st_GetTask (memStore order) s t) k) m"
proof -
  have st: "st_GetTask (memStore order) s t = ms_tasks s t" for s by (simp add: memStore_def GetTask_def)
  have "settles (k (ms_tasks m t)) m" using assms by (cases "ms_tasks m t") (simp_all add: GetTask_def)
  then show ?thesis unfolding settles_def run_ask st by metis
qed

lemma settles_handleCreate:
  assumes "under_key m"
  shows "settles (handleCreate e (memStore order) r t) m"
proof -
  have rej: "settles (act (\<lambda>s. st_PutJob (memStore order) s (buildRejectAllJob task j req h err))
      (afterPut e (memStore order) t j h (buildRejectAllJob task j req h err))) m" if "t_TaskID task = t" for task j req h err
    by (rule settles_put) (simp_all add: buildRejectAllJob_def makeJob_def that)
  have tid: "GetTask m t = Some x \<Longrightarrow> t_TaskID x = t" for x using assms by (simp add: under_key_def GetTask_def)
  show ?thesis
    unfolding handleCreate_def
    by (rule settles_task) (use tid in \<open>auto simp: Let_def rej intro: settles_initJob [OF assms] split: option.split sum.split\<close>)
qed

lemma settles_handleJanusInit:
  assumes "under_key m"
  shows "settles (handleJanusInit e (memStore order) r t j) m"
proof -
  have tid: "GetTask m t = Some x \<Longrightarrow> t_TaskID x = t" for x using assms by (simp add: under_key_def GetTask_def)
  show ?thesis
    unfolding handleJanusInit_def
    by (rule settles_task) (use tid in \<open>auto intro: settles_initJob [OF assms] split: option.split sum.split\<close>)
qed

text \<open>Only a PUT on an aggregate share draws randomness.\<close>

definition sharePut :: "http_request \<Rightarrow> task_id option" where
  "sharePut r = (if rq_Method r = ''PUT'' then parseAggregateSharePath (rq_Path r) else None)"

lemma settles_ServeHTTP:
  assumes "under_key m" and "sharePut r = None"
  shows "settles (ServeHTTP e (memStore order) ent r) m" and "ServeHTTP e st ent r = ServeHTTP e st ent' r"
proof -
  have delete: "settles (act (\<lambda>s. (st_DeleteJob (memStore order) s t j, ())) (\<lambda>_. Return x)) m" for t j x
    by (simp add: settles_def memStore_simps DeleteJob_def)
  show "settles (ServeHTTP e (memStore order) ent r) m"
    using settles_handleCreate settles_handleJanusInit settles_handleGet delete assms
    by (auto simp: ServeHTTP_def sharePut_def split: option.split)
  show "ServeHTTP e st ent r = ServeHTTP e st ent' r"
    using assms(2) by (auto simp: ServeHTTP_def sharePut_def split: option.split)
qed

text \<open>Two answers to the same aggregate-share request: the seal alone can differ.\<close>

lemma sealAggregateShare_status: "re_Status (sealAggregateShare e ent t task req agg) \<in> {200, 500}"
  by (auto simp: sealAggregateShare_def writeProblem_def split: sum.split prod.split)

lemma share_again:
  assumes "run (handleAggregateShare e st ent r t) m = Some (m', resp)"
  shows "m' = m \<and> (\<exists>resp'. run (handleAggregateShare e st ent' r t) m = Some (m, resp')
    \<and> (resp' = resp \<or> re_Status resp \<in> {200, 500} \<and> re_Status resp' \<in> {200, 500}))"
proof -
  have status: "re_Status (sealAggregateShare e ent t task req agg) \<noteq> 500 \<Longrightarrow>
      re_Status (sealAggregateShare e ent t task req agg) = 200" for ent task req agg
    using sealAggregateShare_status [of e ent t task req agg] by simp
  show ?thesis
    using assms by (auto simp: handleAggregateShare_def status split: option.splits sum.splits)
qed

subsection \<open>Every request is answered\<close>

lemma Query_Count_returns:
  assumes "canonical x" and "length pf = 5" and "list_all canonical pf" and "canonical t"
  shows "\<exists>r. Query Count [x] pf [t] jr n = Some r \<and> (\<forall>v. r = Inr v \<longrightarrow> length v = 4)"
proof -
  have pf: "pf = [pf ! 0, pf ! 1, pf ! 2, pf ! 3, pf ! 4]" by (rule list_5 [OF assms(2)])
  then have can: "list_all canonical [x, pf ! 0, pf ! 1, pf ! 2, pf ! 3, pf ! 4]"
    using assms(1,3) by (metis list.pred_inject(2))
  show ?thesis
  proof (cases "gfe t ^ 2 = 1")
    case True
    from Query_Count_root [OF can True, of jr n] pf show ?thesis by auto
  next
    case False
    obtain vs where "Query Count [x] [pf ! 0, pf ! 1, pf ! 2, pf ! 3, pf ! 4] [t] jr n = Some (Inr vs)"
      and "map gfe vs = count_verifier (gfe x) (gfe (pf ! 0)) (gfe (pf ! 1)) (gfe (pf ! 2)) (gfe (pf ! 3)) (gfe (pf ! 4)) (gfe t)"
      by (rule Query_Count [OF can assms(4) False])
    moreover from this(2) have "length vs = 4" by (drule_tac f = length in arg_cong) (simp add: count_verifier_def)
    ultimately show ?thesis using pf by auto
  qed
qed

definition halts :: "'a option \<Rightarrow> bool" where
  "halts r \<longleftrightarrow> r \<noteq> None"

lemma halts_simps [simp]: "halts (Some x)" "\<not> halts None" "halts (map_option f r) \<longleftrightarrow> halts r"
  by (simp_all add: halts_def)

definition returns :: "expander \<Rightarrow> bool" where
  "returns xp \<longleftrightarrow> (\<forall>seed tag bnd len. halts (xp seed tag bnd len))"

lemma wrapErr_halts [simp]: "halts (wrapErr w r) \<longleftrightarrow> halts r"
  by (auto simp: wrapErr_def split: option.split sum.split)

lemma andThen_halts: "halts r \<Longrightarrow> (\<And>x. r = Some (Inr x) \<Longrightarrow> halts (f x)) \<Longrightarrow> halts (andThen r f)"
  by (cases r) (auto simp: andThen_def split: sum.split)

lemma orReject_halts: "halts rej \<Longrightarrow> (\<And>x. r = Inr x \<Longrightarrow> halts (k x)) \<Longrightarrow> halts (orReject r rej k)"
  by (cases r) simp_all

lemma orRejectRes_halts:
  "halts r \<Longrightarrow> halts rej \<Longrightarrow> (\<And>x. r = Some (Inr x) \<Longrightarrow> halts (k x)) \<Longrightarrow> halts (orRejectRes r rej k)"
  by (cases r) (simp_all add: orReject_halts)

text \<open>The helper's preparation and the check of the proof return.\<close>

lemma expandInputShare_helper:
  assumes "field_xof xp" and "is_AggID in' \<noteq> 0" and "expandInputShare xp c in' = Some (Inr (ms, pf))"
  shows "\<exists>x. ms = [x] \<and> canonical x" and "length pf = 5" and "list_all canonical pf"
proof -
  have "helperMeasShare xp c (is_AggID in') (is_Seed in') = Some (Inr ms)"
    and p: "helperProofsShare xp c (is_AggID in') (is_Seed in') = Some (Inr pf)"
    using assms(2,3) by (auto simp: expandInputShare_def andThen_Inr_iff)
  from field_xof.expansion_lengths(1) [OF assms(1) this(1)] show "\<exists>x. ms = [x] \<and> canonical x"
    by (auto simp: length_Suc_conv)
  from field_xof.expansion_lengths(2) [OF assms(1) p] show "length pf = 5" "list_all canonical pf" by simp_all
qed

lemma VerifyInit_returns:
  assumes xof: "field_xof xp" and ret: "returns xp" and i: "i \<noteq> 0"
  shows "halts (VerifyInit xp c vk i nonce ps in')
    \<and> (\<forall>outShare v. VerifyInit xp c vk i nonce ps in' = Some (Inr (outShare, v)) \<longrightarrow> length v = 4)"
proof (cases "unat i < unat (c_shares c) \<and> is_AggID in' = i")
  case False
  then show ?thesis by (auto simp: VerifyInit_def)
next
  case True
  have "halts (expandInputShare xp c in')" and q: "halts (queryRands xp c vk nonce)"
    using ret by (auto simp: expandInputShare_def helperMeasShare_def helperProofsShare_def queryRands_def returns_def
        intro!: andThen_halts)
  moreover have "\<exists>r. Query Count ms (take 5 pf) (take 1 qr) [] (unat (c_shares c)) = Some r
      \<and> (\<forall>v. r = Inr v \<longrightarrow> length v = 4) \<and> \<not> length pf < 5"
    if ex: "expandInputShare xp c in' = Some (Inr (ms, pf))" and qr: "queryRands xp c vk nonce = Some (Inr qr)" for ms pf qr
  proof -
    have "is_AggID in' \<noteq> 0" using True i by simp
    from expandInputShare_helper [OF xof this ex] obtain x where "ms = [x]" "canonical x" "length pf = 5" "list_all canonical pf" by blast
    moreover obtain t where "qr = [t]" "canonical t"
      using field_xof.expansion_lengths(4) [OF xof qr] by (auto simp: length_Suc_conv)
    ultimately show ?thesis using Query_Count_returns by simp
  qed
  ultimately show ?thesis using True
    by (fastforce simp: VerifyInit_def Let_def Count_sizes andThen_Inr_iff intro!: andThen_halts)
qed

lemma VerifierSharesToMessage_returns:
  assumes "length a = 4" and "length b = 4"
  shows "halts (VerifierSharesToMessage c [a, b])"
proof -
  have "\<exists>r. sumVectors (replicate 4 0) [a, b] = Inr r \<and> length r = 4"
    using assms by (simp add: VecAdd_def)
  then obtain v0 v1 v2 v3 where "sumVectors (replicate 4 0) [a, b] = Inr [v0, v1, v2, v3]"
    by (auto simp: length_Suc_conv eval_nat_numeral)
  then show ?thesis
    by (simp add: VerifierSharesToMessage_def Count_sizes proofs_def Decide_Count)
qed

lemma verifyReport_returns:
  assumes "field_xof (e_xp e)" and "returns (e_xp e)"
  shows "halts (verifyReport e task vk vi pt)"
proof -
  have vi: "halts (VerifyInit (e_xp e) c vk helperAggregatorID nonce ps in')"
    and len: "VerifyInit (e_xp e) c vk helperAggregatorID nonce ps in' = Some (Inr (outShare, v)) \<Longrightarrow> length v = 4"
    for c nonce ps in' outShare v
    using VerifyInit_returns [OF assms, of helperAggregatorID] by (auto simp: helperAggregatorID_def)
  have leader: "DecodeVerifierShare c b = Inr v \<Longrightarrow> length v = 4" for c b v using DecodeVerifierShare_Inr by blast
  have "halts (VerifyNext c state msg)" for c state msg by (simp add: VerifyNext_def)
  with vi show ?thesis
    unfolding verifyReport_def Let_def
    by (auto intro!: orReject_halts orRejectRes_halts VerifierSharesToMessage_returns)
      (erule leader | erule len)+
qed

lemma buildInitJob_returns:
  assumes "field_xof (e_xp e)" and "returns (e_xp e)"
  shows "halts (buildInitJob e task vk variant jobID req reqHash replayed)"
proof -
  have "halts (aggregateInit e task vk variant vi ord)" for vi ord
    by (simp add: aggregateInit_def Let_def verifyReport_returns [OF assms, unfolded halts_def] split: option.split sum.split)
  then have "aggregateInit e task vk variant vi ord \<noteq> None" for vi ord by (auto simp: halts_def)
  note this [simp]
  have "halts (initReports e task vk variant replayed i vis)" for i vis
    by (induction vis arbitrary: i) (simp_all add: Let_def split: option.split)
  then show ?thesis by (simp add: buildInitJob_def)
qed

lemma writeResp_returns [simp]: "halts (run (writeResp cb st t j job status) s)"
  by (simp add: writeResp_def)

lemma afterPut_returns: "halts (run (afterPut e st t j h job r) s)"
  by (simp add: afterPut_def split: sum.split option.split)

lemma initJob_returns:
  assumes "field_xof (e_xp e)" and "returns (e_xp e)"
  shows "halts (run (initJob e st t task vk v j req h) s)"
  by (simp add: initJob_def afterPut_returns buildInitJob_returns [OF assms, unfolded halts_def]
      split: option.split prod.split)

lemma ServeHTTP_returns:
  assumes "field_xof (e_xp e)" and "returns (e_xp e)"
  shows "halts (run (ServeHTTP e st ent r) s)"
proof -
  note init = initJob_returns [OF assms]
  have "halts (run (handleCreate e st r t) s)" for t
    by (simp add: init afterPut_returns handleCreate_def Let_def split: option.split sum.split prod.split)
  moreover have "halts (run (handleJanusInit e st r t j) s)" for t j
    by (simp add: init handleJanusInit_def split: option.split sum.split)
  moreover have "halts (run (handleAggregateShare e st ent r t) s)" for t
    by (simp add: handleAggregateShare_def split: option.split sum.split)
  moreover have "halts (run (handleGet e st t j) s)" for t j
    by (simp add: handleGet_def split: option.split)
  ultimately show ?thesis by (simp add: ServeHTTP_def split: option.split)
qed

end
