(* ===== verification/Jobs.thy ===== *)
theory Jobs
  imports Requests
begin

text \<open>
  The response to a new aggregation job: it is always encodable, lists one outcome per report in
  the request's order, and rejects as replayed exactly the reports another job has claimed.
\<close>

subsection \<open>The response to a new job\<close>

definition resp_wf :: "variant \<Rightarrow> verify_resp \<Rightarrow> bool" where
  "resp_wf v r \<longleftrightarrow> length (vr_ReportID r) = ReportIDSize
     \<and> (vr_Type r = VerifyRespContinue \<and> vr_Payload r \<noteq> [] \<and> length (vr_Payload r) \<le> 5 \<and> vr_Error r = 0
        \<or> vr_Type r = VerifyRespReject \<and> vr_Payload r = [] \<and> reportErrorToWire (vr_Error r) v \<noteq> None)"

lemma rejectable:
  "e \<in> reject_reasons \<Longrightarrow> reportErrorToWire e v \<noteq> None"
  by (auto simp: reject_reasons_def reportErrorToWire_def reportErrorTable_def reportError18_def reportError19_def)

context cryptobyte_laws
begin

lemma VerifyResp_encodes:
  assumes "resp_wf (vr_Variant r) r"
  shows "\<exists>w. encoding cb (VerifyResp_Marshal cb) r = Some w \<and> length w \<le> 26"
proof -
  have id: "length (vr_ReportID r) = 16" using assms by (simp add: resp_wf_def ReportIDSize_def)
  consider (continue) "vr_Type r = VerifyRespContinue" "length (vr_Payload r) \<le> 5"
    | (reject) code where "vr_Type r = VerifyRespReject" "reportErrorToWire (vr_Error r) (vr_Variant r) = Some code"
    using assms by (auto simp: resp_wf_def)
  then show ?thesis
    by cases (use id in \<open>auto simp: encoding_def VerifyResp_Marshal_def cat_Some_iff Let_def\<close>)
qed

lemma resp_vector_encodes:
  assumes "list_all (\<lambda>r. resp_wf (vr_Variant r) r) rs"
  shows "\<exists>w. encoding cb (marshal_all (VerifyResp_Marshal cb)) rs = Some w \<and> length w \<le> 26 * length rs"
  using assms
proof (induction rs)
  case Nil
  then show ?case by (simp add: vr.encoding_all_Nil)
next
  case (Cons r rs)
  then obtain a b where a: "encoding cb (VerifyResp_Marshal cb) r = Some a" "length a \<le> 26"
    and b: "encoding cb (marshal_all (VerifyResp_Marshal cb)) rs = Some b" "length b \<le> 26 * length rs"
    using VerifyResp_encodes [of r] by auto
  then show ?case by (simp add: vr.encoding_all_Cons)
qed

lemma AggregationJobResp_encodes:
  assumes "list_all (resp_wf v) rs" and "26 * length rs < 4294967296"
  shows "\<exists>w. marshal cb (AggregationJobResp_Marshal cb) \<lparr>arr_Variant = v, arr_VerifyResps = rs\<rparr> = Inr w
    \<and> unmarshalAll (AggregationJobResp_Unmarshal cb v) w = Inr (setVariants \<lparr>arr_Variant = v, arr_VerifyResps = rs\<rparr>)"
proof -
  let ?a = "\<lparr>arr_Variant = v, arr_VerifyResps = rs\<rparr>"
  let ?rs = "map (\<lambda>r. r\<lparr>vr_Variant := v\<rparr>) rs"
  have set: "setVariants ?a = \<lparr>arr_Variant = v, arr_VerifyResps = ?rs\<rparr>" by (simp add: setVariants_def)
  have "list_all (\<lambda>r. resp_wf (vr_Variant r) r) ?rs" using assms(1) by (simp add: list_all_iff resp_wf_def)
  from resp_vector_encodes [OF this] obtain u where
    u: "encoding cb (marshal_all (VerifyResp_Marshal cb)) ?rs = Some u" "length u < 4294967296"
    using assms(2) by auto
  then obtain f where f: "marshal_all (VerifyResp_Marshal cb) ?rs = Inr f" "out cb f = Some u"
    by (auto simp: encoding_def split: sum.splits)
  have wr: "writer cb f" by (rule vr.marshal_all_writer [OF f(1)])
  then obtain w where w: "marshal cb (AggregationJobResp_Marshal cb) (setVariants ?a) = Inr w"
    using f u(2)
    by (cases "v = VariantJanus")
      (auto simp: marshal_Inr_iff encoding_def AggregationJobResp_Marshal_def set setVariants_def comp_def)
  have same: "AggregationJobResp_Marshal cb (setVariants ?a) = AggregationJobResp_Marshal cb ?a"
    by (simp add: AggregationJobResp_Marshal_def split: sum.split)
  then have "marshal cb (AggregationJobResp_Marshal cb) ?a = Inr w" using w by (simp add: marshal_def)
  moreover have "arr_ok v (setVariants ?a)"
    using assms(1) by (auto simp: arr_ok_def vr_ok_def set list_all_iff resp_wf_def)
  ultimately show ?thesis using arr.roundtrip [OF _ w] by blast
qed

lemma marshal_all_length:
  "encoding cb (marshal_all (total (VerifyInit_Marshal cb))) vis = Some u \<Longrightarrow> length vis \<le> length u"
proof (induction vis arbitrary: u)
  case (Cons x vis)
  then obtain a b where "encoding cb (total (VerifyInit_Marshal cb)) x = Some a"
    and "encoding cb (marshal_all (total (VerifyInit_Marshal cb))) vis = Some b" and "u = a @ b"
    by (auto simp: vi.encoding_all_Cons cat_Some_iff)
  with Cons.IH vi.nonempty [of x a] show ?case by (cases a) fastforce+
qed simp

lemma request_bounds:
  assumes "unmarshalAll (AggregationJobInitReq_Unmarshal cb v) body = Inr req"
  shows "length (air_VerifyInits req) \<le> length body" and "list_all vi_ok (air_VerifyInits req)"
proof -
  note vec = vi.emit_map_encoding [OF refl]
  have w: "writer cb (PartialBatchSelector_Marshal cb p)" "writer cb (marshalAggJobExtVec cb e)"
    for p e by (rule pbs.mar_writer ajevec.mar_writer, simp add: total_def)+
  have ok: "air_ok v req" and "marshal cb (total (AggregationJobInitReq_Marshal cb)) req = Inr body"
    using air.canonical [OF assms] by auto
  then obtain u pre where "encoding cb (marshal_all (total (VerifyInit_Marshal cb))) (air_VerifyInits req) = Some u"
    and "body = pre @ u"
    by (auto simp: marshal_Inr_iff AggregationJobInitReq_Marshal_def cat_Some_iff vec w split: if_splits)
  then show "length (air_VerifyInits req) \<le> length body" using marshal_all_length by fastforce
  show "list_all vi_ok (air_VerifyInits req)" using ok by (simp add: air_ok_def)
qed

lemma finish_length:
  "marshal cb (PingPongMessage_Marshal cb) finishMessage = Inr w \<Longrightarrow> w \<noteq> [] \<and> length w \<le> 5"
  by (auto simp: marshal_Inr_iff encoding_def PingPongMessage_Marshal_def finishMessage_def cat_Some_iff)

end

text \<open>One report: the two outcomes as responses.\<close>

definition outcome :: "variant \<Rightarrow> report_id set \<Rightarrow> report_id \<Rightarrow> verify_resp \<times> report_aggregation \<Rightarrow> bool" where
  "outcome v replayed r x \<longleftrightarrow> resp_wf v (fst x) \<and> vr_ReportID (fst x) = r
     \<and> (vr_Type (fst x) = VerifyRespContinue \<longleftrightarrow> ra_State (snd x) = StateFinished)
     \<and> (vr_Type (fst x) \<noteq> VerifyRespContinue \<longrightarrow> vr_Type (fst x) = VerifyRespReject \<and> vr_Error (fst x) \<in> reject_reasons)
     \<and> (r \<in> replayed \<longrightarrow> vr_Type (fst x) = VerifyRespReject \<and> vr_Error (fst x) = ReportErrorReportReplayed)"

lemma rejected_outcome:
  assumes "length r = ReportIDSize" and "err \<in> reject_reasons" and "r \<in> replayed \<longrightarrow> err = ReportErrorReportReplayed"
  shows "outcome v replayed r (rejectResp v r err, rejectAgg v r ord err)"
  using assms rejectable [OF assms(2), of v]
  by (simp add: outcome_def resp_wf_def rejectResp_def rejectAgg_def)

lemma aggregateInit_outcome:
  assumes cb: "cryptobyte_laws (e_cb e)" and xof: "field_xof (e_xp e)" and vi: "vi_ok vi"
    and r: "r = md_ReportID (rs_ReportMetadata (vi_ReportShare vi))" "r \<notin> replayed"
    and x: "aggregateInit e task vk v vi ord = Some x"
  shows "outcome v replayed r x"
proof -
  obtain vr ra where x': "x = (vr, ra)" by (cases x)
  have id: "length r = ReportIDSize" using vi r by (simp add: vi_ok_def rs_ok_def md_ok_def)
  from x [unfolded x'] show ?thesis
  proof (cases rule: aggregateInit_cases)
    case (rejected err)
    with rejected_outcome [OF id, of err replayed] r show ?thesis by (simp add: x')
  next
    case (finished pt outShare ob)
    have "marshal (e_cb e) (PingPongMessage_Marshal (e_cb e)) finishMessage = Inr ob"
      using verifyReport_Inr [OF xof finished(1)] by simp
    from cryptobyte_laws.finish_length [OF cb this] finished id r show ?thesis
      by (simp add: x' outcome_def resp_wf_def)
  qed
qed

lemma initReports_outcomes:
  assumes cb: "cryptobyte_laws (e_cb e)" and xof: "field_xof (e_xp e)" and "list_all vi_ok vis"
    and "initReports e task vk v replayed i vis = Some rs"
  shows "list_all2 (outcome v replayed) (map (\<lambda>vi. md_ReportID (rs_ReportMetadata (vi_ReportShare vi))) vis) rs"
  using assms(3,4)
proof (induction vis arbitrary: i rs)
  case (Cons vi vis)
  let ?r = "md_ReportID (rs_ReportMetadata (vi_ReportShare vi))"
  obtain x rs' where rs: "rs = x # rs'" "initReports e task vk v replayed (i + 1) vis = Some rs'"
    and hd: "if ?r \<in> replayed then x = (rejectResp v ?r ReportErrorReportReplayed, rejectAgg v ?r (word_of_nat i) ReportErrorReportReplayed)
      else aggregateInit e task vk v vi (word_of_nat i) = Some x"
    using Cons.prems(2) by (auto simp: Let_def split: option.splits if_splits)
  have "length ?r = ReportIDSize" using Cons.prems(1) by (simp add: vi_ok_def rs_ok_def md_ok_def)
  then have "outcome v replayed ?r x"
    using hd Cons.prems(1) rejected_outcome [of ?r ReportErrorReportReplayed replayed]
      aggregateInit_outcome [OF cb xof, of vi ?r replayed]
    by (auto simp: reject_reasons_def split: if_splits)
  with Cons.IH [OF _ rs(2)] Cons.prems(1) rs(1) show ?case by simp
qed simp

lemma job_outcomes:
  assumes cb: "cryptobyte_laws (e_cb e)" and xof: "field_xof (e_xp e)"
    and dec: "unmarshalAll (AggregationJobInitReq_Unmarshal (e_cb e) v) body = Inr req" and len: "length body \<le> maxBodyBytes"
    and job: "buildInitJob e task vk v j req h replayed = Some job"
  obtains bs where "marshal (e_cb e) (AggregationJobResp_Marshal (e_cb e)) (aj_Response job) = Inr bs"
    and "unmarshalAll (AggregationJobResp_Unmarshal (e_cb e) v) bs = Inr (setVariants (aj_Response job))"
    and "list_all2 (outcome v replayed) (reportIDs req) (zip (arr_VerifyResps (aj_Response job)) (aj_ReportAggs job))"
    and "length (arr_VerifyResps (aj_Response job)) = length (aj_ReportAggs job)"
proof -
  note req = cryptobyte_laws.request_bounds [OF cb dec]
  obtain rs where rs: "initReports e task vk v replayed 0 (air_VerifyInits req) = Some rs"
    and job: "job = makeJob task v j req h rs"
    using job by (auto simp: buildInitJob_def)
  have out: "list_all2 (outcome v replayed) (reportIDs req) rs"
    using initReports_outcomes [OF cb xof req(2) rs] by (simp add: reportIDs_def)
  have n: "26 * length rs < 4294967296"
    using list_all2_lengthD [OF out] req(1) len by (simp add: reportIDs_def maxBodyBytes_def)
  have "list_all (resp_wf v) (map fst rs)"
    using out by (auto simp: list_all_length list_all2_conv_all_nth outcome_def)
  from cryptobyte_laws.AggregationJobResp_encodes [OF cb this] n obtain bs where
    "marshal (e_cb e) (AggregationJobResp_Marshal (e_cb e)) (aj_Response job) = Inr bs"
    "unmarshalAll (AggregationJobResp_Unmarshal (e_cb e) v) bs = Inr (setVariants (aj_Response job))"
    by (auto simp: job makeJob_def)
  then show thesis using out by (intro that) (simp_all add: job makeJob_def zip_map_fst_snd)
qed

text \<open>What the decoded response says of each report.\<close>

definition answered :: "report_id set \<Rightarrow> aggjob_resp \<Rightarrow> aggregation_job \<Rightarrow> report_id \<Rightarrow> nat \<Rightarrow> bool" where
  "answered replayed a job r i \<longleftrightarrow> (let vr = arr_VerifyResps a ! i in
     (vr_Type vr = VerifyRespContinue \<longleftrightarrow> ra_State (aj_ReportAggs job ! i) = StateFinished)
     \<and> (vr_Type vr \<noteq> VerifyRespContinue \<longrightarrow> vr_Type vr = VerifyRespReject \<and> vr_Error vr \<in> reject_reasons)
     \<and> (r \<in> replayed \<longrightarrow> vr_Type vr = VerifyRespReject \<and> vr_Error vr = ReportErrorReportReplayed))"

lemma answered_cong: "answered R a job r i \<Longrightarrow> r \<in> R \<longleftrightarrow> r \<in> R' \<Longrightarrow> answered R' a job r i"
  unfolding answered_def Let_def by blast

lemma job_answers:
  assumes "list_all2 (outcome v replayed) rids (zip (arr_VerifyResps resp) (aj_ReportAggs job))"
    and "length (arr_VerifyResps resp) = length (aj_ReportAggs job)"
  shows "map vr_ReportID (arr_VerifyResps (setVariants resp)) = rids"
    and "\<forall>i<length rids. answered replayed (setVariants resp) job (rids ! i) i"
proof -
  let ?rs = "arr_VerifyResps resp"
  have n: "length ?rs = length rids" using list_all2_lengthD [OF assms(1)] assms(2) by simp
  have each: "outcome v replayed (rids ! i) (?rs ! i, aj_ReportAggs job ! i)" if "i < length rids" for i
    using list_all2_nthD [OF assms(1) that] n assms(2) that by simp
  have nth: "arr_VerifyResps (setVariants resp) ! i = (?rs ! i)\<lparr>vr_Variant := arr_Variant resp\<rparr>" if "i < length rids" for i
    using that n by (simp add: setVariants_def)
  show "map vr_ReportID (arr_VerifyResps (setVariants resp)) = rids"
    using each nth n by (intro nth_equalityI) (auto simp: setVariants_def outcome_def)
  show "\<forall>i<length rids. answered replayed (setVariants resp) job (rids ! i) i"
  proof (intro allI impI)
    fix i assume i: "i < length rids"
    have "vr_Type (arr_VerifyResps (setVariants resp) ! i) = vr_Type (?rs ! i)"
      "vr_Error (arr_VerifyResps (setVariants resp) ! i) = vr_Error (?rs ! i)" by (simp_all add: nth [OF i])
    with each [OF i] show "answered replayed (setVariants resp) job (rids ! i) i"
      unfolding answered_def outcome_def Let_def fst_conv snd_conv by presburger
  qed
qed

lemma readBody_length: "readBody r = Some body \<Longrightarrow> length body \<le> maxBodyBytes"
  by (auto simp: readBody_def)

lemma initJob_fresh:
  assumes cb: "cryptobyte_laws (e_cb e)" and xof: "field_xof (e_xp e)" and ret: "returns (e_xp e)"
    and t: "t_TaskID task = t" and fresh: "ms_jobs m (t, j) = None"
    and dec: "unmarshalAll (AggregationJobInitReq_Unmarshal (e_cb e) v) body = Inr req" and len: "length body \<le> maxBodyBytes"
  obtains m' bs job where "run (initJob e (memStore order) t task vk v j req h) m
      = Some (m', \<lparr>re_Status = 200, re_Headers = [(''Location'', resourcePath t j), (''Content-Type'', mediaResp)], re_Body = Message bs\<rparr>)"
    and "ms_jobs m' = (ms_jobs m)((t, j) \<mapsto> markJob (e_cb e) job)" and "ms_tasks m' = ms_tasks m"
    and "ms_claims m' = claimed (ms_claims m) t j (reportIDs req)"
    and "buildInitJob e task vk v j req h {r \<in> set (reportIDs req). \<exists>i. ms_claims m (t, r) = Some i \<and> i \<noteq> j} = Some job"
    and "unmarshalAll (AggregationJobResp_Unmarshal (e_cb e) v) bs = Inr (setVariants (aj_Response job))"
proof -
  obtain m1 rl where cl: "ClaimReportIDs m t j (reportIDs req) = (m1, rl)" by (cases "ClaimReportIDs m t j (reportIDs req)")
  note m1 = ClaimReportIDs_claims [OF cl]
  let ?replayed = "{r \<in> set (reportIDs req). \<exists>i. ms_claims m (t, r) = Some i \<and> i \<noteq> j}"
  have rl: "claimReports (memStore order) m t j req = (m1, ?replayed)"
    using ClaimReportIDs_replayed [OF cl] by (simp add: claimReports_def memStore_simps cl)
  obtain job where job: "buildInitJob e task vk v j req h ?replayed = Some job"
    using buildInitJob_returns [OF xof ret, of task vk v j req h ?replayed] by (auto simp: halts_def)
  obtain bs where bs: "marshal (e_cb e) (AggregationJobResp_Marshal (e_cb e)) (aj_Response job) = Inr bs"
    "unmarshalAll (AggregationJobResp_Unmarshal (e_cb e) v) bs = Inr (setVariants (aj_Response job))"
    by (rule job_outcomes [OF cb xof dec len job])
  have key: "aj_TaskID job = t" "aj_AggregationJobID job = j" using job t by (auto simp: buildInitJob_def makeJob_def)
  let ?m1 = "m1\<lparr>ms_jobs := (ms_jobs m1)((t, j) \<mapsto> job)\<rparr>"
  let ?m' = "m1\<lparr>ms_jobs := (ms_jobs m1)((t, j) \<mapsto> markJob (e_cb e) job)\<rparr>"
  have "WriteResponse ?m1 job (marshalledResp (e_cb e)) = ?m'"
    using WriteResponse_stored [of ?m1 t j job "e_cb e"] key by simp
  then have "run (initJob e (memStore order) t task vk v j req h) m
      = Some (?m', \<lparr>re_Status = 200, re_Headers = [(''Location'', resourcePath t j), (''Content-Type'', mediaResp)], re_Body = Message bs\<rparr>)"
    using fresh m1 rl job bs(1) key
    by (simp add: initJob_def memStore_simps GetJob_def PutJob_def afterPut_def respMessage_def)
  then show thesis using m1 job bs(2) by (intro that [of ?m' bs job]) simp_all
qed

end
