(* ===== verification/EndToEnd.thy ===== *)
theory EndToEnd
  imports Jobs
begin

text \<open>
  The whole protocol: a batch of honest reports, created by the client, initialized by the helper
  in one aggregation job and collected through its aggregate share, yields the exact count.
\<close>

subsection \<open>A job of honest reports\<close>

lemma initReports_finished:
  assumes "\<And>k ord. k \<in> set ks \<Longrightarrow> aggregateInit e task vk v (f k) ord = Some (finishedAgg (id' k) ord (x k) (ob k))"
    and "\<And>k. k \<in> set ks \<Longrightarrow> md_ReportID (rs_ReportMetadata (vi_ReportShare (f k))) \<notin> replayed"
  shows "\<exists>rs. initReports e task vk v replayed i (map f ks) = Some rs
    \<and> list_all (\<lambda>y. ra_State (snd y) = StateFinished) rs \<and> map (\<lambda>y. contribution (snd y)) rs = map (\<lambda>k. gfe (x k)) ks"
  using assms
proof (induction ks arbitrary: i)
  case (Cons k ks)
  from Cons.IH [of "i + 1"] Cons.prems obtain rs where
    rs: "initReports e task vk v replayed (i + 1) (map f ks) = Some rs"
    "list_all (\<lambda>y. ra_State (snd y) = StateFinished) rs" "map (\<lambda>y. contribution (snd y)) rs = map (\<lambda>k. gfe (x k)) ks" by auto
  let ?y = "finishedAgg (id' k) (word_of_nat i) (x k) (ob k)"
  have "ra_State (snd ?y) = StateFinished" "contribution (snd ?y) = gfe (x k)"
    by (simp_all add: finishedAgg_def contribution_def Let_def)
  with rs Cons.prems show ?case by (simp add: Let_def)
qed simp

lemma JobsForTask_single:
  assumes "ranges order" and "mem_wf m" and "\<And>k. ms_jobs m k \<noteq> None \<and> fst k = t \<longleftrightarrow> k = (t, j)" and "ms_jobs m (t, j) = Some job"
  shows "JobsForTask order m t = [job]"
proof -
  have "{k \<in> dom (ms_jobs m). fst k = t} = {(t, j)}" using assms(3) by (auto simp: dom_def)
  then have "mset (JobsForTask order m t) = {#job#}"
    using JobsForTask_mset [OF assms(1,2), of t] assms(4) by simp
  then show ?thesis by simp
qed

lemma counted_finished:
  assumes "list_all (\<lambda>ra. ra_State ra = StateFinished) (aj_ReportAggs job)"
  shows "counted [job] = aj_ReportAggs job"
  using assms by (simp add: counted_def list_all_iff)

lemma collected_count:
  assumes lout: "\<And>r. r < R \<Longrightarrow> length (lout r) = 1"
    and sums: "\<And>r. r < R \<Longrightarrow> gfe (lout r ! 0) + gfe (x r) = of_int (m r)" and m: "\<And>r. r < R \<Longrightarrow> m r = 0 \<or> m r = 1"
    and R: "int R < 9223372036854775808" and agg: "gfe a = (\<Sum>r<R. gfe (x r))"
  obtains la where "aggregateAll c (AggregateInit c) (map lout [0..<R]) = Inr la"
    and "Unshard c [la, [a]] R = Some (Inr (\<Sum>r<R. m r))"
proof -
  have "\<forall>v\<in>set (map lout [0..<R]). length v = 1" using lout by simp
  then obtain l where l: "sumVectors [0] (map lout [0..<R]) = Inr [l]"
    "gfe l = (\<Sum>r<length (map lout [0..<R]). gfe (map lout [0..<R] ! r ! 0))"
    by (rule sumVectors_1)
  then have "gfe l + gfe a = (\<Sum>r<R. gfe (lout r ! 0) + gfe (x r))" using agg by (simp add: sum.distrib)
  also have "\<dots> = (\<Sum>r<R. of_int (m r))" using sums by simp
  finally have "gfe l + gfe a = of_int (\<Sum>r<R. m r)" by simp
  moreover have "0 \<le> (\<Sum>r<R. m r)" "(\<Sum>r<R. m r) \<le> int R" using bit_sum_bounds [of R m] m by blast+
  ultimately have "Unshard c [[l], [a]] R = Some (Inr (\<Sum>r<R. m r))"
    using R by (intro Unshard_count) (simp_all add: numeral_2_eq_2 lessThan_Suc add.commute)
  moreover have "aggregateAll c (AggregateInit c) (map lout [0..<R]) = Inr [l]"
    using l by (simp add: aggregateAll_sumVectors AggregateInit_def Count_sizes)
  ultimately show thesis by (rule that [rotated])
qed


lemma Report_measurement: "Report e t rnd m now = Some (Inr rep) \<Longrightarrow> m = 0 \<or> m = 1"
  by (auto simp: Report_def split: if_splits)

text \<open>A batch of honest reports, each with its leader's message.\<close>

definition honestBatch ::
  "('b, 'o) env \<Rightarrow> matrix_task \<Rightarrow> bytes \<Rightarrow> prio3_count \<Rightarrow> verify_key \<Rightarrow> nat \<Rightarrow> (nat \<Rightarrow> int) \<Rightarrow> (nat \<Rightarrow> report)
     \<Rightarrow> (nat \<Rightarrow> elt list) \<Rightarrow> (nat \<Rightarrow> bytes) \<Rightarrow> bool" where
  "honestBatch e t sk c vk R meas rep lout payload \<longleftrightarrow>
     (\<forall>r<R. (\<exists>rnd now. Report e t rnd (meas r) now = Some (Inr (rep r)))
        \<and> goodQuery (e_xp e) c vk (md_ReportID (rp_Metadata (rep r)))
        \<and> leaderStep e t sk c vk (rep r) (lout r) (payload r))"

lemma honestBatch_shares:
  assumes laws: "cryptobyte_laws (e_cb e)" "circl_laws (e_cl e)" "field_xof (e_xp e)"
    and enr: "enrolled t task" and keys: "keyPair (e_cl e) (t_HPKESuite task) (t_HPKEPublicKey task) (t_HPKEPrivateKey task)"
    and lkeys: "keyPair (e_cl e) (ag_Suite (mt_Leader t)) (ag_PublicKey (mt_Leader t)) sk"
    and c: "NewCount 2 (VDAFContext t) = Inr c" and batch: "honestBatch e t sk c vk R meas rep lout payload"
  obtains x ob where
    "\<And>r ord. r < R \<Longrightarrow> aggregateInit e task vk (mt_Variant t) (verifyInitOf (rep r) (payload r)) ord
        = Some (finishedAgg (md_ReportID (rp_Metadata (rep r))) ord (x r) (ob r))"
    and "\<And>r. r < R \<Longrightarrow> length (lout r) = 1 \<and> gfe (lout r ! 0) + gfe (x r) = of_int (meas r)"
    and "\<And>r. r < R \<Longrightarrow> meas r = 0 \<or> meas r = 1"
proof -
  have "\<exists>x ob. (\<forall>ord. aggregateInit e task vk (mt_Variant t) (verifyInitOf (rep r) (payload r)) ord
        = Some (finishedAgg (md_ReportID (rp_Metadata (rep r))) ord x ob))
      \<and> length (lout r) = 1 \<and> gfe (lout r ! 0) + gfe x = of_int (meas r)" if r: "r < R" for r
  proof -
    obtain rnd now where rep: "Report e t rnd (meas r) now = Some (Inr (rep r))"
      and q: "goodQuery (e_xp e) c vk (md_ReportID (rp_Metadata (rep r)))"
      and l: "leaderStep e t sk c vk (rep r) (lout r) (payload r)"
      using batch r unfolding honestBatch_def by blast
    show ?thesis
      by (rule honest_report [OF laws enr keys lkeys rep c q]) (use leaderStep_unique [OF l] in blast)
  qed
  then obtain x ob where "\<And>r. r < R \<Longrightarrow> (\<forall>ord. aggregateInit e task vk (mt_Variant t) (verifyInitOf (rep r) (payload r)) ord
        = Some (finishedAgg (md_ReportID (rp_Metadata (rep r))) ord (x r) (ob r)))
      \<and> length (lout r) = 1 \<and> gfe (lout r ! 0) + gfe (x r) = of_int (meas r)" by metis
  moreover have "meas r = 0 \<or> meas r = 1" if "r < R" for r
    using batch that Report_measurement by (fastforce simp: honestBatch_def)
  ultimately show thesis by (intro that [of x ob]) blast+
qed


subsection \<open>Creating the job\<close>

lemma ServeHTTP_create:
  assumes "rq_Method p = ''POST''" and "parseAggregationPath (rq_Path p) = Some (t, None)"
  shows "ServeHTTP e st ent p = handleCreate e st p t"
  using assms parse_exclusive by (auto simp: ServeHTTP_def split: option.split)

lemma ServeHTTP_share:
  assumes "rq_Method p = ''PUT''" and "parseAggregateSharePath (rq_Path p) = Some t"
  shows "ServeHTTP e st ent p = handleAggregateShare e st ent p t"
  using assms by (simp add: ServeHTTP_def)

text \<open>What the request must be for the helper to take the batch in one job.\<close>

definition batchRequest ::
  "('b, 'o) env \<Rightarrow> task \<Rightarrow> verify_key \<Rightarrow> verify_init list \<Rightarrow> http_request \<Rightarrow> bytes \<Rightarrow> aggjob_init_req \<Rightarrow> bool" where
  "batchRequest e task vk vis p body req \<longleftrightarrow>
     rq_Method p = ''POST'' \<and> parseAggregationPath (rq_Path p) = Some (t_TaskID task, None) \<and> readBody p = Some body
   \<and> unmarshalAll (AggregationJobInitReq_Unmarshal (e_cb e) (t_Variant task)) body = Inr req
   \<and> air_VerifyInits req = vis \<and> air_AggParam req = [] \<and> t_VerifyKeys task (air_VerificationKeyID req) = Some vk
   \<and> validateExtensions task (air_Extensions req) = None"

lemma batch_job:
  assumes laws: "cryptobyte_laws (e_cb e)" "field_xof (e_xp e)" "returns (e_xp e)"
    and task: "ms_tasks m (t_TaskID task) = Some task" and req: "batchRequest e task vk (map f [0..<R]) p body req"
    and ids: "distinct (reportIDs req)"
    and fresh: "\<And>k. fst k = t_TaskID task \<Longrightarrow> ms_jobs m k = None" "\<And>r. r \<in> set (reportIDs req) \<Longrightarrow> ms_claims m (t_TaskID task, r) = None"
    and each: "\<And>r ord. r < R \<Longrightarrow> aggregateInit e task vk (t_Variant task) (f r) ord = Some (finishedAgg (id' r) ord (x r) (ob r))"
  obtains m' resp j job where "run (ServeHTTP e (memStore order) ent p) m = Some (m', resp)" and "re_Status resp = 200"
    and "ms_jobs m' = (ms_jobs m)((t_TaskID task, j) \<mapsto> job)" and "list_all (\<lambda>ra. ra_State ra = StateFinished) (aj_ReportAggs job)"
    and "map contribution (aj_ReportAggs job) = map (\<lambda>r. gfe (x r)) [0..<R]" and "ms_tasks m' = ms_tasks m"
proof -
  let ?t = "t_TaskID task" and ?j = "take JobIDSize (hashBody body)"
  have p: "rq_Method p = ''POST''" "parseAggregationPath (rq_Path p) = Some (?t, None)" "readBody p = Some body"
    and dec: "unmarshalAll (AggregationJobInitReq_Unmarshal (e_cb e) (t_Variant task)) body = Inr req"
    and vis: "air_VerifyInits req = map f [0..<R]"
    and checks: "air_AggParam req = []" "t_VerifyKeys task (air_VerificationKeyID req) = Some vk"
      "validateExtensions task (air_Extensions req) = None"
    using req by (simp_all add: batchRequest_def)
  have run: "run (ServeHTTP e (memStore order) ent p) m = run (initJob e (memStore order) ?t task vk (t_Variant task) ?j req (hashBody body)) m"
    unfolding ServeHTTP_create [OF p(1,2)] using p(3) dec checks ids task
    by (simp add: handleCreate_def memStore_def GetTask_def Let_def hasDuplicateReportIDs_iff)
  have none: "{r \<in> set (reportIDs req). \<exists>i. ms_claims m (?t, r) = Some i \<and> i \<noteq> ?j} = {}" using fresh(2) by auto
  obtain m' bs job where r: "run (initJob e (memStore order) ?t task vk (t_Variant task) ?j req (hashBody body)) m
      = Some (m', \<lparr>re_Status = 200, re_Headers = [(''Location'', resourcePath ?t ?j), (''Content-Type'', mediaResp)], re_Body = Message bs\<rparr>)"
    and m': "ms_jobs m' = (ms_jobs m)((?t, ?j) \<mapsto> markJob (e_cb e) job)" "ms_tasks m' = ms_tasks m"
    and job: "buildInitJob e task vk (t_Variant task) ?j req (hashBody body) {} = Some job"
  proof -
    have "ms_jobs m (?t, ?j) = None" using fresh(1) by simp
    then show thesis
      by (rule initJob_fresh [OF laws refl _ dec readBody_length [OF p(3)], where vk = vk and order = order and h = "hashBody body"])
        (use none in \<open>auto intro: that\<close>)
  qed
  obtain rs where rs: "initReports e task vk (t_Variant task) {} 0 (map f [0..<R]) = Some rs"
    "list_all (\<lambda>y. ra_State (snd y) = StateFinished) rs" "map (\<lambda>y. contribution (snd y)) rs = map (\<lambda>r. gfe (x r)) [0..<R]"
    using initReports_finished [of "[0..<R]" e task vk "t_Variant task" f id' x ob "{}" 0] each by auto
  then have ras: "aj_ReportAggs job = map snd rs" using job vis by (auto simp: buildInitJob_def makeJob_def)
  have "list_all (\<lambda>ra. ra_State ra = StateFinished) (aj_ReportAggs job)"
    and "map contribution (aj_ReportAggs job) = map (\<lambda>r. gfe (x r)) [0..<R]"
    using rs(2,3) unfolding ras by (simp_all add: list_all_iff comp_def del: map_eq_conv)
  with r run m' show thesis
    by (intro that [of m' "\<lparr>re_Status = 200, re_Headers = [(''Location'', resourcePath ?t ?j), (''Content-Type'', mediaResp)],
        re_Body = Message bs\<rparr>" ?j "markJob (e_cb e) job"]) simp_all
qed

subsection \<open>A batch of honest reports\<close>

text \<open>Once the batch is posted, the sum over the task's jobs completes the leader's to the sum of the
  measurements.\<close>

lemma honest_batch_stored:
  assumes laws: "cryptobyte_laws (e_cb e)" "circl_laws (e_cl e)" "field_xof (e_xp e)" "returns (e_xp e)"
    and store: "ranges order" "reachable e (memStore order) (NewMemStore tasks) (m, ts)"
    and task: "GetTask m (t_TaskID task) = Some task" "enrolled t task"
    and keys: "keyPair (e_cl e) (t_HPKESuite task) (t_HPKEPublicKey task) (t_HPKEPrivateKey task)"
      "keyPair (e_cl e) (ag_Suite (mt_Leader t)) (ag_PublicKey (mt_Leader t)) sk"
    and c: "NewCount 2 (VDAFContext t) = Inr c" and batch: "honestBatch e t sk c vk R meas rep lout payload"
    and req: "batchRequest e task vk (map (\<lambda>r. verifyInitOf (rep r) (payload r)) [0..<R]) p body req"
    and ids: "distinct (map (\<lambda>r. md_ReportID (rp_Metadata (rep r))) [0..<R])"
    and fresh: "\<forall>j. GetJob m (t_TaskID task) j = None"
      "\<forall>r<R. ms_claims m (t_TaskID task, md_ReportID (rp_Metadata (rep r))) = None"
  obtains m' resp la where "run (ServeHTTP e (memStore order) ent p) m = Some (m', resp)" and "re_Status resp = 200"
    and "mem_inv m'" and "GetTask m' (t_TaskID task) = Some task"
    and "aggregateAll c (AggregateInit c) (map lout [0..<R]) = Inr la"
    and "Unshard c [la, [aggregateOf (counted (JobsForTask order m' (t_TaskID task)))]] R = Some (Inr (\<Sum>r<R. meas r))"
proof -
  let ?f = "\<lambda>r. verifyInitOf (rep r) (payload r)" and ?t = "t_TaskID task"
  obtain x ob where each: "\<And>r ord. r < R \<Longrightarrow> aggregateInit e task vk (mt_Variant t) (?f r) ord
      = Some (finishedAgg (md_ReportID (rp_Metadata (rep r))) ord (x r) (ob r))"
    and lx: "\<And>r. r < R \<Longrightarrow> length (lout r) = 1 \<and> gfe (lout r ! 0) + gfe (x r) = of_int (meas r)"
    and bits: "\<And>r. r < R \<Longrightarrow> meas r = 0 \<or> meas r = 1"
    by (rule honestBatch_shares [OF laws(1-3) task(2) keys c batch]) blast
  have rids: "reportIDs req = map (\<lambda>r. md_ReportID (rp_Metadata (rep r))) [0..<R]"
    using req by (simp add: batchRequest_def reportIDs_def verifyInitOf_def)
  have var: "t_Variant task = mt_Variant t" using task(2) by (simp add: enrolled_def)
  have tk: "ms_tasks m ?t = Some task" using task(1) by (simp add: GetTask_def)
  have nojob: "ms_jobs m k = None" if "fst k = ?t" for k using fresh(1) that by (cases k) (simp add: GetJob_def)
  obtain m' resp j job where run: "run (ServeHTTP e (memStore order) ent p) m = Some (m', resp)" "re_Status resp = 200"
    and m': "ms_jobs m' = (ms_jobs m)((?t, j) \<mapsto> job)" "ms_tasks m' = ms_tasks m"
    and rs: "list_all (\<lambda>ra. ra_State ra = StateFinished) (aj_ReportAggs job)"
      "map contribution (aj_ReportAggs job) = map (\<lambda>r. gfe (x r)) [0..<R]"
    by (rule batch_job [OF laws(1,3,4) tk req _ nojob, where order = order and ent = ent])
      (use ids fresh(2) each var in \<open>auto simp: rids\<close>)
  have "reachable e (memStore order) (NewMemStore tasks) (m, ts @ [ServeHTTP e (memStore order) ent p])"
    using store(2) by (rule reachable.step) (rule sys_step.request)
  note inv = reachable_inv [OF laws(3) store(1) run_steps [OF run(1) this]]
  have wf: "mem_wf m'" using inv by (simp add: store_contract.inv_def [OF memStore_contract [OF store(1)]])
  have jobs: "JobsForTask order m' ?t = [job]"
    using nojob by (intro JobsForTask_single [OF store(1) wf]) (auto simp: m'(1) split: if_splits)
  have agg: "gfe (aggregateOf (counted (JobsForTask order m' ?t))) = (\<Sum>r<R. gfe (x r))"
    using aggregateOf_value counted_finished [OF rs(1)] jobs rs(2)
    by (simp add: interv_sum_list_conv_sum_set_nat atLeast0LessThan)
  have "R \<le> maxBodyBytes"
    using cryptobyte_laws.request_bounds(1) [OF laws(1), of "t_Variant task" body req] readBody_length [of p body] req
    by (simp add: batchRequest_def)
  then have R: "int R < 9223372036854775808" by (simp add: maxBodyBytes_def)
  show thesis
  proof (rule collected_count [of R lout x meas "aggregateOf (counted (JobsForTask order m' ?t))" c])
    fix la assume "aggregateAll c (AggregateInit c) (map lout [0..<R]) = Inr la"
      and "Unshard c [la, [aggregateOf (counted (JobsForTask order m' ?t))]] R = Some (Inr (\<Sum>r<R. meas r))"
    with run inv m'(2) tk show thesis by (intro that) (simp_all add: GetTask_def)
  qed (use lx bits R agg in auto)
qed

end
