(* ===== verification/Samples.thy ===== *)
theory Samples
  imports EndToEnd
begin

text \<open>
  A small deployment for the witnesses: the reference cryptobyte and HPKE libraries, a constant
  XOF, one task, one client and its report, and the requests of a leader and a collector.
\<close>

definition sampleEnv :: "(bytes option, bytes) env" where
  "sampleEnv = \<lparr>e_cb = ref_cb, e_cl = ref_circl, e_xp = constXof\<rparr>"

definition sampleSuite :: suite where
  "sampleSuite = \<lparr>s_KEM = 32, s_KDF = 1, s_AEAD = 1\<rparr>"

definition sampleMatrix :: matrix_task where
  "sampleMatrix = \<lparr>mt_Variant = VariantDraft18, mt_TaskID = replicate 32 1, mt_Config = sample_tc VariantDraft18,
     mt_Leader = \<lparr>ag_Suite = sampleSuite, ag_ConfigID = 1, ag_PublicKey = [5]\<rparr>,
     mt_Helper = \<lparr>ag_Suite = sampleSuite, ag_ConfigID = 2, ag_PublicKey = [6]\<rparr>\<rparr>"

definition sampleTask :: task where
  "sampleTask = \<lparr>t_TaskID = replicate 32 1, t_Variant = VariantDraft18, t_TaskConfig = sample_tc VariantDraft18,
     t_VDAFContext = DAPVDAFContextFor VariantDraft18 (replicate 32 1), t_VerifyKeys = [0 \<mapsto> replicate 32 4],
     t_HPKESuite = sampleSuite, t_HPKEConfigID = 2, t_HPKEPublicKey = [6], t_HPKEPrivateKey = [6],
     t_CollectorHPKESuite = sampleSuite, t_CollectorHPKEConfigID = 3, t_CollectorHPKEPublicKey = [7]\<rparr>"

definition sampleReader :: random_reader where
  "sampleReader = \<lparr>rd_ReportID = Inr (replicate 16 0), rd_ShardRand = Inr (replicate 64 7),
     rd_Leader = (\<lambda>_. 8), rd_Helper = (\<lambda>_. 9)\<rparr>"

definition sampleCount :: prio3_count where
  "sampleCount = \<lparr>c_shares = 2, c_ctx = VDAFContext sampleMatrix\<rparr>"

lemma sampleEnv_laws:
  "cryptobyte_laws (e_cb sampleEnv)" "circl_laws (e_cl sampleEnv)" "field_xof (e_xp sampleEnv)" "returns (e_xp sampleEnv)"
  using ref.cryptobyte_laws_axioms clref.circl_laws_axioms constXof by (simp_all add: sampleEnv_def returns_def constXof_def)

lemma sample_keys:
  "keyPair (e_cl sampleEnv) sampleSuite [k] [k]"
  by (auto simp: keyPair_def sampleEnv_def GenerateKeyPair_def Suite_IsValid_def ref_circl_def sampleSuite_def)

lemma sample_enrolled: "enrolled sampleMatrix sampleTask"
  by (simp add: enrolled_def sampleMatrix_def sampleTask_def)

lemma sampleCount: "NewCount 2 (VDAFContext sampleMatrix) = Inr sampleCount"
  by (simp add: NewCount_def sampleCount_def)

lemma sample_query: "goodQuery (e_xp sampleEnv) c vk nonce"
  by (simp add: goodQuery_def sampleEnv_def queryRands_def constXof_def wrapErr_def Count_sizes proofs_def Field_Mul_def
      Mul64_def Sub64_def Add64_def Modulus_def epsilon_def)

subsection \<open>The report\<close>

definition sampleMeta :: report_metadata where
  "sampleMeta = \<lparr>md_ReportID = replicate 16 0, md_Time = 7200, md_PublicExtensions = []\<rparr>"

lemma sample_aad_encodes:
  "\<exists>aad. marshal (e_cb sampleEnv) (InputShareAad_Marshal (e_cb sampleEnv)) (clientAad sampleMatrix sampleMeta []) = Inr aad
    \<and> length aad < 1000"
  by (simp add: sampleEnv_def marshal_Inr_iff encoding_def writer_defs sample_defs cat_Some_iff Let_def clientAad_def
      sampleMatrix_def sampleMeta_def)

lemma sample_seal:
  assumes "length b < 100" and "length aad < 1000" and "EncodeInputShare c share = b" and "ag_Suite agg = sampleSuite" and "ag_PublicKey agg = [k]"
  shows "\<exists>ct. sealShare sampleEnv t c aad rnd agg recipient share = Inr ct
    \<and> length (ct_Enc ct) = 1 \<and> ct_Payload ct \<noteq> [] \<and> length (ct_Payload ct) < 2000"
proof -
  obtain pt where "marshal ref_cb (total (PlaintextInputShare_Marshal ref_cb)) \<lparr>pis_PrivateExtensions = [], pis_Payload = b\<rparr> = Inr pt"
    and "length pt < 200"
    using assms(1) by (auto simp: marshal_Inr_iff PlaintextInputShare_Marshal_def marshalExtensionVec_def cat_Some_iff)
  moreover have "length (inputShareInfo t recipient) < 100" by (cases "mt_Variant t") (simp_all add: inputShareInfo_def)
  ultimately show ?thesis using assms(2-5)
    by (auto simp: sealShare_def sampleEnv_def Seal_def ref_circl_def Suite_IsValid_def sampleSuite_def ref_header_def)
qed

lemma DecodeInputShare_short: "DecodeInputShare c i b = Inr s \<Longrightarrow> length b < 100"
  by (auto simp: DecodeInputShare_def Let_def Count_sizes proofs_def EncodedSize_def SeedSize_def split: if_splits)

text \<open>A client whose associated data encodes makes a report.\<close>

lemma report_made:
  assumes c: "NewCount 2 (VDAFContext t) = Inr c"
    and lead: "ag_Suite (mt_Leader t) = sampleSuite" "ag_PublicKey (mt_Leader t) = [k]"
    and hlp: "ag_Suite (mt_Helper t) = sampleSuite" "ag_PublicKey (mt_Helper t) = [l]"
    and aad: "marshal (e_cb sampleEnv) (InputShareAad_Marshal (e_cb sampleEnv))
      (clientAad t \<lparr>md_ReportID = replicate 16 0, md_Time = Task_truncate t now, md_PublicExtensions = []\<rparr> []) = Inr aad"
      "length aad < 1000"
  obtains rep where "Report sampleEnv t sampleReader 1 now = Some (Inr rep)"
    and "rp_Metadata rep = \<lparr>md_ReportID = replicate 16 0, md_Time = Task_truncate t now, md_PublicExtensions = []\<rparr>"
    and "rp_PublicShare rep = []"
    and "length (ct_Enc (rp_HelperEncryptedInputShare rep)) = 1" and "ct_Payload (rp_HelperEncryptedInputShare rep) \<noteq> []"
    and "length (ct_Payload (rp_HelperEncryptedInputShare rep)) < 2000"
proof -
  obtain ins where sh: "Shard constXof c 1 (replicate 16 0) (replicate 64 7) = Some (Inr ([], ins))"
    using constXof_Shard [OF c, of 1] by auto
  have "length ins = 2" using field_xof.Shard_shares [OF constXof c sh] by auto
  then obtain a b where ins: "ins = [a, b]" by (auto simp: length_Suc_conv numeral_2_eq_2)
  have lens: "length (EncodeInputShare c a) < 100" "length (EncodeInputShare c b) < 100"
    using field_xof.Shard_codec [OF constXof c sh, of 0] field_xof.Shard_codec [OF constXof c sh, of 1]
    by (auto simp: ins dest: DecodeInputShare_short)
  obtain ct0 where ct0: "sealShare sampleEnv t c aad (\<lambda>_. 8) (mt_Leader t) roleLeader a = Inr ct0"
    using sample_seal [OF lens(1) aad(2) refl lead] by blast
  obtain ct1 where ct1: "sealShare sampleEnv t c aad (\<lambda>_. 9) (mt_Helper t) matrix_roleHelper b = Inr ct1"
    "length (ct_Enc ct1) = 1" "ct_Payload ct1 \<noteq> []" "length (ct_Payload ct1) < 2000"
    using sample_seal [OF lens(2) aad(2) refl hlp] by blast
  have size: "RandSize c = 64" using c by (auto simp: RandSize_def NewCount_def SeedSize_def split: if_splits)
  have "Report sampleEnv t sampleReader 1 now = Some (Inr
      \<lparr>rp_Metadata = \<lparr>md_ReportID = replicate 16 0, md_Time = Task_truncate t now, md_PublicExtensions = []\<rparr>,
        rp_PublicShare = [], rp_LeaderEncryptedInputShare = ct0, rp_HelperEncryptedInputShare = ct1\<rparr>)"
    using sh aad(1) ct0 ct1(1)
    by (simp add: Report_def lead hlp matrix_numAggregators_def c ReadFull_def sampleReader_def ReportIDSize_def size
        sampleEnv_def Let_def sealReport_def ins)
  from that [OF this] ct1 show thesis by simp
qed

lemma sample_report:
  obtains rep where "Report sampleEnv sampleMatrix sampleReader 1 7205 = Some (Inr rep)"
    and "rp_Metadata rep = sampleMeta" and "rp_PublicShare rep = []"
    and "length (ct_Enc (rp_HelperEncryptedInputShare rep)) = 1" and "ct_Payload (rp_HelperEncryptedInputShare rep) \<noteq> []"
    and "length (ct_Payload (rp_HelperEncryptedInputShare rep)) < 2000"
proof -
  have meta: "\<lparr>md_ReportID = replicate 16 0, md_Time = Task_truncate sampleMatrix 7205, md_PublicExtensions = []\<rparr> = sampleMeta"
    by (simp add: sampleMeta_def Task_truncate_def sampleMatrix_def sample_tc_def Let_def word_sless_alt)
  obtain aad where "marshal (e_cb sampleEnv) (InputShareAad_Marshal (e_cb sampleEnv)) (clientAad sampleMatrix sampleMeta []) = Inr aad"
    "length aad < 1000" using sample_aad_encodes by blast
  note aad = this
  have keys: "ag_Suite (mt_Leader sampleMatrix) = sampleSuite" "ag_PublicKey (mt_Leader sampleMatrix) = [5]"
    "ag_Suite (mt_Helper sampleMatrix) = sampleSuite" "ag_PublicKey (mt_Helper sampleMatrix) = [6]"
    by (simp_all add: sampleMatrix_def)
  show thesis
    by (rule report_made [OF sampleCount keys, where now = 7205, unfolded meta, OF aad]) (rule that)
qed

subsection \<open>The leader's request\<close>

definition sampleInit :: "verify_init list \<Rightarrow> aggjob_init_req" where
  "sampleInit vis = \<lparr>air_Variant = VariantDraft18, air_VerificationKeyID = 0, air_AggParam = [], air_Extensions = [],
     air_PartBatchSelector = zero_pbs, air_VerifyInits = vis\<rparr>"

definition collectionPath :: string where
  "collectionPath = ''/tasks/'' @ EncodeToString (replicate 32 1) @ ''/aggregation_jobs''"

definition sharePath :: string where
  "sharePath = ''/tasks/'' @ EncodeToString (replicate 32 1) @ ''/aggregate_shares/'' @ EncodeToString (replicate 16 2)"

lemma sample_paths:
  "parseAggregationPath collectionPath = Some (replicate 32 1, None)"
  "parseAggregateSharePath sharePath = Some (replicate 32 1)"
  using parse_paths [of "replicate 32 1" "replicate 16 2"] by (simp_all add: collectionPath_def sharePath_def)

context cryptobyte_laws
begin

lemmas init_roundtrip = air.roundtrip
lemmas share_req_roundtrip = asr.roundtrip

end

lemma sample_init_encodes:
  assumes vi: "vi = verifyInitOf rep payload" and rep: "rp_Metadata rep = sampleMeta" "rp_PublicShare rep = []"
    and ct: "length (ct_Enc (rp_HelperEncryptedInputShare rep)) = 1" "ct_Payload (rp_HelperEncryptedInputShare rep) \<noteq> []"
      "length (ct_Payload (rp_HelperEncryptedInputShare rep)) < 2000" and payload: "length payload = 37"
  obtains body where "unmarshalAll (AggregationJobInitReq_Unmarshal (e_cb sampleEnv) VariantDraft18) body = Inr (sampleInit [vi])"
    and "length body < 3000"
proof -
  have "\<exists>w. marshal ref_cb (total (AggregationJobInitReq_Marshal ref_cb)) (sampleInit [vi]) = Inr w \<and> length w < 3000"
    using rep ct payload
    by (simp add: vi sampleInit_def verifyInitOf_def marshal_Inr_iff writer_defs cat_Some_iff sampleMeta_def)
  then obtain w where w: "marshal ref_cb (total (AggregationJobInitReq_Marshal ref_cb)) (sampleInit [vi]) = Inr w" "length w < 3000" by blast
  have "air_ok VariantDraft18 (sampleInit [vi])"
    using rep ct payload by (auto simp: wf_defs sampleInit_def vi verifyInitOf_def sampleMeta_def)
  from cryptobyte_laws.init_roundtrip [OF ref.cryptobyte_laws_axioms this w(1)] w(2) show thesis
    by (intro that) (simp_all add: sampleEnv_def)
qed

lemma sample_request:
  assumes "unmarshalAll (AggregationJobInitReq_Unmarshal (e_cb sampleEnv) VariantDraft18) body = Inr (sampleInit vis)"
    and "length body < 3000"
  shows "batchRequest sampleEnv sampleTask (replicate 32 4) vis
    \<lparr>rq_Method = ''POST'', rq_Path = collectionPath, rq_Body = Some body\<rparr> body (sampleInit vis)"
  using assms sample_paths(1)
  by (simp add: batchRequest_def sampleTask_def sampleInit_def readBody_def maxBodyBytes_def validateExtensions_def
       sample_tc_def)


subsection \<open>A run\<close>

definition sampleStore :: mem_store where
  "sampleStore = NewMemStore [sampleTask]"

definition sampleKey :: verify_key where
  "sampleKey = replicate 32 4"

definition postRequest :: "bytes \<Rightarrow> http_request" where
  "postRequest body = \<lparr>rq_Method = ''POST'', rq_Path = collectionPath, rq_Body = Some body\<rparr>"

definition putRequest :: "bytes \<Rightarrow> http_request" where
  "putRequest body = \<lparr>rq_Method = ''PUT'', rq_Path = sharePath, rq_Body = Some body\<rparr>"

lemma sampleStore:
  "ms_tasks sampleStore (t_TaskID sampleTask) = Some sampleTask" "GetTask sampleStore (t_TaskID sampleTask) = Some sampleTask"
  "ms_jobs sampleStore = Map.empty" "ms_claims sampleStore = Map.empty" "t_TaskID sampleTask = replicate 32 1"
  by (simp_all add: sampleStore_def NewMemStore_def GetTask_def sampleTask_def)

lemma sampleTask_keys:
  "keyPair (e_cl sampleEnv) (t_HPKESuite sampleTask) (t_HPKEPublicKey sampleTask) (t_HPKEPrivateKey sampleTask)"
  "keyPair (e_cl sampleEnv) (ag_Suite (mt_Leader sampleMatrix)) (ag_PublicKey (mt_Leader sampleMatrix)) [5]"
  using sample_keys by (simp_all add: sampleTask_def sampleMatrix_def)

lemma sample_batch:
  obtains rep lout payload x ob body where "Report sampleEnv sampleMatrix sampleReader 1 7205 = Some (Inr rep)"
    and "rp_Metadata rep = sampleMeta"
    and "leaderStep sampleEnv sampleMatrix [5] sampleCount sampleKey rep lout payload"
    and "\<And>ord. aggregateInit sampleEnv sampleTask sampleKey VariantDraft18 (verifyInitOf rep payload) ord
      = Some (finishedAgg (md_ReportID (rp_Metadata rep)) ord x ob)"
    and "batchRequest sampleEnv sampleTask sampleKey [verifyInitOf rep payload] (postRequest body) body (sampleInit [verifyInitOf rep payload])"
    and "reportIDs (sampleInit [verifyInitOf rep payload]) = [md_ReportID sampleMeta]"
proof -
  obtain rep where rep: "Report sampleEnv sampleMatrix sampleReader 1 7205 = Some (Inr rep)"
    and md: "rp_Metadata rep = sampleMeta" "rp_PublicShare rep = []"
    and ct: "length (ct_Enc (rp_HelperEncryptedInputShare rep)) = 1" "ct_Payload (rp_HelperEncryptedInputShare rep) \<noteq> []"
      "length (ct_Payload (rp_HelperEncryptedInputShare rep)) < 2000" by (rule sample_report)
  obtain lout payload x ob where l: "leaderStep sampleEnv sampleMatrix [5] sampleCount sampleKey rep lout payload"
    and agg: "\<And>ord. aggregateInit sampleEnv sampleTask sampleKey VariantDraft18 (verifyInitOf rep payload) ord
      = Some (finishedAgg (md_ReportID (rp_Metadata rep)) ord x ob)" and len: "length payload = 37"
  proof -
    have var: "mt_Variant sampleMatrix = VariantDraft18" by (simp add: sampleMatrix_def)
    note h = honest_report [OF sampleEnv_laws(1-3) sample_enrolled sampleTask_keys rep sampleCount sample_query, where vk = sampleKey,
        unfolded var]
    show thesis by (rule h) (rule that)
  qed
  obtain body where body: "unmarshalAll (AggregationJobInitReq_Unmarshal (e_cb sampleEnv) VariantDraft18) body
      = Inr (sampleInit [verifyInitOf rep payload])" "length body < 3000"
    by (rule sample_init_encodes [OF refl md ct len])
  have ids: "reportIDs (sampleInit [verifyInitOf rep payload]) = [md_ReportID sampleMeta]"
    by (simp add: reportIDs_def sampleInit_def verifyInitOf_def md)
  show thesis
    using sample_request [OF body] by (intro that [OF rep md(1) l agg _ ids]) (simp add: postRequest_def sampleKey_def)
qed

lemma sample_run:
  obtains body m1 resp where "run (ServeHTTP sampleEnv (memStore keyOrder) ent (postRequest body)) sampleStore = Some (m1, resp)"
    and "re_Status resp = 200" and "length (counted (JobsForTask keyOrder m1 (replicate 32 1))) = 1"
    and "GetTask m1 (replicate 32 1) = Some sampleTask"
    and "reachable sampleEnv (memStore keyOrder) (NewMemStore [sampleTask]) (m1, [Return resp])"
proof -
  obtain rep lout payload x ob body where "Report sampleEnv sampleMatrix sampleReader 1 7205 = Some (Inr rep)"
    and "rp_Metadata rep = sampleMeta" and "leaderStep sampleEnv sampleMatrix [5] sampleCount sampleKey rep lout payload"
    and agg: "\<And>ord. aggregateInit sampleEnv sampleTask sampleKey VariantDraft18 (verifyInitOf rep payload) ord
      = Some (finishedAgg (md_ReportID (rp_Metadata rep)) ord x ob)"
    and req: "batchRequest sampleEnv sampleTask sampleKey [verifyInitOf rep payload] (postRequest body) body (sampleInit [verifyInitOf rep payload])"
    and ids: "reportIDs (sampleInit [verifyInitOf rep payload]) = [md_ReportID sampleMeta]"
  proof -
    show thesis by (rule sample_batch) (rule that)
  qed
  have var: "t_Variant sampleTask = VariantDraft18" by (simp add: sampleTask_def)
  obtain m1 resp j job where run: "run (ServeHTTP sampleEnv (memStore keyOrder) ent (postRequest body)) sampleStore = Some (m1, resp)"
    and ok: "re_Status resp = 200" and m1: "ms_jobs m1 = (ms_jobs sampleStore)((replicate 32 1, j) \<mapsto> job)"
    and fin: "list_all (\<lambda>ra. ra_State ra = StateFinished) (aj_ReportAggs job)"
    and val: "map contribution (aj_ReportAggs job) = map (\<lambda>_. gfe x) [0..<1]" and tk: "ms_tasks m1 = ms_tasks sampleStore"
  proof -
    have req': "batchRequest sampleEnv sampleTask sampleKey (map (\<lambda>_. verifyInitOf rep payload) [0..<1]) (postRequest body) body
        (sampleInit [verifyInitOf rep payload])" using req by simp
    have ids': "distinct (reportIDs (sampleInit [verifyInitOf rep payload]))" using ids by simp
    have each: "aggregateInit sampleEnv sampleTask sampleKey (t_Variant sampleTask) (verifyInitOf rep payload) ord
        = Some (finishedAgg (md_ReportID (rp_Metadata rep)) ord x ob)" for ord using agg var by simp
    note b = batch_job [OF sampleEnv_laws(1,3,4) sampleStore(1) req' ids' _ _ each, where order = keyOrder and ent = ent,
        unfolded sampleStore(5)]
    show thesis by (rule b) (simp add: sampleStore, simp add: sampleStore, rule that)
  qed
  have "reachable sampleEnv (memStore keyOrder) (NewMemStore [sampleTask]) (sampleStore, [] @ [ServeHTTP sampleEnv (memStore keyOrder) ent (postRequest body)])"
    unfolding sampleStore_def by (rule reachable.step [OF reachable.init]) (rule sys_step.request)
  note reach = run_steps [OF run this, simplified]
  have "mem_wf m1" using m1 by (simp add: mem_wf_def sampleStore)
  then have "JobsForTask keyOrder m1 (replicate 32 1) = [job]"
    by (intro JobsForTask_single [OF ranges_keyOrder]) (auto simp: m1 sampleStore split: if_splits)
  moreover have "length (aj_ReportAggs job) = 1" using arg_cong [OF val, of length] by simp
  ultimately have one: "length (counted (JobsForTask keyOrder m1 (replicate 32 1))) = 1" using counted_finished [OF fin] by simp
  have "GetTask m1 (replicate 32 1) = Some sampleTask" using tk sampleStore by (simp add: GetTask_def)
  from that [OF run ok one this reach] show thesis .
qed

end
