(* ===== verification/Ledger.thy ===== *)
theory Ledger
  imports Collect
begin

text \<open>
  What a helper promises, as an abstract machine: a ledger of the reports claimed and of the values
  the accepted ones contribute. The server implements it: every step of the server, whatever the
  requests do to each other, is a step of the ledger, and the aggregate the server computes is the
  ledger's total.
\<close>

subsection \<open>The machine\<close>

text \<open>\<open>lg_owner\<close> gives the job that claimed a report, \<open>lg_entries\<close> the values a job contributes.\<close>

record ledger =
  lg_owner :: "report_key \<rightharpoonup> job_id"
  lg_entries :: "job_key \<rightharpoonup> report_id \<rightharpoonup> gf"

definition emptyLedger :: ledger where
  "emptyLedger = \<lparr>lg_owner = Map.empty, lg_entries = Map.empty\<rparr>"

definition owned :: "ledger \<Rightarrow> job_key \<Rightarrow> (report_id \<rightharpoonup> gf) \<Rightarrow> bool" where
  "owned l k f \<longleftrightarrow> finite (dom f) \<and> (\<forall>r\<in>dom f. lg_owner l (fst k, r) = Some (snd k))"

text \<open>A step claims reports nobody owns, posts the values of reports a job owns, or discards a
  job's values.\<close>

inductive ledger_step :: "ledger \<Rightarrow> ledger \<Rightarrow> bool" where
  claim: "lg_owner l' = claimed (lg_owner l) t j ids \<Longrightarrow> lg_entries l' = lg_entries l \<Longrightarrow> ledger_step l l'"
| post: "lg_entries l k = None \<Longrightarrow> owned l k f \<Longrightarrow> ledger_step l (l\<lparr>lg_entries := (lg_entries l)(k \<mapsto> f)\<rparr>)"
| discard: "ledger_step l (l\<lparr>lg_entries := (lg_entries l)(k := None)\<rparr>)"

inductive ledger_reachable :: "ledger \<Rightarrow> bool" where
  init: "ledger_reachable emptyLedger"
| step: "ledger_reachable l \<Longrightarrow> ledger_step l l' \<Longrightarrow> ledger_reachable l'"

inductive_cases ledger_stepE [elim]: "ledger_step l l'"

definition ledger_total :: "ledger \<Rightarrow> task_id \<Rightarrow> gf" where
  "ledger_total l t = (\<Sum>k | k \<in> dom (lg_entries l) \<and> fst k = t. \<Sum>r\<in>dom (the (lg_entries l k)). the (the (lg_entries l k) r))"

subsection \<open>What the machine guarantees\<close>

lemma ledger_owned: "ledger_reachable l \<Longrightarrow> lg_entries l k = Some f \<Longrightarrow> owned l k f"
proof (induction arbitrary: k f rule: ledger_reachable.induct)
  case (step l l')
  from step(2) show ?case
  proof cases
    case (claim t j ids)
    then have "owned l k f" using step by simp
    with claim(1) claimed_mono [of "lg_owner l" t j ids] show ?thesis
      by (auto simp: owned_def map_le_def) (metis domI)
  next
    case (post k' f')
    then show ?thesis using step by (cases "k = k'") (auto simp: owned_def)
  next
    case (discard k')
    then show ?thesis using step by (cases "k = k'") (auto simp: owned_def)
  qed
qed (simp add: emptyLedger_def)

text \<open>A report is counted in one job of its task at most.\<close>

lemma ledger_counts_once:
  assumes "ledger_reachable l" and "lg_entries l k = Some f" and "lg_entries l k' = Some f'"
    and "fst k = fst k'" and "r \<in> dom f" and "r \<in> dom f'"
  shows "k = k'"
  using ledger_owned [OF assms(1,2)] ledger_owned [OF assms(1,3)] assms(4-6)
  by (metis option.inject owned_def prod_eqI)

subsection \<open>The server's ledger\<close>

definition entry :: "aggregation_job \<Rightarrow> report_id \<rightharpoonup> gf" where
  "entry job = map_of (map (\<lambda>ra. (ra_ReportID ra, contribution ra))
     (filter (\<lambda>ra. ra_State ra = StateFinished) (aj_ReportAggs job)))"

definition ledger_of :: "mem_store \<Rightarrow> ledger" where
  "ledger_of m = \<lparr>lg_owner = ms_claims m, lg_entries = (\<lambda>k. map_option entry (ms_jobs m k))\<rparr>"

lemma ledger_of_simps [simp]:
  "lg_owner (ledger_of m) = ms_claims m" "lg_entries (ledger_of m) k = map_option entry (ms_jobs m k)"
  "dom (lg_entries (ledger_of m)) = dom (ms_jobs m)"
  by (auto simp: ledger_of_def)

lemma dom_entry: "dom (entry job) = ra_ReportID ` {ra \<in> set (aj_ReportAggs job). ra_State ra = StateFinished}"
  by (auto simp: entry_def dom_map_of_conv_image_fst image_image)

lemma entry_marks: "marks job job' \<Longrightarrow> entry job' = entry job"
  by (simp add: entry_def marks_simps)

lemma entry_owned:
  assumes "accounted (ms_claims m) job" and "key_of job = k"
  shows "owned (ledger_of m) k (entry job)"
  using assms by (auto simp: owned_def dom_entry accounted_def key_of_def)

lemma sum_distinct_map: "distinct (map f xs) \<Longrightarrow> (\<Sum>x\<leftarrow>xs. g x) = (\<Sum>y\<in>f ` set xs. the (map_of (map (\<lambda>x. (f x, g x)) xs) y))"
proof (induction xs)
  case (Cons a xs)
  let ?h = "\<lambda>xs y. the (map_of (map (\<lambda>x. (f x, g x)) xs) y)"
  have "(\<Sum>y\<in>f ` set xs. ?h (a # xs) y) = (\<Sum>y\<in>f ` set xs. ?h xs y)"
    using Cons.prems by (intro sum.cong) (auto simp: image_iff)
  with Cons show ?case by simp
qed simp

lemma entry_sum:
  assumes "accounted c job"
  shows "(\<Sum>ra\<leftarrow>counted [job]. contribution ra) = (\<Sum>r\<in>dom (entry job). the (entry job r))"
proof -
  let ?fs = "filter (\<lambda>ra. ra_State ra = StateFinished) (aj_ReportAggs job)"
  have "distinct (map ra_ReportID ?fs)" using assms by (simp add: accounted_def)
  from sum_distinct_map [OF this, of contribution] show ?thesis
    by (simp add: counted_def entry_def dom_map_of_conv_image_fst image_image)
qed

lemma counted_sum: "(\<Sum>ra\<leftarrow>counted js. contribution ra) = (\<Sum>job\<leftarrow>js. \<Sum>ra\<leftarrow>counted [job]. contribution ra)"
  by (induction js) (simp_all add: counted_def)

text \<open>The sum over the jobs the store lists is the sum over the ledger's entries.\<close>

lemma sum_list_mset: "(\<Sum>x\<leftarrow>xs. f x) = (\<Sum>x\<in>#mset xs. f x)"
  by (metis mset_map sum_mset_sum_list)

lemma ledger_total_of:
  assumes "ranges order" and "mem_inv m"
  shows "(\<Sum>ra\<leftarrow>counted (JobsForTask order m t). contribution ra) = ledger_total (ledger_of m) t"
proof -
  note sc = memStore_contract [OF assms(1)]
  let ?K = "{k \<in> dom (ms_jobs m). fst k = t}"
  let ?v = "\<lambda>job. \<Sum>ra\<leftarrow>counted [job]. contribution ra"
  have wf: "mem_wf m" and acc: "\<And>k job. ms_jobs m k = Some job \<Longrightarrow> accounted (ms_claims m) job"
    using assms(2) by (auto simp: store_contract.inv_def [OF sc])
  have "(\<Sum>ra\<leftarrow>counted (JobsForTask order m t). contribution ra) = (\<Sum>job\<in>#mset (JobsForTask order m t). ?v job)"
    by (subst counted_sum) (rule sum_list_mset)
  also have "\<dots> = (\<Sum>k\<in>?K. ?v (the (ms_jobs m k)))"
    unfolding JobsForTask_mset [OF assms(1) wf] image_mset.compositionality comp_def sum_unfold_sum_mset ..
  also have "\<dots> = (\<Sum>k\<in>?K. \<Sum>r\<in>dom (the (lg_entries (ledger_of m) k)). the (the (lg_entries (ledger_of m) k) r))"
    using entry_sum [OF acc] by (intro sum.cong) auto
  finally show ?thesis by (simp add: ledger_total_def)
qed

lemma evolves_ledger:
  assumes "ranges order" and "mem_inv m'" and "store_contract.evolves ms_jobs ms_claims m m'"
  shows "ledger_step (ledger_of m) (ledger_of m')"
proof -
  note sc = memStore_contract [OF assms(1)]
  consider (claim) t j ids where "ms_jobs m' = ms_jobs m" "ms_claims m' = claimed (ms_claims m) t j ids"
    | (post) job where "ms_claims m' = ms_claims m" "ms_jobs m (key_of job) = None" "ms_jobs m' = (ms_jobs m)(key_of job \<mapsto> job)"
    | (discard) k where "ms_claims m' = ms_claims m" "ms_jobs m' = (ms_jobs m)(k := None)"
    | (mark) k job job' where "ms_claims m' = ms_claims m" "ms_jobs m k = Some job" "marks job job'"
        "ms_jobs m' = (ms_jobs m)(k \<mapsto> job')"
    using assms(3) by (auto simp: store_contract.evolves_def [OF sc])
  then show ?thesis
  proof cases
    case claim
    then show ?thesis by (intro ledger_step.claim) (simp_all add: ledger_of_def)
  next
    case (post job)
    have "ms_jobs m' (key_of job) = Some job" by (simp add: post(3))
    then have "accounted (ms_claims m') job"
      using assms(2) unfolding store_contract.inv_def [OF sc] by blast
    then have "owned (ledger_of m) (key_of job) (entry job)" using post(1) by (intro entry_owned) simp_all
    moreover have "ledger_of m' = (ledger_of m)\<lparr>lg_entries := (lg_entries (ledger_of m))(key_of job \<mapsto> entry job)\<rparr>"
      by (simp add: ledger_of_def post(1,3) fun_eq_iff)
    ultimately show ?thesis using post(2) by (simp add: ledger_step.post)
  next
    case (discard k)
    then have "ledger_of m' = (ledger_of m)\<lparr>lg_entries := (lg_entries (ledger_of m))(k := None)\<rparr>"
      by (simp add: ledger_of_def fun_eq_iff)
    then show ?thesis by (simp add: ledger_step.discard)
  next
    case (mark k job job')
    then have "ledger_of m' = ledger_of m" by (auto simp: ledger_of_def fun_eq_iff entry_marks)
    then show ?thesis by (intro ledger_step.claim [where ids = "[]"]) simp_all
  qed
qed

text \<open>The simulation.\<close>

lemma step_ledger:
  assumes "field_xof (e_xp e)" and "ranges order" and "reachable e (memStore order) (NewMemStore tasks) (m, ts)"
    and "sys_step e (memStore order) (m, ts) (m', ts')"
  shows "ledger_step (ledger_of m) (ledger_of m')"
proof -
  note sc = memStore_contract [OF assms(2)]
  have "mem_inv (NewMemStore tasks)" by (simp add: store_contract.inv_def [OF sc] NewMemStore_tasks)
  note safe = store_contract.reachable_safe [OF sc assms(1) this assms(3)]
  from store_contract.step_safe [OF sc assms(1) conjunct1 [OF safe] conjunct2 [OF safe] assms(4)]
  show ?thesis using evolves_ledger [OF assms(2)] by blast
qed

lemma reachable_ledger:
  assumes "field_xof (e_xp e)" and "ranges order" and "reachable e (memStore order) (NewMemStore tasks) (m, ts)"
  shows "ledger_reachable (ledger_of m)"
  using assms(3)
proof (induction "(m, ts)" arbitrary: m ts rule: reachable.induct)
  case init
  then show ?case using ledger_reachable.init by (simp add: ledger_of_def emptyLedger_def)
next
  case (step c)
  obtain m1 ts1 where c: "c = (m1, ts1)" by (cases c)
  with step have "ledger_reachable (ledger_of m1)" "ledger_step (ledger_of m1) (ledger_of m)"
    by (auto intro: step_ledger [OF assms(1,2)])
  then show ?case by (rule ledger_reachable.step)
qed

end
