(* ===== verification/HelperProps.thy ===== *)
theory HelperProps
  imports Samples Ledger
begin

text \<open>
  The properties of the helper: the whole protocol, replay protection, the aggregate share, the
  life of a request. Each follows from the lemmas of the component theories; the witnesses run the
  deployment of theory Samples.
\<close>

lemma sample_share_request:
  obtains body where "unmarshalAll (AggregateShareReq_Unmarshal (e_cb sampleEnv)) body
      = Inr \<lparr>asr_BatchSelector = \<lparr>bs_BatchMode = 1, bs_Identifier = [1]\<rparr>, asr_AggParam = [], asr_ReportCount = 1,
          asr_Checksum = replicate 32 0\<rparr>" and "length body < 3000"
proof -
  let ?r = "\<lparr>asr_BatchSelector = \<lparr>bs_BatchMode = 1, bs_Identifier = [1]\<rparr>, asr_AggParam = [], asr_ReportCount = 1,
      asr_Checksum = replicate 32 0\<rparr>"
  obtain w where w: "marshal ref_cb (total (AggregateShareReq_Marshal ref_cb)) ?r = Inr w" "length w < 3000"
    by (simp add: marshal_Inr_iff AggregateShareReq_Marshal_def BatchSelector_Marshal_def cat_Some_iff)
  have "asr_ok ?r" by (simp add: asr_ok_def ReportIDChecksumSize_def)
  from cryptobyte_laws.share_req_roundtrip [OF ref.cryptobyte_laws_axioms this w(1)] w(2) show thesis
    by (intro that) (simp_all add: sampleEnv_def)
qed

lemma sample_share:
  assumes "mem_inv m" and "GetTask m (replicate 32 1) = Some sampleTask" and "counted (JobsForTask keyOrder m (replicate 32 1)) \<noteq> []"
  obtains body resp where "run (handleAggregateShare sampleEnv (memStore keyOrder) ent (putRequest body) (replicate 32 1)) m = Some (m, resp)"
    and "re_Status resp = 200"
proof -
  obtain body where body: "unmarshalAll (AggregateShareReq_Unmarshal (e_cb sampleEnv)) body
      = Inr \<lparr>asr_BatchSelector = \<lparr>bs_BatchMode = 1, bs_Identifier = [1]\<rparr>, asr_AggParam = [], asr_ReportCount = 1,
          asr_Checksum = replicate 32 0\<rparr>" (is "_ = Inr ?r") and len: "length body < 3000" by (rule sample_share_request)
  have rb: "readBody (putRequest body) = Some body" using len by (simp add: readBody_def putRequest_def maxBodyBytes_def)
  have "re_Status (sealAggregateShare sampleEnv ent (replicate 32 1) sampleTask ?r [a]) = 200" for a
  proof -
    obtain aad where aad: "marshal ref_cb (total (AggregateShareAad_Marshal ref_cb))
        \<lparr>asa_TaskID = replicate 32 1, asa_AggParam = [], asa_BatchSelector = \<lparr>bs_BatchMode = 1, bs_Identifier = [1]\<rparr>\<rparr> = Inr aad"
      "length aad < 1000"
      by (simp add: marshal_Inr_iff AggregateShareAad_Marshal_def TaskID_Marshal_def BatchSelector_Marshal_def cat_Some_iff)
    then obtain ct where ct: "Seal ref_circl ent sampleSuite [7] (aggregateShareInfo VariantDraft18) aad (EncodeVec [a]) = Inr ([ent 0], ct)"
      "length ct < 3000"
      by (simp add: Seal_def ref_circl_def Suite_IsValid_def sampleSuite_def ref_header_def aggregateShareInfo_def EncodedSize_def)
    then obtain w where "marshal ref_cb (total (AggregateShare_Marshal ref_cb)) \<lparr>ct_ConfigID = 3, ct_Enc = [ent 0], ct_Payload = ct\<rparr> = Inr w"
      by (simp add: marshal_Inr_iff AggregateShare_Marshal_def HpkeCiphertext_Marshal_def cat_Some_iff)
    with aad ct show ?thesis by (simp add: sealAggregateShare_def sampleEnv_def sampleTask_def)
  qed
  moreover have "st_GetTask (memStore keyOrder) = GetTask" "st_JobsForTask (memStore keyOrder) = JobsForTask keyOrder"
    by (simp_all add: memStore_def)
  ultimately show thesis
    using assms(2,3) rb body sumOutShares_value [OF jobs_ok [OF ranges_keyOrder assms(1)]]
    by (intro that [of body]) (simp_all add: handleAggregateShare_def)
qed

lemma reachable_under_key:
  assumes "field_xof (e_xp e)" and "ranges order" and "reachable e (memStore order) (NewMemStore tasks) (m, ts)"
  shows "under_key m"
  using reachable_inv [OF assms]
  by (auto simp: store_contract.inv_def [OF memStore_contract [OF assms(2)]] under_key_def key_of_def)

lemma marks_respMessage:
  assumes "marks job job'"
  shows "respMessage cb t j (aj_Response job') status = respMessage cb t j (aj_Response job) status"
proof -
  obtain rs where rs: "list_all2 (\<lambda>r r'. r' = r \<or> r' = r\<lparr>vr_Variant := arr_Variant (aj_Response job)\<rparr>)
      (arr_VerifyResps (aj_Response job)) rs"
    and job': "job' = job\<lparr>aj_Response := (aj_Response job)\<lparr>arr_VerifyResps := rs\<rparr>\<rparr>"
    using assms by (auto simp: marks_def)
  have "map (\<lambda>r. r\<lparr>vr_Variant := arr_Variant (aj_Response job)\<rparr>) rs
      = map (\<lambda>r. r\<lparr>vr_Variant := arr_Variant (aj_Response job)\<rparr>) (arr_VerifyResps (aj_Response job))"
    using rs by (induction rule: list_all2_induct) auto
  then have "setVariants (aj_Response job') = setVariants (aj_Response job)"
    "arr_Variant (aj_Response job') = arr_Variant (aj_Response job)" by (simp_all add: setVariants_def job')
  then have "AggregationJobResp_Marshal cb (aj_Response job') = AggregationJobResp_Marshal cb (aj_Response job)"
    unfolding AggregationJobResp_Marshal_def by (simp split: sum.split)
  then show ?thesis by (simp add: respMessage_def marshal_def)
qed

text \<open>
  C2. Replay protection under every interleaving: in each state the server can reach, with any
  number of requests in progress at once, no report ID is counted twice among the stored jobs
  of a task, and every counted report is claimed by the job that counts it.
\<close>

theorem replay_protection:
  assumes "field_xof (e_xp e)" and "ranges order" and "reachable e (memStore order) (NewMemStore tasks) (m, ts)"
  shows "distinct (map ra_ReportID (counted (JobsForTask order m t)))
    \<and> (\<forall>k job ra. ms_jobs m k = Some job \<and> ra \<in> set (aj_ReportAggs job) \<and> ra_State ra = StateFinished \<longrightarrow>
         ms_claims m (fst k, ra_ReportID ra) = Some (snd k))"
proof -
  note sc = memStore_contract [OF assms(2)] and inv = reachable_inv [OF assms]
  have "distinct (map ra_ReportID (counted (JobsForTask order m t)))"
    using store_contract.counted_distinct [OF sc inv, of t] by (simp add: memStore_def)
  moreover have "ms_claims m (fst k, ra_ReportID ra) = Some (snd k)"
    if "ms_jobs m k = Some job" "ra \<in> set (aj_ReportAggs job)" "ra_State ra = StateFinished" for k job ra
    by (rule store_contract.inv_claims [OF sc inv that])
  ultimately show ?thesis by blast
qed

text \<open>
  C4. The server refines an abstract ledger that only claims unclaimed reports for a job, posts
  under a free job key the values of reports that job owns, and discards a job: every step of
  the server under every interleaving is a step of the ledger, the ledger counts a report of a
  task in one job at most, and the sum the aggregate-share endpoint computes is the ledger's
  total for the task.
\<close>

theorem server_refines_ledger:
  assumes "field_xof (e_xp e)" and "ranges order" and "reachable e (memStore order) (NewMemStore tasks) (m, ts)"
  shows "ledger_reachable (ledger_of m)
    \<and> (\<forall>m' ts'. sys_step e (memStore order) (m, ts) (m', ts') \<longrightarrow> ledger_step (ledger_of m) (ledger_of m'))
    \<and> (\<forall>j j' f f' r. lg_entries (ledger_of m) (t, j) = Some f \<and> lg_entries (ledger_of m) (t, j') = Some f'
         \<and> r \<in> dom f \<and> r \<in> dom f' \<longrightarrow> j = j')
    \<and> (\<exists>agg. sumOutShares None (concat (map aj_ReportAggs (JobsForTask order m t))) = Inr agg
         \<and> (case agg of None \<Rightarrow> ledger_total (ledger_of m) t = 0
            | Some v \<Rightarrow> \<exists>x. v = [x] \<and> canonical x \<and> gfe x = ledger_total (ledger_of m) t))"
proof (intro conjI)
  note inv = reachable_inv [OF assms] and reach = reachable_ledger [OF assms]
  show "ledger_reachable (ledger_of m)" by (rule reach)
  show "\<forall>m' ts'. sys_step e (memStore order) (m, ts) (m', ts') \<longrightarrow> ledger_step (ledger_of m) (ledger_of m')"
    using step_ledger [OF assms] by blast
  show "\<forall>j j' f f' r. lg_entries (ledger_of m) (t, j) = Some f \<and> lg_entries (ledger_of m) (t, j') = Some f'
      \<and> r \<in> dom f \<and> r \<in> dom f' \<longrightarrow> j = j'"
    using ledger_counts_once [OF reach] by (metis fst_conv prod.inject)
  let ?c = "counted (JobsForTask order m t)"
  note total = ledger_total_of [OF assms(2) inv, of t] and val = aggregateOf_value [of ?c]
  show "\<exists>agg. sumOutShares None (concat (map aj_ReportAggs (JobsForTask order m t))) = Inr agg
      \<and> (case agg of None \<Rightarrow> ledger_total (ledger_of m) t = 0
         | Some v \<Rightarrow> \<exists>x. v = [x] \<and> canonical x \<and> gfe x = ledger_total (ledger_of m) t)"
    using sumOutShares_value [OF jobs_ok [OF assms(2) inv], of t] total val
    by (intro exI [of _ "if ?c = [] then None else Some [aggregateOf ?c]"]) auto
qed

theorem server_refines_ledger_witness:
  "\<exists>m m' ts ts' j f. sys_step sampleEnv (memStore keyOrder) (m, ts) (m', ts')
    \<and> ledger_step (ledger_of m) (ledger_of m') \<and> ledger_reachable (ledger_of m)
    \<and> lg_entries (ledger_of m) (replicate 32 1, j) = Some f \<and> dom f \<noteq> {}"
proof -
  obtain body m resp where one: "length (counted (JobsForTask keyOrder m (replicate 32 1))) = 1"
    and r: "reachable sampleEnv (memStore keyOrder) (NewMemStore [sampleTask]) (m, [Return resp])"
    using sample_run [of "\<lambda>_. 0"] by metis
  then have "counted (JobsForTask keyOrder m (replicate 32 1)) \<noteq> []" by auto
  then obtain job where "job \<in> set (JobsForTask keyOrder m (replicate 32 1))" and "dom (entry job) \<noteq> {}"
    by (fastforce simp: counted_def filter_empty_conv dom_entry)
  then obtain j where "lg_entries (ledger_of m) (replicate 32 1, j) = Some (entry job)" "dom (entry job) \<noteq> {}"
    by (fastforce simp: JobsForTask_def List.map_filter_def split: if_splits)
  moreover have "sys_step sampleEnv (memStore keyOrder) (m, [Return resp]) (st_AddTask (memStore keyOrder) m sampleTask, [Return resp])"
    by (rule sys_step.add_task)
  ultimately show ?thesis
    using server_refines_ledger [OF sampleEnv_laws(3) ranges_keyOrder r] by blast
qed

text \<open>
  C10. A report the client made is accepted: a leader that follows the protocol gets its share
  and a message for the helper, and with them the helper's initialization finishes with an
  output share that adds up with the leader's to the measurement, and answers with the framed
  finish message. The query point of the report is assumed not to be a root of unity
  (goodQuery).
\<close>

theorem honest_report_accepted:
  assumes "cryptobyte_laws (e_cb e)" and "circl_laws (e_cl e)" and "field_xof (e_xp e)"
    and "enrolled t task" and "keyPair (e_cl e) (t_HPKESuite task) (t_HPKEPublicKey task) (t_HPKEPrivateKey task)"
    and "keyPair (e_cl e) (ag_Suite (mt_Leader t)) (ag_PublicKey (mt_Leader t)) sk"
    and "Report e t rnd m now = Some (Inr rep)" and "NewCount 2 (VDAFContext t) = Inr c"
    and "goodQuery (e_xp e) c vk (md_ReportID (rp_Metadata rep))"
  shows "\<exists>lout payload x ob. leaderStep e t sk c vk rep lout payload
    \<and> marshal (e_cb e) (PingPongMessage_Marshal (e_cb e)) finishMessage = Inr ob
    \<and> (\<forall>ord. aggregateInit e task vk (mt_Variant t) (verifyInitOf rep payload) ord
        = Some (finishedAgg (md_ReportID (rp_Metadata rep)) ord x ob))
    \<and> length lout = 1 \<and> gfe (lout ! 0) + gfe x = of_int m"
  by (rule honest_report [OF assms]) blast

theorem honest_report_accepted_witness:
  "\<exists>rep lout payload x ob. Report sampleEnv sampleMatrix sampleReader 1 7205 = Some (Inr rep)
    \<and> leaderStep sampleEnv sampleMatrix [5] sampleCount sampleKey rep lout payload
    \<and> (\<forall>ord. aggregateInit sampleEnv sampleTask sampleKey VariantDraft18 (verifyInitOf rep payload) ord
        = Some (finishedAgg (md_ReportID (rp_Metadata rep)) ord x ob)) \<and> gfe (lout ! 0) + gfe x = 1"
proof -
  obtain rep where rep: "Report sampleEnv sampleMatrix sampleReader 1 7205 = Some (Inr rep)" by (rule sample_report)
  have var: "mt_Variant sampleMatrix = VariantDraft18" by (simp add: sampleMatrix_def)
  from honest_report_accepted [OF sampleEnv_laws(1-3) sample_enrolled sampleTask_keys rep sampleCount sample_query, where vk = sampleKey]
    rep show ?thesis unfolding var by (metis of_int_1)
qed

text \<open>
  C1. The whole protocol: when a leader posts a batch of honest clients' reports with its own
  prepared messages in one aggregation job to a helper whose task agrees with the clients', the
  helper answers 200, and whatever collector request it then answers with 200 carries a
  ciphertext that opens under the collector's key to the helper's aggregate share x, which
  unshards with the leader's aggregate share to the exact sum of the measurements. At the post
  the task has no stored job and the reports are unclaimed, their IDs are distinct, the XOF
  returns, and the query point of no report is a root of unity (goodQuery).
\<close>

theorem protocol_end_to_end:
  assumes laws: "cryptobyte_laws (e_cb e)" "circl_laws (e_cl e)" "field_xof (e_xp e)" "returns (e_xp e)"
    and store: "ranges order" "reachable e (memStore order) (NewMemStore tasks) (m, ts)"
    and task: "GetTask m (t_TaskID task) = Some task" "enrolled t task"
    and keys: "keyPair (e_cl e) (t_HPKESuite task) (t_HPKEPublicKey task) (t_HPKEPrivateKey task)"
      "keyPair (e_cl e) (ag_Suite (mt_Leader t)) (ag_PublicKey (mt_Leader t)) sk"
    and c: "NewCount 2 (VDAFContext t) = Inr c" and batch: "honestBatch e t sk c vk R meas rep lout payload"
    and req: "batchRequest e task vk (map (\<lambda>r. verifyInitOf (rep r) (payload r)) [0..<R]) p body req"
    and ids: "distinct (map (\<lambda>r. md_ReportID (rp_Metadata (rep r))) [0..<R])"
    and fresh: "\<forall>j. GetJob m (t_TaskID task) j = None"
      "\<forall>r<R. ms_claims m (t_TaskID task, md_ReportID (rp_Metadata (rep r))) = None"
  shows "\<exists>m' resp la x. run (ServeHTTP e (memStore order) ent p) m = Some (m', resp) \<and> re_Status resp = 200
    \<and> aggregateAll c (AggregateInit c) (map lout [0..<R]) = Inr la
    \<and> Unshard c [la, [x]] R = Some (Inr (\<Sum>r<R. meas r))
    \<and> (\<forall>ent' q m'' resp'. rq_Method q = ''PUT'' \<and> parseAggregateSharePath (rq_Path q) = Some (t_TaskID task)
         \<and> run (ServeHTTP e (memStore order) ent' q) m' = Some (m'', resp') \<and> re_Status resp' = 200 \<longrightarrow>
         m'' = m' \<and> share_opens e task q resp' x)"
proof (rule honest_batch_stored [OF assms, where ent = ent], goal_cases)
  case (1 m' resp la)
  have "m'' = m' \<and> share_opens e task q resp' (aggregateOf (counted (JobsForTask order m' (t_TaskID task))))"
    if q: "rq_Method q = ''PUT''" "parseAggregateSharePath (rq_Path q) = Some (t_TaskID task)"
      "run (ServeHTTP e (memStore order) ent' q) m' = Some (m'', resp')" "re_Status resp' = 200" for ent' q m'' resp'
    by (rule aggregate_share_opens [OF laws(2) store(1) 1(3) q(3) [unfolded ServeHTTP_share [OF q(1,2)]] q(4)])
      (use 1(4) in auto)
  with 1 show ?thesis by blast
qed

lemma sample_init_reachable: "reachable sampleEnv (memStore keyOrder) (NewMemStore [sampleTask]) (sampleStore, [])"
  unfolding sampleStore_def by (rule reachable.init)

theorem protocol_end_to_end_witness:
  "\<exists>rep lout payload body m' resp la x. Report sampleEnv sampleMatrix sampleReader 1 7205 = Some (Inr rep)
    \<and> leaderStep sampleEnv sampleMatrix [5] sampleCount sampleKey rep lout payload
    \<and> run (ServeHTTP sampleEnv (memStore keyOrder) (\<lambda>_. 0) (postRequest body)) sampleStore = Some (m', resp) \<and> re_Status resp = 200
    \<and> aggregateAll sampleCount (AggregateInit sampleCount) [lout] = Inr la
    \<and> Unshard sampleCount [la, [x]] 1 = Some (Inr 1)"
proof -
  obtain rep lout payload x ob body where rep: "Report sampleEnv sampleMatrix sampleReader 1 7205 = Some (Inr rep)"
    and "rp_Metadata rep = sampleMeta" and l: "leaderStep sampleEnv sampleMatrix [5] sampleCount sampleKey rep lout payload"
    and "\<And>ord. aggregateInit sampleEnv sampleTask sampleKey VariantDraft18 (verifyInitOf rep payload) ord
      = Some (finishedAgg (md_ReportID (rp_Metadata rep)) ord x ob)"
    and req: "batchRequest sampleEnv sampleTask sampleKey [verifyInitOf rep payload] (postRequest body) body (sampleInit [verifyInitOf rep payload])"
    and "reportIDs (sampleInit [verifyInitOf rep payload]) = [md_ReportID sampleMeta]"
  proof -
    show thesis by (rule sample_batch) (rule that)
  qed
  have batch: "honestBatch sampleEnv sampleMatrix [5] sampleCount sampleKey 1 (\<lambda>_. 1) (\<lambda>_. rep) (\<lambda>_. lout) (\<lambda>_. payload)"
    unfolding honestBatch_def using rep l sample_query by blast
  have "batchRequest sampleEnv sampleTask sampleKey (map (\<lambda>r. verifyInitOf rep payload) [0..<1]) (postRequest body) body
      (sampleInit [verifyInitOf rep payload])" using req by simp
  from protocol_end_to_end [OF sampleEnv_laws ranges_keyOrder sample_init_reachable sampleStore(2) sample_enrolled sampleTask_keys
      sampleCount batch this, where ent = "\<lambda>_. 0"]
  obtain m' resp la x where "run (ServeHTTP sampleEnv (memStore keyOrder) (\<lambda>_. 0) (postRequest body)) sampleStore = Some (m', resp)"
    "re_Status resp = 200" "aggregateAll sampleCount (AggregateInit sampleCount) [lout] = Inr la"
    "Unshard sampleCount [la, [x]] 1 = Some (Inr 1)"
    by (auto simp: GetJob_def sampleStore)
  with rep l show ?thesis by blast
qed

theorem replay_protection_witness:
  "\<exists>m ts. reachable sampleEnv (memStore keyOrder) (NewMemStore [sampleTask]) (m, ts)
    \<and> length (counted (JobsForTask keyOrder m (replicate 32 1))) = 1
    \<and> distinct (map ra_ReportID (counted (JobsForTask keyOrder m (replicate 32 1))))"
proof -
  obtain body m resp where one: "length (counted (JobsForTask keyOrder m (replicate 32 1))) = 1"
    and r: "reachable sampleEnv (memStore keyOrder) (NewMemStore [sampleTask]) (m, [Return resp])"
    using sample_run [of "\<lambda>_. 0"] by metis
  from replay_protection [OF sampleEnv_laws(3) ranges_keyOrder r] one r show ?thesis by blast
qed

text \<open>
  C9. The aggregate share the helper answers with, in every reachable state: it opens under the
  collector's key and the associated data of the request to the encoding of one field element,
  the sum of the output shares of the reports the task has counted, each report ID once;
  answering changes nothing in the store.
\<close>

theorem aggregate_share_correct:
  assumes "field_xof (e_xp e)" and "circl_laws (e_cl e)" and "ranges order"
    and "reachable e (memStore order) (NewMemStore tasks) (m, ts)"
    and "run (handleAggregateShare e (memStore order) ent r t) m = Some (m', resp)" and "re_Status resp = 200"
  shows "m' = m \<and> (\<exists>task x. GetTask m t = Some task \<and> t_TaskID task = t \<and> share_opens e task r resp x
    \<and> DecodeVec (EncodeVec [x]) = Inr [x]
    \<and> gfe x = (\<Sum>ra\<leftarrow>counted (JobsForTask order m t). contribution ra)
    \<and> distinct (map ra_ReportID (counted (JobsForTask order m t))))"
proof -
  note inv = reachable_inv [OF assms(1,3,4)]
  let ?x = "aggregateOf (counted (JobsForTask order m t))"
  have x: "DecodeVec (EncodeVec [?x]) = Inr [?x]" "gfe ?x = (\<Sum>ra\<leftarrow>counted (JobsForTask order m t). contribution ra)"
    using aggregateOf_value DecodeVec_EncodeVec [of "[?x]"] by simp_all
  have once: "distinct (map ra_ReportID (counted (JobsForTask order m t)))"
    using store_contract.counted_distinct [OF memStore_contract [OF assms(3)] inv, of t] by (simp add: memStore_def)
  show ?thesis
    by (rule aggregate_share_opens [OF assms(2,3) inv assms(5,6)]) (use x once in blast)
qed

lemma sample_collect:
  obtains m ts body resp where "reachable sampleEnv (memStore keyOrder) (NewMemStore [sampleTask]) (m, ts)"
    and "run (handleAggregateShare sampleEnv (memStore keyOrder) (\<lambda>_. 0) (putRequest body) (replicate 32 1)) m = Some (m, resp)"
    and "re_Status resp = 200" and "GetTask m (replicate 32 1) = Some sampleTask"
proof -
  obtain body m resp where one: "length (counted (JobsForTask keyOrder m (replicate 32 1))) = 1"
    and t: "GetTask m (replicate 32 1) = Some sampleTask"
    and r: "reachable sampleEnv (memStore keyOrder) (NewMemStore [sampleTask]) (m, [Return resp])"
    using sample_run [of "\<lambda>_. 0"] by metis
  have "counted (JobsForTask keyOrder m (replicate 32 1)) \<noteq> []" using one by auto
  from sample_share [OF reachable_inv [OF sampleEnv_laws(3) ranges_keyOrder r] t this] that [OF r] t show thesis by metis
qed

theorem aggregate_share_correct_witness:
  "\<exists>m body resp ct aad bs x. run (handleAggregateShare sampleEnv (memStore keyOrder) (\<lambda>_. 0) (putRequest body) (replicate 32 1)) m
        = Some (m, resp)
    \<and> marshal (e_cb sampleEnv) (total (AggregateShare_Marshal (e_cb sampleEnv))) ct = Inr bs \<and> re_Body resp = Message bs
    \<and> Open (e_cl sampleEnv) sampleSuite [7] (aggregateShareInfo VariantDraft18) (ct_Enc ct) aad (ct_Payload ct) = Inr (EncodeVec [x])
    \<and> gfe x = (\<Sum>ra\<leftarrow>counted (JobsForTask keyOrder m (replicate 32 1)). contribution ra)"
proof -
  obtain m ts body resp where r: "reachable sampleEnv (memStore keyOrder) (NewMemStore [sampleTask]) (m, ts)"
    and run: "run (handleAggregateShare sampleEnv (memStore keyOrder) (\<lambda>_. 0) (putRequest body) (replicate 32 1)) m = Some (m, resp)"
    and ok: "re_Status resp = 200" and task: "GetTask m (replicate 32 1) = Some sampleTask" by (rule sample_collect)
  have "t_CollectorHPKESuite sampleTask = sampleSuite" "t_CollectorHPKEPublicKey sampleTask = [7]" "t_Variant sampleTask = VariantDraft18"
    by (simp_all add: sampleTask_def)
  with aggregate_share_correct [OF sampleEnv_laws(3,2) ranges_keyOrder r run ok] run task sample_keys [of 7]
  show ?thesis unfolding share_opens_def by (metis option.inject)
qed

text \<open>
  C34. The aggregate share does not depend on the order in which Go ranges over the store's map
  of jobs: in every reachable state any two orders give the same response.
\<close>

theorem aggregate_order_independent:
  assumes "field_xof (e_xp e)" and "ranges order" and "ranges order'"
    and "reachable e (memStore order) (NewMemStore tasks) (m, ts)"
  shows "run (handleAggregateShare e (memStore order) ent r t) m
    = run (handleAggregateShare e (memStore order') ent r t) m"
proof -
  note inv = reachable_inv [OF assms(1,2,4)]
  have wf: "mem_wf m" using inv by (simp add: store_contract.inv_def [OF memStore_contract [OF assms(2)]])
  have "mset (JobsForTask order m t) = mset (JobsForTask order' m t)" for t
    using JobsForTask_mset [OF assms(2) wf] JobsForTask_mset [OF assms(3) wf] by simp
  note eq = counted_mset [OF this]
  have nil: "counted (JobsForTask order m t) = [] \<longleftrightarrow> counted (JobsForTask order' m t) = []" for t
    using eq [of t] by (metis mset_zero_iff)
  have "sumOutShares None (concat (map aj_ReportAggs (JobsForTask order m t)))
      = sumOutShares None (concat (map aj_ReportAggs (JobsForTask order' m t)))" for t
    unfolding sumOutShares_value [OF jobs_ok [OF assms(2) inv]] sumOutShares_value [OF jobs_ok [OF assms(3) inv]]
    using aggregateOf_mset [OF eq] nil by simp
  then show ?thesis by (simp add: handleAggregateShare_def memStore_def split: option.split sum.split)
qed

theorem aggregate_order_independent_witness:
  "\<exists>m body resp. run (handleAggregateShare sampleEnv (memStore (\<lambda>js. rev (keyOrder js))) (\<lambda>_. 0) (putRequest body) (replicate 32 1)) m
      = Some (m, resp) \<and> re_Status resp = 200"
proof -
  obtain m ts body resp where r: "reachable sampleEnv (memStore keyOrder) (NewMemStore [sampleTask]) (m, ts)"
    and run: "run (handleAggregateShare sampleEnv (memStore keyOrder) (\<lambda>_. 0) (putRequest body) (replicate 32 1)) m = Some (m, resp)"
    and ok: "re_Status resp = 200" and "GetTask m (replicate 32 1) = Some sampleTask" by (rule sample_collect)
  have "ranges (\<lambda>js. rev (keyOrder js))" using ranges_keyOrder by (simp add: ranges_def)
  from aggregate_order_independent [OF sampleEnv_laws(3) ranges_keyOrder this r] run ok show ?thesis by metis
qed

text \<open>
  C13. Retries are idempotent: a request repeated right after its answer, in any reachable
  state and with fresh randomness, leaves the store as it is and gets the same answer again.
  The one request that draws randomness is a PUT on an aggregate share: its two answers are
  equal, or each is a sealed share (200) or a 500, and sealed shares open to the same value
  under the collector's key (by the laws assumed of circl).
\<close>

theorem retry_idempotent:
  assumes "field_xof (e_xp e)" and "circl_laws (e_cl e)" and "ranges order"
    and "reachable e (memStore order) (NewMemStore tasks) (m, ts)"
    and "run (ServeHTTP e (memStore order) ent r) m = Some (m', resp)"
  shows "\<exists>resp'. run (ServeHTTP e (memStore order) ent' r) m' = Some (m', resp')
    \<and> (case sharePut r of
         None \<Rightarrow> resp' = resp
       | Some t \<Rightarrow> (resp' = resp \<or> re_Status resp \<in> {200, 500} \<and> re_Status resp' \<in> {200, 500})
           \<and> (\<exists>task x. (re_Status resp = 200 \<longrightarrow> GetTask m t = Some task \<and> share_opens e task r resp x)
                \<and> (re_Status resp' = 200 \<longrightarrow> GetTask m t = Some task \<and> share_opens e task r resp' x)))"
proof (cases "sharePut r")
  case None
  note settled = settles_ServeHTTP [OF reachable_under_key [OF assms(1,3,4)] None, where e = e]
  have "run (ServeHTTP e (memStore order) ent r) m' = Some (m', resp)"
    using settled(1) [of order ent] assms(5) unfolding settles_def by blast
  with None settled(2) [of "memStore order" ent ent'] show ?thesis by simp
next
  case (Some t)
  then have put: "rq_Method r = ''PUT''" "parseAggregateSharePath (rq_Path r) = Some t"
    by (simp_all add: sharePut_def split: if_splits)
  note run = assms(5) [unfolded ServeHTTP_share [OF put]] and inv = reachable_inv [OF assms(1,3,4)]
  obtain resp' where m': "m' = m" and run': "run (handleAggregateShare e (memStore order) ent' r t) m = Some (m, resp')"
    and same: "resp' = resp \<or> re_Status resp \<in> {200, 500} \<and> re_Status resp' \<in> {200, 500}"
    using share_again [OF run, of ent'] by blast
  let ?x = "aggregateOf (counted (JobsForTask order m t))"
  have opens: "\<exists>task. GetTask m t = Some task \<and> share_opens e task r y ?x"
    if "run (handleAggregateShare e (memStore order) en r t) m = Some (m, y)" "re_Status y = 200" for en y
    by (rule aggregate_share_opens [OF assms(2,3) inv that]) blast
  have "\<exists>task. (re_Status resp = 200 \<longrightarrow> GetTask m t = Some task \<and> share_opens e task r resp ?x)
      \<and> (re_Status resp' = 200 \<longrightarrow> GetTask m t = Some task \<and> share_opens e task r resp' ?x)"
    using opens [OF run [unfolded m']] opens [OF run'] by (metis option.inject)
  with Some same run' show ?thesis unfolding ServeHTTP_share [OF put] m' by auto
qed

theorem retry_idempotent_witness:
  "\<exists>body m resp. run (ServeHTTP sampleEnv (memStore keyOrder) (\<lambda>_. 0) (postRequest body)) sampleStore = Some (m, resp)
    \<and> m \<noteq> sampleStore \<and> run (ServeHTTP sampleEnv (memStore keyOrder) (\<lambda>_. 5) (postRequest body)) m = Some (m, resp)"
proof -
  obtain body m resp where run: "run (ServeHTTP sampleEnv (memStore keyOrder) (\<lambda>_. 0) (postRequest body)) sampleStore = Some (m, resp)"
    and one: "length (counted (JobsForTask keyOrder m (replicate 32 1))) = 1"
    using sample_run [of "\<lambda>_. 0"] by metis
  have "JobsForTask keyOrder sampleStore (replicate 32 1) = []"
    by (simp add: JobsForTask_def keyOrder_def sampleStore List.map_filter_simps)
  then have "m \<noteq> sampleStore" using one by (auto simp: counted_def)
  moreover have "sharePut (postRequest body) = None" by (simp add: sharePut_def postRequest_def)
  ultimately show ?thesis
    using run retry_idempotent [OF sampleEnv_laws(3,2) ranges_keyOrder sample_init_reachable run, of "\<lambda>_. 5"] by auto
qed

text \<open>
  C16. The stored state is well-formed under every interleaving: every task and job lies under
  its own key, and in every job the response lists, in order, the responses recorded in its
  report rows, each as recorded or, once it has been written to the wire, with the response's
  variant; a finished row has an output share of one canonical element and a continue response,
  a failed row has no output share and a reject response with the row's own non-zero reason,
  and the rows are numbered in order.
\<close>

theorem stored_jobs_typed:
  assumes "field_xof (e_xp e)" and "ranges order" and "reachable e (memStore order) (NewMemStore tasks) (m, ts)"
  shows "finite (dom (ms_jobs m)) \<and> (\<forall>t task. GetTask m t = Some task \<longrightarrow> t_TaskID task = t)
    \<and> (\<forall>t j job. GetJob m t j = Some job \<longrightarrow> aj_TaskID job = t \<and> aj_AggregationJobID job = j \<and> job_ok job)"
  using reachable_inv [OF assms]
  by (auto simp: store_contract.inv_def [OF memStore_contract [OF assms(2)]] mem_wf_def GetTask_def GetJob_def
      key_of_def accounted_def)

theorem stored_jobs_typed_witness:
  "\<exists>m ts t j job. reachable sampleEnv (memStore keyOrder) (NewMemStore [sampleTask]) (m, ts)
    \<and> GetJob m t j = Some job \<and> aj_ReportAggs job \<noteq> [] \<and> job_ok job"
proof -
  obtain body m resp where one: "length (counted (JobsForTask keyOrder m (replicate 32 1))) = 1"
    and r: "reachable sampleEnv (memStore keyOrder) (NewMemStore [sampleTask]) (m, [Return resp])"
    using sample_run [of "\<lambda>_. 0"] by metis
  have "\<exists>job\<in>set (JobsForTask keyOrder m (replicate 32 1)). aj_ReportAggs job \<noteq> []"
  proof (rule ccontr)
    assume "\<not> ?thesis"
    then have "counted (JobsForTask keyOrder m (replicate 32 1)) = []" by (simp add: counted_def)
    with one show False by simp
  qed
  then obtain j job where "GetJob m (replicate 32 1) j = Some job" "aj_ReportAggs job \<noteq> []"
    by (fastforce simp: JobsForTask_def List.map_filter_def GetJob_def split: if_splits)
  with stored_jobs_typed [OF sampleEnv_laws(3) ranges_keyOrder r] r show ?thesis by blast
qed

text \<open>
  C40. The time of a report is a multiple of the task's time precision, never ahead of the
  client's clock and less than one precision behind it, a clock before the epoch counting as
  the epoch and no precision as one second.
\<close>

theorem report_time_bounds:
  assumes "Report e t rnd meas now = Some (Inr rep)"
  shows "let p = unat (tc_TimePrecision (mt_Config t)); clock = nat (sint now); T = unat (md_Time (rp_Metadata rep))
    in T \<le> clock \<and> clock < T + max 1 p \<and> T mod max 1 p = 0"
proof -
  have "md_Time (rp_Metadata rep) = Task_truncate t now"
    using Report_Inr [OF assms] by (metis report_metadata.select_convs(2))
  moreover have "n < n div p * p + max 1 p" if "p \<noteq> 0" for n p :: nat
    using div_mult_mod_eq [of n p] mod_less_divisor [of p n] that by linarith
  ultimately show ?thesis by (simp add: Task_truncate_value Let_def max_def)
qed

theorem report_time_bounds_witness:
  "\<exists>rep. Report sampleEnv sampleMatrix sampleReader 1 7205 = Some (Inr rep)
    \<and> unat (md_Time (rp_Metadata rep)) \<le> 7205 \<and> unat (md_Time (rp_Metadata rep)) mod 3600 = 0"
proof -
  obtain rep where rep: "Report sampleEnv sampleMatrix sampleReader 1 7205 = Some (Inr rep)" by (rule sample_report)
  from report_time_bounds [OF this] rep show ?thesis by (simp add: sampleMatrix_def sample_tc_def Let_def)
qed

text \<open>
  C14. Every request is answered: when the XOF returns, no request, malformed or hostile, makes
  the handler panic or run forever, on any store, and the answer is reached by the server's own
  steps.
\<close>

theorem requests_answered:
  assumes "field_xof (e_xp e)" and "returns (e_xp e)" and "reachable e st s0 (s, ts)"
  shows "\<exists>s' resp. run (ServeHTTP e st ent r) s = Some (s', resp)
    \<and> reachable e st s0 (s', ts @ [Return resp])"
proof -
  obtain s' resp where "run (ServeHTTP e st ent r) s = Some (s', resp)"
    using ServeHTTP_returns [OF assms(1,2), of st ent r s] by (auto simp: halts_def)
  moreover have "reachable e st s0 (s, ts @ [ServeHTTP e st ent r])"
    using assms(3) by (rule reachable.step) (rule sys_step.request)
  ultimately show ?thesis using run_steps by metis
qed

theorem requests_answered_witness:
  "\<exists>m resp. run (ServeHTTP sampleEnv (memStore keyOrder) (\<lambda>_. 0) (postRequest [1, 2, 3])) sampleStore = Some (m, resp)"
  using requests_answered [OF sampleEnv_laws(3,4) sample_init_reachable] by blast

text \<open>
  C12. No step of the server releases or reassigns a claim of a report. A stored job is after
  any step the same or deleted, or it has been answered with: then elements of its response
  have taken the response's variant, nothing else in it has changed, and it answers with the
  same bytes as before.
\<close>

theorem jobs_immutable:
  assumes "field_xof (e_xp e)" and "ranges order" and "reachable e (memStore order) (NewMemStore tasks) (m, ts)"
    and "sys_step e (memStore order) (m, ts) (m', ts')"
  shows "ms_claims m \<subseteq>\<^sub>m ms_claims m'
    \<and> (\<forall>k job. ms_jobs m k = Some job \<longrightarrow> ms_jobs m' k = Some job \<or> ms_jobs m' k = None
         \<or> (\<exists>rs job'. ms_jobs m' k = Some job'
              \<and> job' = job\<lparr>aj_Response := (aj_Response job)\<lparr>arr_VerifyResps := rs\<rparr>\<rparr>
              \<and> list_all2 (\<lambda>r r'. r' = r \<or> r' = r\<lparr>vr_Variant := arr_Variant (aj_Response job)\<rparr>)
                  (arr_VerifyResps (aj_Response job)) rs
              \<and> respMessage (e_cb e) (fst k) (snd k) (aj_Response job') 200
                = respMessage (e_cb e) (fst k) (snd k) (aj_Response job) 200))"
proof -
  note sc = memStore_contract [OF assms(2)]
  have "mem_inv (NewMemStore tasks)" by (simp add: store_contract.inv_def [OF sc] NewMemStore_tasks)
  note safe = store_contract.reachable_safe [OF sc assms(1) this assms(3)]
  have "mem.evolves m m'"
    using store_contract.step_safe [OF sc assms(1) conjunct1 [OF safe] conjunct2 [OF safe] assms(4)] by blast
  then have kept: "mem.kept m m'" by (rule mem.evolves_kept)
  show ?thesis
  proof (intro conjI allI impI)
    show "ms_claims m \<subseteq>\<^sub>m ms_claims m'" using kept unfolding mem.kept_def by blast
    fix k job assume job: "ms_jobs m k = Some job"
    consider "ms_jobs m' k = Some job" | "ms_jobs m' k = None" | job' where "ms_jobs m' k = Some job'" "marks job job'"
      using kept [unfolded mem.kept_def, THEN conjunct2, rule_format, OF job] by (elim disjE exE conjE)
    then show "ms_jobs m' k = Some job \<or> ms_jobs m' k = None
        \<or> (\<exists>rs job'. ms_jobs m' k = Some job'
             \<and> job' = job\<lparr>aj_Response := (aj_Response job)\<lparr>arr_VerifyResps := rs\<rparr>\<rparr>
             \<and> list_all2 (\<lambda>r r'. r' = r \<or> r' = r\<lparr>vr_Variant := arr_Variant (aj_Response job)\<rparr>)
                 (arr_VerifyResps (aj_Response job)) rs
             \<and> respMessage (e_cb e) (fst k) (snd k) (aj_Response job') 200
               = respMessage (e_cb e) (fst k) (snd k) (aj_Response job) 200)"
    proof cases
      case (3 job')
      obtain rs where rs: "list_all2 (\<lambda>r r'. r' = r \<or> r' = r\<lparr>vr_Variant := arr_Variant (aj_Response job)\<rparr>)
          (arr_VerifyResps (aj_Response job)) rs"
        "job' = job\<lparr>aj_Response := (aj_Response job)\<lparr>arr_VerifyResps := rs\<rparr>\<rparr>"
        using 3(2) unfolding marks_def by blast
      show ?thesis
        by (intro disjI2 exI [of _ rs] exI [of _ job'] conjI) (fact 3(1) rs marks_respMessage [OF 3(2)])+
    qed simp_all
  qed
qed

theorem jobs_immutable_witness:
  "\<exists>m ts m' ts' k job. sys_step sampleEnv (memStore keyOrder) (m, ts) (m', ts') \<and> ms_jobs m k = Some job
    \<and> ms_claims m \<subseteq>\<^sub>m ms_claims m' \<and> (ms_jobs m' k = None \<or> (\<exists>job'. ms_jobs m' k = Some job' \<and> aj_ReportAggs job' = aj_ReportAggs job))"
proof -
  obtain body m resp where one: "length (counted (JobsForTask keyOrder m (replicate 32 1))) = 1"
    and r: "reachable sampleEnv (memStore keyOrder) (NewMemStore [sampleTask]) (m, [Return resp])"
    using sample_run [of "\<lambda>_. 0"] by metis
  have "ms_jobs m \<noteq> Map.empty"
    using one by (auto simp: JobsForTask_def keyOrder_def counted_def List.map_filter_simps)
  then obtain k job where k: "ms_jobs m k = Some job" by fastforce
  have step: "sys_step sampleEnv (memStore keyOrder) (m, [Return resp]) (st_AddTask (memStore keyOrder) m sampleTask, [Return resp])"
    by (rule sys_step.add_task)
  note kept = jobs_immutable [OF sampleEnv_laws(3) ranges_keyOrder r step]
  then have "ms_jobs (st_AddTask (memStore keyOrder) m sampleTask) k = None
      \<or> (\<exists>job'. ms_jobs (st_AddTask (memStore keyOrder) m sampleTask) k = Some job' \<and> aj_ReportAggs job' = aj_ReportAggs job)"
    using k by fastforce
  with kept step k show ?thesis by blast
qed

text \<open>
  C11. The response to a new aggregation job is always encodable and decodes to one outcome per
  report in the request's order; a report is continued exactly when the stored job has finished
  it, is otherwise rejected with a reason of the helper's own list, and is rejected as replayed
  whenever another job has claimed it.
\<close>

theorem create_response:
  assumes "cryptobyte_laws (e_cb e)" and "field_xof (e_xp e)" and "returns (e_xp e)" and "ranges order"
    and "reachable e (memStore order) (NewMemStore tasks) (m, ts)"
    and "GetTask m t = Some task" and "readBody r = Some body"
    and "unmarshalAll (AggregationJobInitReq_Unmarshal (e_cb e) (t_Variant task)) body = Inr req"
    and "t_VerifyKeys task (air_VerificationKeyID req) = Some vk"
    and "validateExtensions task (air_Extensions req) = None" and "air_AggParam req = []" and "distinct (reportIDs req)"
    and "GetJob m t (take JobIDSize (hashBody body)) = None"
  shows "\<exists>m' bs job a. run (handleCreate e (memStore order) r t) m
        = Some (m', \<lparr>re_Status = 200, re_Headers = [(''Location'', resourcePath t (take JobIDSize (hashBody body))),
            (''Content-Type'', mediaResp)], re_Body = Message bs\<rparr>)
      \<and> unmarshalAll (AggregationJobResp_Unmarshal (e_cb e) (t_Variant task)) bs = Inr a
      \<and> GetJob m' t (take JobIDSize (hashBody body)) = Some job
      \<and> map vr_ReportID (arr_VerifyResps a) = reportIDs req \<and> map ra_ReportID (aj_ReportAggs job) = reportIDs req
      \<and> (\<forall>i<length (reportIDs req).
          (vr_Type (arr_VerifyResps a ! i) = VerifyRespContinue \<longleftrightarrow> ra_State (aj_ReportAggs job ! i) = StateFinished)
        \<and> (vr_Type (arr_VerifyResps a ! i) \<noteq> VerifyRespContinue \<longrightarrow>
             vr_Type (arr_VerifyResps a ! i) = VerifyRespReject \<and> vr_Error (arr_VerifyResps a ! i) \<in> reject_reasons)
        \<and> ((\<exists>j. ms_claims m (t, reportIDs req ! i) = Some j \<and> j \<noteq> take JobIDSize (hashBody body)) \<longrightarrow>
             vr_Type (arr_VerifyResps a ! i) = VerifyRespReject
           \<and> vr_Error (arr_VerifyResps a ! i) = ReportErrorReportReplayed))"
proof -
  define j where "j = take JobIDSize (hashBody body)"
  let ?v = "t_Variant task" and ?replayed = "{r \<in> set (reportIDs req). \<exists>i. ms_claims m (t, r) = Some i \<and> i \<noteq> j}"
  have tid: "t_TaskID task = t"
    using reachable_inv [OF assms(2,4,5)] assms(6)
    by (simp add: store_contract.inv_def [OF memStore_contract [OF assms(4)]] GetTask_def)
  note len = readBody_length [OF assms(7)]
  obtain m' bs job where run: "run (initJob e (memStore order) t task vk ?v j req (hashBody body)) m
      = Some (m', \<lparr>re_Status = 200, re_Headers = [(''Location'', resourcePath t j), (''Content-Type'', mediaResp)], re_Body = Message bs\<rparr>)"
    and m': "ms_jobs m' = (ms_jobs m)((t, j) \<mapsto> markJob (e_cb e) job)"
    and job: "buildInitJob e task vk ?v j req (hashBody body) ?replayed = Some job"
    and dec: "unmarshalAll (AggregationJobResp_Unmarshal (e_cb e) ?v) bs = Inr (setVariants (aj_Response job))"
    using assms(13) by (auto simp: GetJob_def j_def [symmetric] intro: initJob_fresh [OF assms(1-3) tid _ assms(8) len])
  have "list_all2 (outcome ?v ?replayed) (reportIDs req) (zip (arr_VerifyResps (aj_Response job)) (aj_ReportAggs job))"
    and "length (arr_VerifyResps (aj_Response job)) = length (aj_ReportAggs job)"
    by (rule job_outcomes [OF assms(1,2,8) len job]; assumption)+
  note ans = job_answers [OF this]
  have eq: "run (handleCreate e (memStore order) r t) m = run (initJob e (memStore order) t task vk ?v j req (hashBody body)) m"
    using assms(6-12) by (simp add: handleCreate_def memStore_def GetTask_def Let_def hasDuplicateReportIDs_iff j_def)
  have outs: "\<forall>i<length (reportIDs req). answered {r. \<exists>j'. ms_claims m (t, r) = Some j' \<and> j' \<noteq> j}
      (setVariants (aj_Response job)) job (reportIDs req ! i) i"
  proof (intro allI impI)
    fix i assume i: "i < length (reportIDs req)"
    then have "reportIDs req ! i \<in> ?replayed \<longleftrightarrow> reportIDs req ! i \<in> {r. \<exists>j'. ms_claims m (t, r) = Some j' \<and> j' \<noteq> j}" by simp
    from answered_cong [OF ans(2) [rule_format, OF i] this]
    show "answered {r. \<exists>j'. ms_claims m (t, r) = Some j' \<and> j' \<noteq> j}
        (setVariants (aj_Response job)) job (reportIDs req ! i) i" .
  qed
  have stored: "GetJob m' t j = Some (markJob (e_cb e) job)" using m' by (simp add: GetJob_def)
  have ras: "map ra_ReportID (aj_ReportAggs (markJob (e_cb e) job)) = reportIDs req"
    using buildInitJob_facts(2) [OF assms(2) job] by simp
  have "answered R a (markJob (e_cb e) job) r i = answered R a job r i" for R a r i by (simp add: answered_def)
  note outs = outs [folded this]
  show ?thesis
    unfolding j_def [symmetric] eq
    by (intro exI [of _ m'] exI [of _ bs] exI [of _ "markJob (e_cb e) job"] exI [of _ "setVariants (aj_Response job)"] conjI)
      (fact run dec stored ans(1) ras outs [unfolded answered_def Let_def mem_Collect_eq])+
qed

theorem create_response_witness:
  "\<exists>body m resp bs a. run (handleCreate sampleEnv (memStore keyOrder) (postRequest body) (replicate 32 1)) sampleStore = Some (m, resp)
    \<and> re_Body resp = Message bs
    \<and> unmarshalAll (AggregationJobResp_Unmarshal (e_cb sampleEnv) VariantDraft18) bs = Inr a
    \<and> map vr_ReportID (arr_VerifyResps a) = [replicate 16 0]"
proof -
  obtain rep lout payload x ob body where "Report sampleEnv sampleMatrix sampleReader 1 7205 = Some (Inr rep)"
    and "rp_Metadata rep = sampleMeta" and "leaderStep sampleEnv sampleMatrix [5] sampleCount sampleKey rep lout payload"
    and "\<And>ord. aggregateInit sampleEnv sampleTask sampleKey VariantDraft18 (verifyInitOf rep payload) ord
      = Some (finishedAgg (md_ReportID (rp_Metadata rep)) ord x ob)"
    and req: "batchRequest sampleEnv sampleTask sampleKey [verifyInitOf rep payload] (postRequest body) body (sampleInit [verifyInitOf rep payload])"
    and ids: "reportIDs (sampleInit [verifyInitOf rep payload]) = [md_ReportID sampleMeta]"
  proof -
    show thesis by (rule sample_batch) (rule that)
  qed
  have h: "readBody (postRequest body) = Some body"
    "unmarshalAll (AggregationJobInitReq_Unmarshal (e_cb sampleEnv) (t_Variant sampleTask)) body = Inr (sampleInit [verifyInitOf rep payload])"
    "t_VerifyKeys sampleTask (air_VerificationKeyID (sampleInit [verifyInitOf rep payload])) = Some sampleKey"
    "validateExtensions sampleTask (air_Extensions (sampleInit [verifyInitOf rep payload])) = None"
    "air_AggParam (sampleInit [verifyInitOf rep payload]) = []"
    using req by (simp_all add: batchRequest_def)
  have d: "distinct (reportIDs (sampleInit [verifyInitOf rep payload]))"
    "GetJob sampleStore (replicate 32 1) (take JobIDSize (hashBody body)) = None"
    "t_Variant sampleTask = VariantDraft18" "md_ReportID sampleMeta = replicate 16 0"
    by (simp_all add: ids GetJob_def sampleStore sampleTask_def sampleMeta_def)
  from create_response [OF sampleEnv_laws(1,3,4) ranges_keyOrder sample_init_reachable sampleStore(2) [unfolded sampleStore(5)] h d(1,2)]
  show ?thesis unfolding ids d(3,4) by (metis http_response.select_convs(3))
qed

end
