(* ===== verification/DapHelper.thy ===== *)
theory DapHelper
  imports Honest Handler
begin

text \<open>
  \<^verbatim>\<open>cmd/dap-helper/main.go\<close>: the interop server around the helper. \<open>startServer\<close> is \<open>main\<close> up to
  the server value; the other definitions are its handlers. The listener, its timeouts, the
  request log and the dispatch of \<^verbatim>\<open>http.ServeMux\<close> are not modelled.

  JSON decoding is a parameter: what \<^verbatim>\<open>encoding/json\<close> makes of a request body and of the nested
  \<^verbatim>\<open>vdaf\<close> value. A reply keeps the value the code encodes. Strings are their bytes.
\<close>

subsection \<open>The server\<close>

definition helperHpkeConfigID :: hpke_config_id where "helperHpkeConfigID = 1"

definition kemX25519HkdfSha256 :: "16 word" where "kemX25519HkdfSha256 = 0x0020"
definition kdfHkdfSha256 :: "16 word" where "kdfHkdfSha256 = 0x0001"
definition aeadAes128Gcm :: "16 word" where "aeadAes128Gcm = 0x0001"

definition smokeSuite :: "'o circl \<Rightarrow> suite" where
  "smokeSuite cl = \<lparr>s_KEM = KEM_X25519_HKDF_SHA256 cl, s_KDF = KDF_HKDF_SHA256 cl, s_AEAD = AEAD_AES128GCM cl\<rparr>"

definition hpkeConfigListMediaType :: string where
  "hpkeConfigListMediaType = ''application/ppm-dap;message=hpke-config-list''"

record 's server =
  sv_store :: 's
  sv_hpkeConfigList :: bytes
  sv_hpkePublicKey :: bytes
  sv_hpkePrivateKey :: bytes

datatype start_error = GenerateError hpke_error | ConfigListError wire_error

definition publishedConfig :: "bytes \<Rightarrow> hpke_config" where
  "publishedConfig pub = \<lparr>hc_ID = helperHpkeConfigID, hc_KemID = kemX25519HkdfSha256, hc_KdfID = kdfHkdfSha256,
     hc_AeadID = aeadAes128Gcm, hc_PublicKey = pub\<rparr>"

definition startServer :: "('b, 'o) env \<Rightarrow> entropy \<Rightarrow> start_error + mem_store server" where
  "startServer e ent =
     (case GenerateKeyPair (e_cl e) ent (smokeSuite (e_cl e)) of
        Inl err \<Rightarrow> Inl (GenerateError err)
      | Inr (pub, priv) \<Rightarrow>
          (case marshal (e_cb e) (total (HpkeConfigList_Marshal (e_cb e))) [publishedConfig pub] of
             Inl err \<Rightarrow> Inl (ConfigListError err)
           | Inr listBytes \<Rightarrow> Inr \<lparr>sv_store = NewMemStore [], sv_hpkeConfigList = listBytes,
               sv_hpkePublicKey = pub, sv_hpkePrivateKey = priv\<rparr>))"

subsection \<open>Requests and replies\<close>

record add_task_request =
  at_TaskID :: string
  at_Leader :: string
  at_Helper :: string
  at_Vdaf :: bytes
  at_Role :: string
  at_VdafVerifyKey :: string
  at_BatchMode :: "8 word"
  at_MinBatchSize :: "64 word"
  at_TimePrecision :: "64 word"
  at_CollectorHpkeConfig :: string

record json_decoder =
  jd_AddTask :: "bytes option \<Rightarrow> string + add_task_request"
  jd_VdafType :: "bytes \<Rightarrow> string + string"

record add_task_response =
  atr_Status :: string
  atr_Error :: string

record endpoint_response =
  er_Status :: string
  er_Endpoint :: string

record 'v reply =
  rep_Status :: nat
  rep_Headers :: "(string \<times> string) list"
  rep_Body :: 'v

definition writeJSON :: "nat \<Rightarrow> 'v \<Rightarrow> 'v reply" where
  "writeJSON status v = \<lparr>rep_Status = status, rep_Headers = [(''Content-Type'', ''application/json'')], rep_Body = v\<rparr>"

definition handleReady :: "add_task_response reply" where
  "handleReady = writeJSON 200 \<lparr>atr_Status = ''success'', atr_Error = []\<rparr>"

definition handleEndpointForTask :: "endpoint_response reply" where
  "handleEndpointForTask = writeJSON 200 \<lparr>er_Status = ''success'', er_Endpoint = ''/''\<rparr>"

definition handleHpkeConfig :: "'s server \<Rightarrow> bytes reply" where
  "handleHpkeConfig sv = \<lparr>rep_Status = 200, rep_Headers = [(''Content-Type'', hpkeConfigListMediaType)],
     rep_Body = sv_hpkeConfigList sv\<rparr>"

subsection \<open>Registering a task\<close>

text \<open>\<^verbatim>\<open>strings.EqualFold\<close>, for a second argument whose letters fold to ASCII letters only, as those
  of \<^verbatim>\<open>"helper"\<close> do\<close>

definition toLower :: "char \<Rightarrow> char" where
  "toLower c = (let n = of_char c :: nat in if 65 \<le> n \<and> n \<le> 90 then char_of (n + 32) else c)"

definition EqualFold :: "string \<Rightarrow> string \<Rightarrow> bool" where
  "EqualFold s t \<longleftrightarrow> map toLower s = map toLower t"

text \<open>The interop API has no task info field; every binary binds this placeholder.\<close>

definition interopConfig :: "add_task_request \<Rightarrow> task_configuration" where
  "interopConfig req =
     \<lparr>tc_Variant = VariantDraft18, tc_TaskInfo = ascii ''task-info'', tc_LeaderEndpoint = ascii (at_Leader req),
      tc_HelperEndpoint = ascii (at_Helper req), tc_TimePrecision = at_TimePrecision req,
      tc_MinBatchSize = at_MinBatchSize req, tc_BatchMode = at_BatchMode req, tc_BatchConfig = [],
      tc_VdafType = VdafTypePrio3Count, tc_VdafConfiguration = [], tc_Extensions = []\<rparr>"

definition interopTask ::
  "'o circl \<Rightarrow> 's server \<Rightarrow> add_task_request \<Rightarrow> task_id \<Rightarrow> verify_key \<Rightarrow> hpke_config \<Rightarrow> suite \<Rightarrow> task" where
  "interopTask cl sv req taskID verifyKey collCfg collSuite =
     \<lparr>t_TaskID = taskID, t_Variant = VariantDraft18,
      t_TaskConfig = interopConfig req,
      t_VDAFContext = DAPVDAFContext taskID, t_VerifyKeys = [0 \<mapsto> verifyKey],
      t_HPKESuite = smokeSuite cl, t_HPKEConfigID = helperHpkeConfigID,
      t_HPKEPublicKey = sv_hpkePublicKey sv, t_HPKEPrivateKey = sv_hpkePrivateKey sv,
      t_CollectorHPKESuite = collSuite, t_CollectorHPKEConfigID = hc_ID collCfg,
      t_CollectorHPKEPublicKey = hc_PublicKey collCfg\<rparr>"

definition addTaskError :: "string \<Rightarrow> add_task_response reply" where
  "addTaskError msg = writeJSON 200 \<lparr>atr_Status = ''error'', atr_Error = msg\<rparr>"

definition handleAddTask ::
  "json_decoder \<Rightarrow> ('b, 'o) env \<Rightarrow> 's store \<Rightarrow> 's server \<Rightarrow> http_request \<Rightarrow> 's server \<times> add_task_response reply" where
  "handleAddTask jd e st sv r =
     (case jd_AddTask jd (rq_Body r) of
        Inl err \<Rightarrow> (sv, addTaskError (''malformed add_task body: '' @ err))
      | Inr req \<Rightarrow>
     if \<not> EqualFold (at_Role req) ''helper'' then
       (sv, addTaskError (''dap-go runs the Helper role only, got role='' @ at_Role req))
     else if jd_VdafType jd (at_Vdaf req) \<noteq> Inr ''Prio3Count'' then
       (sv, addTaskError ''only Prio3Count is supported'')
     else
     (case DecodeString (at_TaskID req) of
        None \<Rightarrow> (sv, addTaskError ''invalid task_id'')
      | Some taskID \<Rightarrow>
     if length taskID \<noteq> TaskIDSize then (sv, addTaskError ''invalid task_id'')
     else
     (case DecodeString (at_VdafVerifyKey req) of
        None \<Rightarrow> (sv, addTaskError ''invalid vdaf_verify_key'')
      | Some verifyKey \<Rightarrow>
     if length verifyKey \<noteq> VerifyKeySize then (sv, addTaskError ''unexpected vdaf_verify_key length'')
     else
     (case DecodeString (at_CollectorHpkeConfig req) of
        None \<Rightarrow> (sv, addTaskError ''invalid collector_hpke_config'')
      | Some collBytes \<Rightarrow>
     (case unmarshalAll (HpkeConfig_Unmarshal (e_cb e)) collBytes of
        Inl _ \<Rightarrow> (sv, addTaskError ''invalid collector_hpke_config'')
      | Inr collCfg \<Rightarrow>
     (let collSuite = \<lparr>s_KEM = hc_KemID collCfg, s_KDF = hc_KdfID collCfg, s_AEAD = hc_AeadID collCfg\<rparr> in
      if \<not> Suite_IsValid (e_cl e) collSuite then (sv, addTaskError ''unsupported collector HPKE suite'')
      else
        (sv\<lparr>sv_store := st_AddTask st (sv_store sv) (interopTask (e_cl e) sv req taskID verifyKey collCfg collSuite)\<rparr>,
         writeJSON 200 \<lparr>atr_Status = ''success'', atr_Error = []\<rparr>)))))))"

subsection \<open>What registration does\<close>

text \<open>The task a request asks for, when it asks for one this helper can serve.\<close>

definition requested :: "json_decoder \<Rightarrow> ('b, 'o) env \<Rightarrow> 's server \<Rightarrow> http_request \<Rightarrow> task \<Rightarrow> bool" where
  "requested jd e sv r task \<longleftrightarrow> (\<exists>req taskID verifyKey collBytes cfg.
     jd_AddTask jd (rq_Body r) = Inr req \<and> EqualFold (at_Role req) ''helper''
     \<and> jd_VdafType jd (at_Vdaf req) = Inr ''Prio3Count''
     \<and> DecodeString (at_TaskID req) = Some taskID \<and> length taskID = 32
     \<and> DecodeString (at_VdafVerifyKey req) = Some verifyKey \<and> length verifyKey = 32
     \<and> DecodeString (at_CollectorHpkeConfig req) = Some collBytes
     \<and> unmarshalAll (HpkeConfig_Unmarshal (e_cb e)) collBytes = Inr cfg
     \<and> Suite_IsValid (e_cl e) \<lparr>s_KEM = hc_KemID cfg, s_KDF = hc_KdfID cfg, s_AEAD = hc_AeadID cfg\<rparr>
     \<and> task = interopTask (e_cl e) sv req taskID verifyKey cfg
         \<lparr>s_KEM = hc_KemID cfg, s_KDF = hc_KdfID cfg, s_AEAD = hc_AeadID cfg\<rparr>)"

lemma addTaskError_simps [simp]:
  "rep_Status (addTaskError msg) = 200" "rep_Headers (addTaskError msg) = [(''Content-Type'', ''application/json'')]"
  "atr_Status (rep_Body (addTaskError msg)) = ''error''" "atr_Error (rep_Body (addTaskError msg)) = msg"
  by (simp_all add: addTaskError_def writeJSON_def)

lemma handleAddTask_cases:
  assumes "handleAddTask jd e st sv r = (sv', reply)"
  obtains (error) msg where "msg \<noteq> []" and "sv' = sv" and "reply = addTaskError msg"
      and "\<nexists>task. requested jd e sv r task"
  | (success) task where "requested jd e sv r task" and "sv' = sv\<lparr>sv_store := st_AddTask st (sv_store sv) task\<rparr>"
      and "reply = writeJSON 200 \<lparr>atr_Status = ''success'', atr_Error = []\<rparr>"
proof (cases "\<exists>task. requested jd e sv r task")
  case True
  then obtain task where task: "requested jd e sv r task" by blast
  then have "handleAddTask jd e st sv r = (sv\<lparr>sv_store := st_AddTask st (sv_store sv) task\<rparr>,
      writeJSON 200 \<lparr>atr_Status = ''success'', atr_Error = []\<rparr>)"
    by (auto simp: requested_def handleAddTask_def TaskIDSize_def VerifyKeySize_def)
  with assms have "sv' = sv\<lparr>sv_store := st_AddTask st (sv_store sv) task\<rparr>"
    "reply = writeJSON 200 \<lparr>atr_Status = ''success'', atr_Error = []\<rparr>" by simp_all
  with task show thesis by (rule success)
next
  case False
  then have "\<exists>msg. msg \<noteq> [] \<and> handleAddTask jd e st sv r = (sv, addTaskError msg)"
    by (auto simp: requested_def handleAddTask_def TaskIDSize_def VerifyKeySize_def Let_def
        split: option.splits sum.splits if_splits)
  with False assms show thesis by (auto intro: error)
qed

lemma requested_facts:
  assumes "requested jd e sv r task"
  obtains req vk where "jd_AddTask jd (rq_Body r) = Inr req" and "t_VerifyKeys task = [0 \<mapsto> vk]" and "length vk = 32"
    and "length (t_TaskID task) = 32" and "t_Variant task = VariantDraft18"
    and "t_VDAFContext task = DAPVDAFContext (t_TaskID task)" and "t_TaskConfig task = interopConfig req"
    and "t_HPKESuite task = smokeSuite (e_cl e)" and "t_HPKEConfigID task = helperHpkeConfigID"
    and "t_HPKEPublicKey task = sv_hpkePublicKey sv" and "t_HPKEPrivateKey task = sv_hpkePrivateKey sv"
    and "Suite_IsValid (e_cl e) (t_CollectorHPKESuite task)"
  using assms by (auto simp: requested_def interopTask_def)

text \<open>The variant of a registered task is the one the code leaves in it, the zero value, and not the Janus
  variant that the package comment names.\<close>

lemma registered_variant: "requested jd e sv r task \<Longrightarrow> t_Variant task = VariantDraft18"
  by (rule requested_facts)

text \<open>Registration is a step of the server of theory Server, so what holds of its reachable states holds
  of the interop server's.\<close>

lemma handleAddTask_step:
  assumes "handleAddTask jd e st sv r = (sv', reply)" and "reachable e st s0 (sv_store sv, ts)"
  shows "reachable e st s0 (sv_store sv', ts)"
  using assms(1)
proof (cases rule: handleAddTask_cases)
  case (success task)
  have "sys_step e st (sv_store sv, ts) (st_AddTask st (sv_store sv) task, ts)" by (rule sys_step.add_task)
  with assms(2) success(2) show ?thesis by (auto intro: reachable.step)
qed (use assms(2) in simp)

lemma startServer_reachable:
  "startServer e ent = Inr sv \<Longrightarrow> reachable e st (NewMemStore []) (sv_store sv, [])"
  by (auto simp: startServer_def split: sum.splits prod.splits intro: reachable.init)

subsection \<open>The published configuration\<close>

text \<open>The library's constants are the registered code points, and its keys are not empty.\<close>

definition registeredCodePoints :: "'o circl \<Rightarrow> bool" where
  "registeredCodePoints cl \<longleftrightarrow> KEM_X25519_HKDF_SHA256 cl = 0x0020 \<and> KDF_HKDF_SHA256 cl = 1 \<and> AEAD_AES128GCM cl = 1
     \<and> 0 < PublicKeySize cl 0x0020"

definition publishedAggregator :: "'o circl \<Rightarrow> 's server \<Rightarrow> aggregator" where
  "publishedAggregator cl sv =
     \<lparr>ag_Suite = smokeSuite cl, ag_ConfigID = helperHpkeConfigID, ag_PublicKey = sv_hpkePublicKey sv\<rparr>"

context cryptobyte_laws
begin

lemmas config_list_roundtrip = hcl.roundtrip
lemmas config_roundtrip = hc.roundtrip

end

lemma started_config:
  assumes cb: "cryptobyte_laws (e_cb e)" and cl: "circl_laws (e_cl e)" and reg: "registeredCodePoints (e_cl e)"
    and start: "startServer e ent = Inr sv"
  shows "unmarshalAll (HpkeConfigList_Unmarshal (e_cb e)) (sv_hpkeConfigList sv)
      = Inr [publishedConfig (sv_hpkePublicKey sv)]"
    and "AggregatorFromConfig (e_cl e) (publishedConfig (sv_hpkePublicKey sv)) = Inr (publishedAggregator (e_cl e) sv)"
    and "keyPair (e_cl e) (smokeSuite (e_cl e)) (sv_hpkePublicKey sv) (sv_hpkePrivateKey sv)"
proof -
  let ?pk = "sv_hpkePublicKey sv" and ?s = "smokeSuite (e_cl e)"
  have suite: "?s = \<lparr>s_KEM = 0x0020, s_KDF = 1, s_AEAD = 1\<rparr>" using reg by (simp add: smokeSuite_def registeredCodePoints_def)
  have gen: "GenerateKeyPair (e_cl e) ent ?s = Inr (?pk, sv_hpkePrivateKey sv)"
    and list: "marshal (e_cb e) (total (HpkeConfigList_Marshal (e_cb e))) [publishedConfig ?pk] = Inr (sv_hpkeConfigList sv)"
    using start by (auto simp: startServer_def split: sum.splits prod.splits)
  then show "keyPair (e_cl e) ?s ?pk (sv_hpkePrivateKey sv)" by (auto simp: keyPair_def)
  obtain pub where valid: "Suite_IsValid (e_cl e) ?s" and len: "length ?pk = PublicKeySize (e_cl e) (s_KEM ?s)"
    and pk: "UnmarshalBinaryPublicKey (e_cl e) (s_KEM ?s) ?pk = Inr pub"
    using circl_laws.generated_public [OF cl gen] .
  then show "AggregatorFromConfig (e_cl e) (publishedConfig ?pk) = Inr (publishedAggregator (e_cl e) sv)"
    by (simp add: AggregatorFromConfig_def publishedConfig_def publishedAggregator_def suite kemX25519HkdfSha256_def
        kdfHkdfSha256_def aeadAes128Gcm_def helperHpkeConfigID_def)
  have "hc_ok (publishedConfig ?pk)" using len reg suite by (auto simp: hc_ok_def publishedConfig_def registeredCodePoints_def)
  then show "unmarshalAll (HpkeConfigList_Unmarshal (e_cb e)) (sv_hpkeConfigList sv) = Inr [publishedConfig ?pk]"
    using cryptobyte_laws.config_list_roundtrip [OF cb _ list] by simp
qed

end
