(* ===== verification/InteropProps.thy ===== *)
theory InteropProps
  imports DapHelper Samples
begin

text \<open>
  The properties of the interop server: registering a task, and the deployment that results from
  it. The witness registers a task over the sample libraries.
\<close>

text \<open>
  C37. Registering a task is atomic and checked: the reply is always 200 JSON, a body that does
  not ask for a task this helper can serve is answered with a named error and leaves the server
  as it was, and any other stores the one task it asks for, whose identifier and verification
  key have their sizes, whose VDAF context is the DAP-18 one bound to its identifier and whose
  collector suite the library supports; every other task, every job and every claim stays.
\<close>

theorem add_task_checked:
  "let (sv', reply) = handleAddTask jd e (memStore order) sv r; m = sv_store sv; m' = sv_store sv' in
   rep_Status reply = 200 \<and> rep_Headers reply = [(''Content-Type'', ''application/json'')]
   \<and> (if atr_Status (rep_Body reply) = ''success''
      then atr_Error (rep_Body reply) = []
        \<and> (\<exists>task vk. requested jd e sv r task \<and> ms_tasks m' = (ms_tasks m)(t_TaskID task \<mapsto> task) \<and> ms_jobs m' = ms_jobs m \<and> ms_claims m' = ms_claims m
            \<and> sv' = sv\<lparr>sv_store := m'\<rparr> \<and> length (t_TaskID task) = 32 \<and> t_VerifyKeys task = [0 \<mapsto> vk] \<and> length vk = 32
            \<and> t_VDAFContext task = ascii ''dap-18'' @ t_TaskID task
            \<and> Suite_IsValid (e_cl e) (t_CollectorHPKESuite task))
      else atr_Status (rep_Body reply) = ''error'' \<and> atr_Error (rep_Body reply) \<noteq> [] \<and> sv' = sv
        \<and> (\<nexists>task. requested jd e sv r task))"
proof -
  obtain sv' reply where h: "handleAddTask jd e (memStore order) sv r = (sv', reply)" by (cases "handleAddTask jd e (memStore order) sv r")
  from h show ?thesis
  proof (cases rule: handleAddTask_cases)
    case (error msg)
    then show ?thesis by (simp add: h)
  next
    case (success task)
    from success(1) obtain req vk where "t_VerifyKeys task = [0 \<mapsto> vk]" and "length vk = 32"
      and "length (t_TaskID task) = 32"
      and "t_VDAFContext task = DAPVDAFContext (t_TaskID task)" and "Suite_IsValid (e_cl e) (t_CollectorHPKESuite task)"
      by (rule requested_facts)
    with success(1) show ?thesis
      unfolding h Let_def prod.case
      unfolding success(2,3) memStore_def
      by (intro conjI) (auto simp: writeJSON_def AddTask_def DAPVDAFContext_def DAPVDAFContextFor_def)
  qed
qed

subsection \<open>A registration over the sample libraries\<close>

definition sampleCollector :: hpke_config where
  "sampleCollector = \<lparr>hc_ID = 3, hc_KemID = 32, hc_KdfID = 1, hc_AeadID = 1, hc_PublicKey = [7]\<rparr>"

definition collectorBytes :: bytes where
  "collectorBytes = (case marshal ref_cb (total (HpkeConfig_Marshal ref_cb)) sampleCollector of Inr w \<Rightarrow> w | Inl _ \<Rightarrow> [])"

definition sampleAdd :: add_task_request where
  "sampleAdd = \<lparr>at_TaskID = EncodeToString (replicate 32 1), at_Leader = ''https://leader'', at_Helper = ''https://helper'',
     at_Vdaf = ascii ''{\"type\":\"Prio3Count\"}'', at_Role = ''Helper'', at_VdafVerifyKey = EncodeToString (replicate 32 4),
     at_BatchMode = 1, at_MinBatchSize = 1, at_TimePrecision = 3600,
     at_CollectorHpkeConfig = EncodeToString collectorBytes\<rparr>"

definition sampleDecoder :: json_decoder where
  "sampleDecoder = \<lparr>jd_AddTask = (\<lambda>b. if b = Some [123] then Inr sampleAdd else Inl ''EOF''),
     jd_VdafType = (\<lambda>_. Inr ''Prio3Count'')\<rparr>"

definition addRequest :: http_request where
  "addRequest = \<lparr>rq_Method = ''POST'', rq_Path = ''/internal/test/add_task'', rq_Body = Some [123]\<rparr>"

definition sampleLeader :: aggregator where
  "sampleLeader = \<lparr>ag_Suite = sampleSuite, ag_ConfigID = 1, ag_PublicKey = [9]\<rparr>"

lemma sample_code_points: "registeredCodePoints (e_cl sampleEnv)" "smokeSuite (e_cl sampleEnv) = sampleSuite"
  by (simp_all add: registeredCodePoints_def smokeSuite_def sampleEnv_def ref_circl_def sampleSuite_def)

lemma sample_started:
  obtains sv where "startServer sampleEnv (\<lambda>_. 5) = Inr sv" and "sv_hpkePublicKey sv = [5]"
proof -
  have "GenerateKeyPair (e_cl sampleEnv) (\<lambda>_. 5) sampleSuite = Inr ([5], [5])"
    by (simp add: GenerateKeyPair_def Suite_IsValid_def sampleEnv_def ref_circl_def sampleSuite_def)
  moreover obtain w where "marshal (e_cb sampleEnv) (total (HpkeConfigList_Marshal (e_cb sampleEnv))) [publishedConfig [5]] = Inr w"
    by (simp add: sampleEnv_def marshal_Inr_iff HpkeConfigList_Marshal_def HpkeConfig_Marshal_def publishedConfig_def cat_Some_iff)
  ultimately have "startServer sampleEnv (\<lambda>_. 5) = Inr \<lparr>sv_store = NewMemStore [], sv_hpkeConfigList = w,
      sv_hpkePublicKey = [5], sv_hpkePrivateKey = [5]\<rparr>" by (simp add: startServer_def sample_code_points)
  then show thesis by (rule that) simp
qed

lemma sample_collector: "unmarshalAll (HpkeConfig_Unmarshal (e_cb sampleEnv)) collectorBytes = Inr sampleCollector"
proof -
  obtain w where w: "marshal ref_cb (total (HpkeConfig_Marshal ref_cb)) sampleCollector = Inr w"
    by (simp add: marshal_Inr_iff HpkeConfig_Marshal_def sampleCollector_def cat_Some_iff)
  have "hc_ok sampleCollector" by (simp add: hc_ok_def sampleCollector_def)
  from cryptobyte_laws.config_roundtrip [OF ref.cryptobyte_laws_axioms this w] w
  show ?thesis by (simp add: sampleEnv_def collectorBytes_def)
qed

lemma sample_decoded:
  "jd_AddTask sampleDecoder (rq_Body addRequest) = Inr sampleAdd"
  "jd_VdafType sampleDecoder (at_Vdaf sampleAdd) = Inr ''Prio3Count''"
  "EqualFold (at_Role sampleAdd) ''helper''"
  "DecodeString (at_TaskID sampleAdd) = Some (replicate 32 1)"
  "DecodeString (at_VdafVerifyKey sampleAdd) = Some (replicate 32 4)"
  "DecodeString (at_CollectorHpkeConfig sampleAdd) = Some collectorBytes"
proof -
  have "EqualFold ''Helper'' ''helper''" by code_simp
  then show "EqualFold (at_Role sampleAdd) ''helper''" by (simp only: sampleAdd_def add_task_request.simps)
qed (simp_all only: sampleDecoder_def addRequest_def sampleAdd_def json_decoder.simps http_request.simps
    add_task_request.simps DecodeString_EncodeToString if_True simp_thms)

lemma sample_registered:
  obtains sv' reply where "handleAddTask sampleDecoder sampleEnv (memStore keyOrder) sv addRequest = (sv', reply)"
    and "atr_Status (rep_Body reply) = ''success''"
proof -
  have "Suite_IsValid (e_cl sampleEnv) \<lparr>s_KEM = hc_KemID sampleCollector, s_KDF = hc_KdfID sampleCollector, s_AEAD = hc_AeadID sampleCollector\<rparr>"
    by (simp add: sampleEnv_def ref_circl_def Suite_IsValid_def sampleCollector_def)
  then have req: "\<exists>task. requested sampleDecoder sampleEnv sv addRequest task"
    using sample_decoded sample_collector length_replicate [of 32 "1 :: byte"] length_replicate [of 32 "4 :: byte"]
    unfolding requested_def by blast
  obtain sv' reply where h: "handleAddTask sampleDecoder sampleEnv (memStore keyOrder) sv addRequest = (sv', reply)"
    by (cases "handleAddTask sampleDecoder sampleEnv (memStore keyOrder) sv addRequest")
  then have "atr_Status (rep_Body reply) = ''success''"
    by (cases rule: handleAddTask_cases) (use req in \<open>auto simp: writeJSON_def\<close>)
  with h show thesis by (rule that)
qed

lemma sample_interop_aad:
  "\<exists>aad. marshal (e_cb sampleEnv) (InputShareAad_Marshal (e_cb sampleEnv))
      (clientAad \<lparr>mt_Variant = VariantDraft18, mt_TaskID = replicate 32 1, mt_Config = interopConfig sampleAdd,
        mt_Leader = l, mt_Helper = h\<rparr> \<lparr>md_ReportID = replicate 16 0, md_Time = now, md_PublicExtensions = []\<rparr> []) = Inr aad
    \<and> length aad < 1000"
  by (simp add: sampleEnv_def marshal_Inr_iff encoding_def writer_defs cat_Some_iff Let_def clientAad_def
      interopConfig_def sampleAdd_def ascii_def)

subsection \<open>From registration to aggregation\<close>

text \<open>
  C15. From the interop server to the protocol: the configuration a started server publishes
  decodes to one HPKE configuration, which the client's check accepts; and once the server has
  registered a task, the report a client of that task makes with it, for any measurement, is
  accepted by the helper with the task it stored, with an output share that adds up with the
  leader's to the measurement.
\<close>

theorem registered_task_serves:
  assumes laws: "cryptobyte_laws (e_cb e)" "circl_laws (e_cl e)" "field_xof (e_xp e)"
    and reg: "registeredCodePoints (e_cl e)" and start: "startServer e ent = Inr sv"
    and add: "handleAddTask jd e (memStore order) (sv\<lparr>sv_store := m\<rparr>) r = (sv', reply)"
      "atr_Status (rep_Body reply) = ''success''"
    and req: "jd_AddTask jd (rq_Body r) = Inr req" and tid: "DecodeString (at_TaskID req) = Some taskID"
    and leader: "keyPair (e_cl e) (ag_Suite leader) (ag_PublicKey leader) sk"
  shows "\<exists>cfg agg task vk. unmarshalAll (HpkeConfigList_Unmarshal (e_cb e)) (rep_Body (handleHpkeConfig sv')) = Inr [cfg]
    \<and> AggregatorFromConfig (e_cl e) cfg = Inr agg
    \<and> GetTask (sv_store sv') taskID = Some task \<and> t_VerifyKeys task 0 = Some vk
    \<and> (let conf = \<lparr>tc_Variant = VariantDraft18, tc_TaskInfo = ascii ''task-info'',
            tc_LeaderEndpoint = ascii (at_Leader req), tc_HelperEndpoint = ascii (at_Helper req),
            tc_TimePrecision = at_TimePrecision req, tc_MinBatchSize = at_MinBatchSize req,
            tc_BatchMode = at_BatchMode req, tc_BatchConfig = [], tc_VdafType = 1, tc_VdafConfiguration = [],
            tc_Extensions = []\<rparr>;
          t = \<lparr>mt_Variant = VariantDraft18, mt_TaskID = taskID, mt_Config = conf, mt_Leader = leader, mt_Helper = agg\<rparr> in
       \<forall>rnd meas now rep c. Report e t rnd meas now = Some (Inr rep) \<longrightarrow> NewCount 2 (VDAFContext t) = Inr c \<longrightarrow>
         goodQuery (e_xp e) c vk (md_ReportID (rp_Metadata rep)) \<longrightarrow>
         (\<exists>lout payload x ob. leaderStep e t sk c vk rep lout payload
            \<and> (\<forall>ord. aggregateInit e task vk VariantDraft18 (verifyInitOf rep payload) ord
                = Some (finishedAgg (md_ReportID (rp_Metadata rep)) ord x ob))
            \<and> gfe (lout ! 0) + gfe x = of_int meas))"
proof -
  let ?agg = "publishedAggregator (e_cl e) sv" and ?cfg = "publishedConfig (sv_hpkePublicKey sv)"
  let ?t = "\<lparr>mt_Variant = VariantDraft18, mt_TaskID = taskID, mt_Config = interopConfig req, mt_Leader = leader, mt_Helper = ?agg\<rparr>"
  note conf = started_config [OF laws(1,2) reg start]
  obtain task where task: "requested jd e (sv\<lparr>sv_store := m\<rparr>) r task"
    and sv': "sv' = sv\<lparr>sv_store := AddTask m task\<rparr>"
    using add(2) by (cases rule: handleAddTask_cases [OF add(1)]) (auto simp: memStore_def)
  from task req tid obtain vk where id: "t_TaskID task = taskID" and vk: "t_VerifyKeys task 0 = Some vk"
    and enr: "enrolled ?t task" and priv: "t_HPKEPrivateKey task = sv_hpkePrivateKey sv"
    by (auto simp: requested_def interopTask_def enrolled_def publishedAggregator_def DAPVDAFContext_def)
  have keys: "keyPair (e_cl e) (t_HPKESuite task) (t_HPKEPublicKey task) (t_HPKEPrivateKey task)"
    using conf(3) enr priv by (simp add: enrolled_def publishedAggregator_def)
  have lead: "keyPair (e_cl e) (ag_Suite (mt_Leader ?t)) (ag_PublicKey (mt_Leader ?t)) sk" using leader by simp
  have accept: "\<exists>lout payload x ob. leaderStep e ?t sk c vk rep lout payload
      \<and> (\<forall>ord. aggregateInit e task vk VariantDraft18 (verifyInitOf rep payload) ord
          = Some (finishedAgg (md_ReportID (rp_Metadata rep)) ord x ob))
      \<and> gfe (lout ! 0) + gfe x = of_int meas"
    if "Report e ?t rnd meas now = Some (Inr rep)" "NewCount 2 (VDAFContext ?t) = Inr c"
      "goodQuery (e_xp e) c vk (md_ReportID (rp_Metadata rep))" for rnd meas now rep c
  proof (rule honest_report [OF laws enr keys lead that], goal_cases)
    case (1 lout payload x ob)
    then show ?case by (intro exI [of _ lout] exI [of _ payload] exI [of _ x] exI [of _ ob]) simp
  qed
  have "unmarshalAll (HpkeConfigList_Unmarshal (e_cb e)) (rep_Body (handleHpkeConfig sv')) = Inr [?cfg]"
    and "GetTask (sv_store sv') taskID = Some task"
    using conf(1) id by (simp_all add: sv' handleHpkeConfig_def GetTask_def AddTask_def)
  with conf(2) vk accept show ?thesis unfolding Let_def interopConfig_def VdafTypePrio3Count_def by blast
qed

text \<open>The sample client of the registered task.\<close>

definition interopClient :: "aggregator \<Rightarrow> matrix_task" where
  "interopClient agg = \<lparr>mt_Variant = VariantDraft18, mt_TaskID = replicate 32 1, mt_Config = interopConfig sampleAdd,
     mt_Leader = sampleLeader, mt_Helper = agg\<rparr>"

lemma interop_client:
  assumes "ag_Suite agg = sampleSuite" and "ag_PublicKey agg = [k]"
  obtains rep c where "Report sampleEnv (interopClient agg) sampleReader 1 now = Some (Inr rep)"
    and "NewCount 2 (VDAFContext (interopClient agg)) = Inr c"
proof -
  let ?t = "interopClient agg"
  obtain c where c: "NewCount 2 (VDAFContext ?t) = Inr c"
    by (simp add: NewCount_def interopClient_def VDAFContext_def)
  obtain aad where aad: "marshal (e_cb sampleEnv) (InputShareAad_Marshal (e_cb sampleEnv))
      (clientAad ?t \<lparr>md_ReportID = replicate 16 0, md_Time = Task_truncate ?t now, md_PublicExtensions = []\<rparr> []) = Inr aad"
    "length aad < 1000"
    using sample_interop_aad unfolding interopClient_def by blast
  have keys: "ag_Suite (mt_Leader ?t) = sampleSuite" "ag_PublicKey (mt_Leader ?t) = [9]"
    "ag_Suite (mt_Helper ?t) = sampleSuite" "ag_PublicKey (mt_Helper ?t) = [k]"
    using assms by (simp_all add: interopClient_def sampleLeader_def)
  show thesis by (rule report_made [OF c keys aad]) (rule that [OF _ c])
qed

theorem registered_task_serves_witness:
  "\<exists>sv sv' reply cfg agg task vk rep payload x ob. startServer sampleEnv (\<lambda>_. 5) = Inr sv
    \<and> handleAddTask sampleDecoder sampleEnv (memStore keyOrder) sv addRequest = (sv', reply)
    \<and> unmarshalAll (HpkeConfigList_Unmarshal (e_cb sampleEnv)) (rep_Body (handleHpkeConfig sv')) = Inr [cfg]
    \<and> AggregatorFromConfig (e_cl sampleEnv) cfg = Inr agg \<and> GetTask (sv_store sv') (replicate 32 1) = Some task
    \<and> Report sampleEnv (interopClient agg) sampleReader 1 7205 = Some (Inr rep)
    \<and> (\<forall>ord. aggregateInit sampleEnv task vk VariantDraft18 (verifyInitOf rep payload) ord
        = Some (finishedAgg (md_ReportID (rp_Metadata rep)) ord x ob))"
proof -
  obtain sv where sv: "startServer sampleEnv (\<lambda>_. 5) = Inr sv" "sv_hpkePublicKey sv = [5]" by (rule sample_started)
  obtain sv' reply where add: "handleAddTask sampleDecoder sampleEnv (memStore keyOrder) sv addRequest = (sv', reply)"
    "atr_Status (rep_Body reply) = ''success''" by (rule sample_registered)
  have leader: "keyPair (e_cl sampleEnv) (ag_Suite sampleLeader) (ag_PublicKey sampleLeader) [9]"
    using sample_keys by (simp add: sampleLeader_def)
  have add': "handleAddTask sampleDecoder sampleEnv (memStore keyOrder) (sv\<lparr>sv_store := sv_store sv\<rparr>) addRequest = (sv', reply)"
    using add by simp
  obtain cfg agg task vk where serves:
      "unmarshalAll (HpkeConfigList_Unmarshal (e_cb sampleEnv)) (rep_Body (handleHpkeConfig sv')) = Inr [cfg]"
      "AggregatorFromConfig (e_cl sampleEnv) cfg = Inr agg" "GetTask (sv_store sv') (replicate 32 1) = Some task"
    and reports: "\<And>rnd meas now rep c. Report sampleEnv (interopClient agg) rnd meas now = Some (Inr rep) \<Longrightarrow>
      NewCount 2 (VDAFContext (interopClient agg)) = Inr c \<Longrightarrow> goodQuery (e_xp sampleEnv) c vk (md_ReportID (rp_Metadata rep)) \<Longrightarrow>
      \<exists>lout payload x ob. leaderStep sampleEnv (interopClient agg) [9] c vk rep lout payload
        \<and> (\<forall>ord. aggregateInit sampleEnv task vk VariantDraft18 (verifyInitOf rep payload) ord
            = Some (finishedAgg (md_ReportID (rp_Metadata rep)) ord x ob)) \<and> gfe (lout ! 0) + gfe x = of_int meas"
    using registered_task_serves [OF sampleEnv_laws(1-3) sample_code_points(1) sv(1) add' add(2) sample_decoded(1,4) leader]
    unfolding Let_def interopClient_def interopConfig_def VdafTypePrio3Count_def by blast
  have "sv_hpkeConfigList sv' = sv_hpkeConfigList sv" using add(1) by (cases rule: handleAddTask_cases) auto
  then have "cfg = publishedConfig [5]"
    using started_config(1) [OF sampleEnv_laws(1,2) sample_code_points(1) sv(1)] serves(1) sv(2) by (simp add: handleHpkeConfig_def)
  then have agg: "ag_Suite agg = sampleSuite" "ag_PublicKey agg = [5]"
    using started_config(2) [OF sampleEnv_laws(1,2) sample_code_points(1) sv(1)] serves(2) sv(2)
    by (auto simp: publishedAggregator_def sample_code_points)
  obtain rep c where rep: "Report sampleEnv (interopClient agg) sampleReader 1 7205 = Some (Inr rep)"
    and c: "NewCount 2 (VDAFContext (interopClient agg)) = Inr c" by (rule interop_client [OF agg])
  from sv(1) add(1) serves rep reports [OF rep c sample_query] show ?thesis by blast
qed

end
