(* ===== verification/Soundness.thy ===== *)
theory Soundness
  imports Prio3Correct
begin

text \<open>
  Robustness of Prio3Count against the client: whatever bytes a client sends as input shares, the
  output shares of a report that every aggregator verifies and whose combined verifier is accepted
  add up to 0 or 1, unless the query point drawn from the verification key and the nonce is one
  of at most two points, which the shares fix.
\<close>

text \<open>A decoded input share belongs to the aggregator it was decoded for, and a leader's share holds
  vectors of the circuit's lengths.\<close>

lemma DecodeInputShare_Inr:
  assumes "DecodeInputShare c i b = Inr in'"
  shows "is_AggID in' = i" and "i = 0 \<Longrightarrow> length (is_MeasShare in') = 1 \<and> length (is_ProofsShare in') = 5
      \<and> list_all canonical (is_MeasShare in') \<and> list_all canonical (is_ProofsShare in')"
proof -
  show "is_AggID in' = i"
    using assms by (auto simp: DecodeInputShare_def Let_def split: if_splits sum.splits)
  assume i: "i = 0"
  with assms obtain ms pf where len: "length b = 48" and ms: "DecodeVec (take 8 b) = Inr ms"
    and pf: "DecodeVec (drop 8 b) = Inr pf" and in': "is_MeasShare in' = ms" "is_ProofsShare in' = pf"
    by (auto simp: DecodeInputShare_def Let_def Count_sizes proofs_def EncodedSize_def split: if_splits sum.splits)
  have "length (EncodeVec ms) = 8" "length (EncodeVec pf) = 40"
    using DecodeVec_Inr [OF ms] DecodeVec_Inr [OF pf] len by (auto dest: arg_cong [of _ _ length])
  with DecodeVec_Inr [OF ms] DecodeVec_Inr [OF pf] in' show "length (is_MeasShare in') = 1 \<and> length (is_ProofsShare in') = 5
      \<and> list_all canonical (is_MeasShare in') \<and> list_all canonical (is_ProofsShare in')"
    by (simp add: EncodedSize_def)
qed

lemma list_all_5: "list_all Q p \<Longrightarrow> length p = 5 \<Longrightarrow> list_all Q [p ! 0, p ! 1, p ! 2, p ! 3, p ! 4]"
  using list_5 [of p] by simp

text \<open>Output shares that do not unshard to 0 or 1 do not add up to a bit of the field.\<close>

lemma not_a_bit:
  assumes "\<forall>i<N. length (outs i) = 1" and "Unshard c (map outs [0..<N]) 1 \<notin> {Some (Inr 0), Some (Inr 1)}"
  shows "(\<Sum>i<N. gfe (outs i ! 0)) * (\<Sum>i<N. gfe (outs i ! 0)) \<noteq> (\<Sum>i<N. gfe (outs i ! 0))"
proof -
  have "(\<Sum>i<N. gfe (outs i ! 0)) \<noteq> of_int z" if "z = 0 \<or> z = 1" for z
    using assms that Unshard_count [of "map outs [0..<N]" z c 1] by auto
  from this [of 0] this [of 1] show ?thesis by auto
qed

text \<open>The query points at which shares that do not unshard to 0 or 1 are accepted.\<close>

definition badPoints :: "expander \<Rightarrow> prio3_count \<Rightarrow> nat \<Rightarrow> (nat \<Rightarrow> input_share) \<Rightarrow> elt set" where
  "badPoints xp c N ins = {t. \<exists>vk nonce ps outs vss msg. queryRands xp c vk nonce = Some (Inr [t])
      \<and> (\<forall>i<N. VerifyInit xp c vk (word_of_nat i) nonce ps (ins i) = Some (Inr (outs i, vss i)))
      \<and> VerifierSharesToMessage c (map vss [0..<N]) = Some (Inr msg)
      \<and> Unshard c (map outs [0..<N]) 1 \<notin> {Some (Inr 0), Some (Inr 1)}}"

context field_xof
begin

lemma expanded_share:
  assumes "DecodeInputShare c i b = Inr in'" and "expandInputShare xp c in' = Some (Inr (ms, pf))"
  shows "length ms = 1 \<and> length pf = 5 \<and> list_all canonical ms \<and> list_all canonical pf"
  using assms DecodeInputShare_Inr [OF assms(1)] expansion_lengths(1,2)
  by (auto simp: expandInputShare_def andThen_Inr_iff split: if_splits)

text \<open>What a verification that returns a state has computed.\<close>

lemma VerifyInit_Inr:
  assumes dec: "DecodeInputShare c i b = Inr in'" and q: "queryRands xp c vk nonce = Some (Inr [t])"
    and v: "VerifyInit xp c vk i nonce ps in' = Some (Inr (out, vs))"
  obtains pf where "expandInputShare xp c in' = Some (Inr (out, pf))" and "gfe t ^ 2 \<noteq> 1"
    and "length out = 1" and "length vs = 4" and "list_all canonical vs"
    and "map gfe vs = count_verifier (gfe (out ! 0)) (gfe (pf ! 0)) (gfe (pf ! 1)) (gfe (pf ! 2))
      (gfe (pf ! 3)) (gfe (pf ! 4)) (gfe t)"
proof -
  have i: "unat i < unat (c_shares c)" using v by (auto simp: VerifyInit_def split: if_splits)
  obtain ms pf where ex: "expandInputShare xp c in' = Some (Inr (ms, pf))"
    and qv: "Query Count ms (take (ProofLen Count) pf) (take (QueryRandLen Count) [t]) [] (unat (c_shares c)) = Some (Inr vs)"
    using v q by (auto simp: VerifyInit_def andThen_Inr_iff Let_def split: if_splits)
  note len = expanded_share [OF dec ex]
  have pf: "pf = [pf ! 0, pf ! 1, pf ! 2, pf ! 3, pf ! 4]" using len by (intro list_5) simp
  have ms: "ms = [ms ! 0]" using len by (auto simp: length_Suc_conv)
  have qv': "Query Count [ms ! 0] [pf ! 0, pf ! 1, pf ! 2, pf ! 3, pf ! 4] [t] [] (unat (c_shares c)) = Some (Inr vs)"
  proof -
    have "Query Count ms pf [t] [] (unat (c_shares c)) = Some (Inr vs)" using qv len by (simp add: Count_sizes)
    then show ?thesis by (simp only: ms [symmetric] pf [symmetric])
  qed
  have can: "list_all canonical [ms ! 0, pf ! 0, pf ! 1, pf ! 2, pf ! 3, pf ! 4]"
    using len list_all_5 [of canonical pf] by (auto simp: length_Suc_conv)
  have t: "gfe t ^ 2 \<noteq> 1" using Query_Count_root [OF can, of t] qv' by auto
  obtain vs' where "VerifyInit xp c vk i nonce ps in' = Some (Inr (ms, vs'))" "length vs' = 4" "list_all canonical vs'"
    "map gfe vs' = count_verifier (gfe (ms ! 0)) (gfe (pf ! 0)) (gfe (pf ! 1)) (gfe (pf ! 2)) (gfe (pf ! 3)) (gfe (pf ! 4)) (gfe t)"
    using VerifyInit_share [OF i DecodeInputShare_Inr(1) [OF dec] ex _ _ _ _ q t] len by blast
  with v ex t len show thesis by (intro that [of pf]) simp_all
qed

text \<open>The verifier the aggregators combine is the one of the summed shares, so what they accept is a
  proof that the summed proof shares are a proof of the summed measurement shares.\<close>

lemma accepted_query:
  assumes dec: "\<forall>i<N. DecodeInputShare c (word_of_nat i) (b i) = Inr (ins i)"
    and ex: "\<forall>i<N. expandInputShare xp c (ins i) = Some (Inr (ms i, qs i))"
    and q: "queryRands xp c vk nonce = Some (Inr [t])" and N: "0 < N"
    and v: "\<forall>i<N. VerifyInit xp c vk (word_of_nat i) nonce ps (ins i) = Some (Inr (outs i, vss i))"
    and acc: "VerifierSharesToMessage c (map vss [0..<N]) = Some (Inr msg)"
    and can: "list_all canonical [x, s0, s1, g0, g1, g2]" and x: "gfe x = (\<Sum>i<N. gfe (ms i ! 0))"
    and s: "gfe s0 = (\<Sum>i<N. gfe (qs i ! 0))" "gfe s1 = (\<Sum>i<N. gfe (qs i ! 1))" "gfe g0 = (\<Sum>i<N. gfe (qs i ! 2))"
      "gfe g1 = (\<Sum>i<N. gfe (qs i ! 3))" "gfe g2 = (\<Sum>i<N. gfe (qs i ! 4))"
  shows "canonical t \<and> (\<exists>vs. Query Count [x] [s0, s1, g0, g1, g2] [t] [] 1 = Some (Inr vs) \<and> Decide Count vs = Some True)"
    and "\<forall>i<N. outs i = ms i \<and> length (outs i) = 1"
proof -
  have each: "outs i = ms i \<and> length (outs i) = 1 \<and> gfe t ^ 2 \<noteq> 1 \<and> length (vss i) = 4 \<and> list_all canonical (vss i)
      \<and> map gfe (vss i) = count_verifier (gfe (ms i ! 0)) (gfe (qs i ! 0)) (gfe (qs i ! 1))
        (gfe (qs i ! 2)) (gfe (qs i ! 3)) (gfe (qs i ! 4)) (gfe t)" if i: "i < N" for i
    by (rule VerifyInit_Inr [OF dec [rule_format, OF i] q v [rule_format, OF i]]) (use ex i in simp)
  then show "\<forall>i<N. outs i = ms i \<and> length (outs i) = 1" by blast
  have tc: "canonical t" using expansion_lengths(4) [OF q] by simp
  have t: "gfe t ^ 2 \<noteq> 1" using each [OF N] by blast
  obtain vs where vs: "Query Count [x] [s0, s1, g0, g1, g2] [t] [] 1 = Some (Inr vs)" "list_all canonical vs"
    "map gfe vs = count_verifier (gfe x) (gfe s0) (gfe s1) (gfe g0) (gfe g1) (gfe g2) (gfe t)"
    by (rule Query_Count [OF can tc t])
  obtain r where r: "sumVectors (replicate 4 0) (map vss [0..<N]) = Inr r" "length r = 4" "list_all canonical r"
    and "map gfe r = map gfe vs"
    using verifier_shares_sum [of N vss ms qs "gfe t"] each unfolding vs(3) x s by blast
  then have "r = vs" using vs(2) by (simp add: gfe_list_inject)
  with r acc have "Decide Count vs = Some True"
    by (auto simp: VerifierSharesToMessage_def Count_sizes proofs_def andThen_Inr_iff split: if_splits)
  with tc vs(1) show "canonical t
      \<and> (\<exists>vs. Query Count [x] [s0, s1, g0, g1, g2] [t] [] 1 = Some (Inr vs) \<and> Decide Count vs = Some True)" by blast
qed

lemma accepted_points_expanded:
  assumes c: "NewCount n ctx = Inr c" and N: "N = unat n"
    and dec: "\<forall>i<N. DecodeInputShare c (word_of_nat i) (b i) = Inr (ins i)"
    and ex: "\<forall>i<N. expandInputShare xp c (ins i) = Some (Inr (ms i, qs i))"
  shows "card (badPoints xp c N ins) \<le> 2"
proof -
  have N0: "0 < N" using shares_bounds [OF c] by (simp add: N)
  define X where "X = (\<Sum>i<N. gfe (ms i ! 0))"
  define el :: "gf \<Rightarrow> elt" where "el g = word_of_int (Rep_gf g)" for g
  have el: "canonical (el g) \<and> gfe (el g) = g" for g unfolding el_def by (rule canonical_of_gf)
  define s where "s k = el (\<Sum>i<N. gfe (qs i ! k))" for k
  have can: "list_all canonical [el X, s 0, s 1, s 2, s 3, s 4]"
    and sums: "gfe (el X) = (\<Sum>i<N. gfe (ms i ! 0))" "\<And>k. gfe (s k) = (\<Sum>i<N. gfe (qs i ! k))"
    using el by (simp_all add: X_def s_def)
  let ?B = "{t. canonical t \<and> (\<exists>vs. Query Count [el X] [s 0, s 1, s 2, s 3, s 4] [t] [] 1 = Some (Inr vs)
    \<and> Decide Count vs = Some True)}"
  have acc: "t \<in> ?B \<and> X * X \<noteq> X" if "t \<in> badPoints xp c N ins" for t
  proof -
    from that obtain vk nonce ps outs vss msg where q: "queryRands xp c vk nonce = Some (Inr [t])"
      and v: "\<forall>i<N. VerifyInit xp c vk (word_of_nat i) nonce ps (ins i) = Some (Inr (outs i, vss i))"
      and msg: "VerifierSharesToMessage c (map vss [0..<N]) = Some (Inr msg)"
      and bad: "Unshard c (map outs [0..<N]) 1 \<notin> {Some (Inr 0), Some (Inr 1)}" unfolding badPoints_def by blast
    note a = accepted_query [OF dec ex q N0 v msg can sums(1) sums(2) sums(2) sums(2) sums(2) sums(2)]
    have outs: "outs i = ms i" "length (outs i) = 1" if "i < N" for i using a(2) [rule_format, OF that] by auto
    have "X * X \<noteq> X" unfolding X_def using not_a_bit [OF _ bad] outs by simp
    with a(1) show ?thesis by simp
  qed
  show ?thesis
  proof (cases "badPoints xp c N ins = {}")
    case False
    then have "X * X \<noteq> X" using acc by blast
    then have "card ?B \<le> 2" using el by (intro Count_soundness [OF can]) simp
    moreover have "badPoints xp c N ins \<subseteq> ?B" using acc by (intro subsetI) (rule conjunct1)
    then have "card (badPoints xp c N ins) \<le> card ?B" by (intro card_mono) simp_all
    ultimately show ?thesis by linarith
  qed simp
qed

lemma accepted_points:
  assumes c: "NewCount n ctx = Inr c"
    and dec: "\<forall>i<unat n. DecodeInputShare c (word_of_nat i) (b i) = Inr (ins i)"
  shows "card (badPoints xp c (unat n) ins) \<le> 2"
proof (cases "\<forall>i<unat n. \<exists>m q. expandInputShare xp c (ins i) = Some (Inr (m, q))")
  case True
  then obtain ms qs where "\<forall>i<unat n. expandInputShare xp c (ins i) = Some (Inr (ms i, qs i))" by metis
  then show ?thesis by (rule accepted_points_expanded [OF c refl dec])
next
  case False
  then obtain i where i: "i < unat n" and no: "\<And>m q. expandInputShare xp c (ins i) \<noteq> Some (Inr (m, q))" by blast
  have "badPoints xp c (unat n) ins = {}"
  proof (rule equals0I)
    fix t assume "t \<in> badPoints xp c (unat n) ins"
    then obtain vk nonce ps outs vss where q: "queryRands xp c vk nonce = Some (Inr [t])"
      and "VerifyInit xp c vk (word_of_nat i) nonce ps (ins i) = Some (Inr (outs i, vss i))"
      using i unfolding badPoints_def by blast
    from VerifyInit_Inr [OF dec [rule_format, OF i] q this(2)] no show False by blast
  qed
  then show ?thesis by simp
qed

end

subsection \<open>Property\<close>

text \<open>
  C6. Robustness against the client: for any number of aggregators and whatever bytes a client
  sends as their input shares, there are at most two query points, fixed by the shares alone,
  at which every aggregator's verification succeeds and the combined verifier is accepted while
  the output shares do not unshard to 0 or 1.
\<close>

theorem prio3_robust:
  assumes "field_xof xp" and "NewCount n ctx = Inr c"
    and "\<forall>i<unat n. DecodeInputShare c (word_of_nat i) (b i) = Inr (ins i)"
  shows "card {t. \<exists>vk nonce ps outs vss msg. queryRands xp c vk nonce = Some (Inr [t])
      \<and> (\<forall>i<unat n. VerifyInit xp c vk (word_of_nat i) nonce ps (ins i) = Some (Inr (outs i, vss i)))
      \<and> VerifierSharesToMessage c (map vss [0..<unat n]) = Some (Inr msg)
      \<and> Unshard c (map outs [0..<unat n]) 1 \<notin> {Some (Inr 0), Some (Inr 1)}} \<le> 2"
  by (rule field_xof.accepted_points [OF assms, unfolded badPoints_def])

text \<open>Shares of 0 and 3, which no client could have sharded honestly.\<close>

theorem prio3_robust_witness:
  "\<exists>c ins. NewCount 2 [] = Inr c \<and> DecodeInputShare c 0 (replicate 48 0) = Inr (ins 0)
    \<and> DecodeInputShare c 1 (replicate 32 9) = Inr (ins 1)
    \<and> helperMeasShare constXof c 1 (is_Seed (ins 1)) = Some (Inr [3])
    \<and> card {t. \<exists>vk nonce ps outs vss msg. queryRands constXof c vk nonce = Some (Inr [t])
      \<and> (\<forall>i<unat (2 :: 8 word). VerifyInit constXof c vk (word_of_nat i) nonce ps (ins i) = Some (Inr (outs i, vss i)))
      \<and> VerifierSharesToMessage c (map vss [0..<unat (2 :: 8 word)]) = Some (Inr msg)
      \<and> Unshard c (map outs [0..<unat (2 :: 8 word)]) 1 \<notin> {Some (Inr 0), Some (Inr 1)}} \<le> 2"
proof -
  obtain c where c: "NewCount 2 [] = Inr c" by (simp add: NewCount_def)
  have n: "c_shares c = 2" using shares_bounds [OF c] by simp
  define b where "b = (\<lambda>i :: nat. if i = 0 then replicate 48 0 else replicate 32 9 :: bytes)"
  define l where "l = \<lparr>is_AggID = 0, is_MeasShare = [0], is_ProofsShare = replicate 5 0, is_Seed = []\<rparr>"
  define h where "h = \<lparr>is_AggID = 1, is_MeasShare = [], is_ProofsShare = [], is_Seed = replicate 32 9\<rparr>"
  define ins where "ins = (\<lambda>i :: nat. if i = 0 then l else h)"
  have le0: "le k 0 = replicate k 0" for k by (induction k) simp_all
  have zeros: "EncodeVec (replicate k 0) = replicate (8 * k) 0" for k
    by (induction k) (simp_all add: le0 EncodedSize_def replicate_add)
  have "EncodeInputShare c l = EncodeVec (replicate 1 0) @ EncodeVec (replicate 5 0)"
    by (simp add: EncodeInputShare_def l_def)
  also have "\<dots> = replicate (8 * 1 + 8 * 5) 0" unfolding zeros by (rule replicate_add [symmetric])
  finally have "EncodeInputShare c l = replicate 48 0" by simp
  moreover have "list_all canonical (replicate 5 0)" by (simp add: list_all_iff canonical_iff)
  ultimately have l: "DecodeInputShare c 0 (replicate 48 0) = Inr (ins 0)"
    using DecodeInputShare_leader [of c "[0]" "replicate 5 0"] n by (simp add: ins_def l_def)
  have h: "DecodeInputShare c 1 (replicate 32 9) = Inr (ins 1)"
    using n by (simp add: DecodeInputShare_def ins_def h_def SeedSize_def word_le_nat_alt)
  have "helperMeasShare constXof c 1 (is_Seed (ins 1)) = Some (Inr [3])"
    by (simp add: helperMeasShare_def constXof_def wrapErr_def Count_sizes)
  moreover have "\<forall>i<unat (2 :: 8 word). DecodeInputShare c (word_of_nat i) (b i) = Inr (ins i)"
    using l h by (auto simp: b_def less_2_cases_iff)
  ultimately show ?thesis using prio3_robust [OF constXof c] c l h by blast
qed

end
