(* ===== verification/Robust.thy ===== *)
theory Robust
  imports Samples Soundness
begin

text \<open>
  Robustness of the deployment: a report made by a client that does not follow the protocol. The
  leader follows it, the helper runs the code of \<^verbatim>\<open>pkg/dap/helper\<close>; what both accept adds up to a
  measurement of 0 or 1, except at two query points at most.
\<close>

text \<open>What the helper opens of a report does not depend on the leader's message.\<close>

lemma openCandidates_report_share:
  "vi_ReportShare vi = vi_ReportShare vi' \<Longrightarrow> openCandidates e task v vi vs = openCandidates e task v vi' vs"
  by (induction vs) (simp_all add: inputShareAad_def Let_def split: sum.splits)

definition helperShare :: "('b, 'o) env \<Rightarrow> task \<Rightarrow> variant \<Rightarrow> prio3_count \<Rightarrow> report \<Rightarrow> input_share \<Rightarrow> bool" where
  "helperShare e task variant c rep hin \<longleftrightarrow>
     (\<exists>pt pis. openCandidates e task variant (verifyInitOf rep []) (candidates variant) = Some pt
        \<and> unmarshalAll (PlaintextInputShare_Unmarshal (e_cb e)) pt = Inr pis
        \<and> DecodeInputShare c 1 (pis_Payload pis) = Inr hin)"

definition leaderShare :: "('b, 'o) env \<Rightarrow> matrix_task \<Rightarrow> bytes \<Rightarrow> prio3_count \<Rightarrow> report \<Rightarrow> input_share \<Rightarrow> bool" where
  "leaderShare e t sk c rep lin \<longleftrightarrow>
     (\<exists>aad pt pis. marshal (e_cb e) (InputShareAad_Marshal (e_cb e)) (clientAad t (rp_Metadata rep) (rp_PublicShare rep)) = Inr aad
        \<and> Open (e_cl e) (ag_Suite (mt_Leader t)) sk (inputShareInfo t roleLeader)
            (ct_Enc (rp_LeaderEncryptedInputShare rep)) aad (ct_Payload (rp_LeaderEncryptedInputShare rep)) = Inr pt
        \<and> unmarshalAll (PlaintextInputShare_Unmarshal (e_cb e)) pt = Inr pis
        \<and> DecodeInputShare c 0 (pis_Payload pis) = Inr lin)"

lemma helperShare_unique: "helperShare e task variant c rep h \<Longrightarrow> helperShare e task variant c rep h' \<Longrightarrow> h' = h"
  by (auto simp: helperShare_def)

lemma leaderShare_unique: "leaderShare e t sk c rep l \<Longrightarrow> leaderShare e t sk c rep l' \<Longrightarrow> l' = l"
  by (auto simp: leaderShare_def)

lemma leaderStep_share:
  assumes "leaderStep e t sk c vk rep lout payload"
  obtains lin lv where "leaderShare e t sk c rep lin"
    and "VerifyInit (e_xp e) c vk 0 (md_ReportID (rp_Metadata rep)) (rp_PublicShare rep) lin = Some (Inr (lout, lv))"
    and "marshal (e_cb e) (PingPongMessage_Marshal (e_cb e)) (initializeMessage c lv) = Inr payload"
  using assms unfolding leaderStep_def leaderShare_def by blast

lemma finished_share:
  assumes c: "NewCount 2 (t_VDAFContext task) = Inr c"
    and fin: "aggregateInit e task vk variant (verifyInitOf rep payload) ord = Some (vr, ra)" "ra_OutShare ra = Some hout"
  obtains hin inbound ls hs msg where "helperShare e task variant c rep hin"
    and "unmarshalAll (PingPongMessage_Unmarshal (e_cb e)) payload = Inr inbound"
    and "DecodeVerifierShare c (pp_VerifierShare inbound) = Inr ls"
    and "VerifyInit (e_xp e) c vk 1 (md_ReportID (rp_Metadata rep)) (rp_PublicShare rep) hin = Some (Inr (hout, hs))"
    and "VerifierSharesToMessage c [ls, hs] = Some (Inr msg)"
proof -
  have vi: "rs_ReportMetadata (vi_ReportShare (verifyInitOf rep payload)) = rp_Metadata rep"
    "rs_PublicShare (vi_ReportShare (verifyInitOf rep payload)) = rp_PublicShare rep"
    "vi_Payload (verifyInitOf rep payload) = payload" by (simp_all add: verifyInitOf_def)
  from fin(1) show thesis
  proof (cases rule: aggregateInit_cases)
    case (rejected err)
    then show thesis using fin(2) by (simp add: rejectAgg_def)
  next
    case (finished pt outShare ob)
    then have out: "outShare = hout" using fin(2) by simp
    have "openCandidates e task variant (verifyInitOf rep payload) (candidates variant)
        = openCandidates e task variant (verifyInitOf rep []) (candidates variant)"
      by (rule openCandidates_report_share) (simp add: verifyInitOf_def)
    with finished(2) have "openCandidates e task variant (verifyInitOf rep []) (candidates variant) = Some pt"
      by (simp only:)
    then show thesis
      using verifyReport_parts [OF finished(1) [unfolded out]] c vi that
      unfolding helperShare_def numAggregators_def helperAggregatorID_def by (metis sum.inject(2))
  qed
qed

text \<open>The bound of theory Soundness for a leader's and a helper's share.\<close>

lemma two_share_points:
  assumes "field_xof xp" and "NewCount 2 ctx = Inr c"
    and dec: "DecodeInputShare c 0 lb = Inr lin" "DecodeInputShare c 1 hb = Inr hin"
  shows "card {q. \<exists>vk nonce ps lout lv hout hv msg. queryRands xp c vk nonce = Some (Inr [q])
      \<and> VerifyInit xp c vk 0 nonce ps lin = Some (Inr (lout, lv)) \<and> VerifyInit xp c vk 1 nonce ps hin = Some (Inr (hout, hv))
      \<and> VerifierSharesToMessage c [lv, hv] = Some (Inr msg)
      \<and> Unshard c [lout, hout] 1 \<notin> {Some (Inr 0), Some (Inr 1)}} \<le> 2" (is "card ?A \<le> 2")
proof -
  have [simp]: "unat (2 :: 8 word) = 2" "[0..<2] = [0, 1 :: nat]" by (simp_all add: upt_rec)
  let ?B = "badPoints xp c (unat (2 :: 8 word)) (\<lambda>i. if i = 0 then lin else hin)"
  have "card ?B \<le> 2"
    by (rule field_xof.accepted_points [OF assms(1,2), where b = "\<lambda>i. if i = 0 then lb else hb"])
      (use dec in \<open>auto simp: less_2_cases_iff\<close>)
  moreover have "?A \<subseteq> ?B"
  proof
    fix q assume "q \<in> ?A"
    then obtain vk nonce ps lout lv hout hv msg where "queryRands xp c vk nonce = Some (Inr [q])"
      "VerifyInit xp c vk 0 nonce ps lin = Some (Inr (lout, lv))" "VerifyInit xp c vk 1 nonce ps hin = Some (Inr (hout, hv))"
      "VerifierSharesToMessage c [lv, hv] = Some (Inr msg)" "Unshard c [lout, hout] 1 \<notin> {Some (Inr 0), Some (Inr 1)}" by blast
    then show "q \<in> ?B" unfolding badPoints_def
      by (intro CollectI exI [of _ vk] exI [of _ nonce] exI [of _ ps] exI [of _ "\<lambda>i. if i = 0 then lout else hout"]
          exI [of _ "\<lambda>i. if i = 0 then lv else hv"] exI [of _ msg]) (auto simp: less_2_cases_iff)
  qed
  then have "card ?A \<le> card ?B" by (intro card_mono) simp_all
  ultimately show ?thesis by linarith
qed

text \<open>Both aggregators' acceptance of a report is the acceptance of the two input shares it carries.\<close>

lemma both_accept:
  assumes laws: "cryptobyte_laws (e_cb e)" "field_xof (e_xp e)" and c: "NewCount 2 (t_VDAFContext task) = Inr c"
    and q: "queryRands (e_xp e) c vk (md_ReportID (rp_Metadata rep)) = Some (Inr [t])"
    and lead: "leaderStep e tk sk c vk rep lout payload"
    and fin: "aggregateInit e task vk variant (verifyInitOf rep payload) ord = Some (vr, ra)" "ra_OutShare ra = Some hout"
  obtains lin lv hin hv msg where "leaderShare e tk sk c rep lin" and "helperShare e task variant c rep hin"
    and "VerifyInit (e_xp e) c vk 0 (md_ReportID (rp_Metadata rep)) (rp_PublicShare rep) lin = Some (Inr (lout, lv))"
    and "VerifyInit (e_xp e) c vk 1 (md_ReportID (rp_Metadata rep)) (rp_PublicShare rep) hin = Some (Inr (hout, hv))"
    and "VerifierSharesToMessage c [lv, hv] = Some (Inr msg)"
proof -
  obtain lin lv where l: "leaderShare e tk sk c rep lin"
    and v0: "VerifyInit (e_xp e) c vk 0 (md_ReportID (rp_Metadata rep)) (rp_PublicShare rep) lin = Some (Inr (lout, lv))"
    and msg: "marshal (e_cb e) (PingPongMessage_Marshal (e_cb e)) (initializeMessage c lv) = Inr payload"
    by (rule leaderStep_share [OF lead])
  obtain b where dec: "DecodeInputShare c 0 b = Inr lin" using l by (auto simp: leaderShare_def)
  have lv: "length lv = 4" "list_all canonical lv"
    by (rule field_xof.VerifyInit_Inr [OF laws(2) dec q v0], assumption)+
  obtain hin inbound ls hs m where h: "helperShare e task variant c rep hin"
    and inb: "unmarshalAll (PingPongMessage_Unmarshal (e_cb e)) payload = Inr inbound"
      "DecodeVerifierShare c (pp_VerifierShare inbound) = Inr ls"
    and v1: "VerifyInit (e_xp e) c vk 1 (md_ReportID (rp_Metadata rep)) (rp_PublicShare rep) hin = Some (Inr (hout, hs))"
    and acc: "VerifierSharesToMessage c [ls, hs] = Some (Inr m)" by (rule finished_share [OF c fin])
  have "inbound = initializeMessage c lv" using cryptobyte_laws.initialize_encodes [OF laws(1) lv(1), of c] msg inb(1) by auto
  then have "ls = lv" using inb(2) DecodeVerifierShare_EncodeVerifierShare [OF lv] by (simp add: initializeMessage_def)
  with l h v0 v1 acc show thesis by (intro that) simp_all
qed

text \<open>The query points at which a report is finished with output shares that are no measurement's.\<close>

definition isBit :: "prio3_count \<Rightarrow> elt list \<Rightarrow> elt list \<Rightarrow> bool" where
  "isBit c lout hout \<longleftrightarrow> Unshard c [lout, hout] 1 = Some (Inr 0) \<or> Unshard c [lout, hout] 1 = Some (Inr 1)"

definition cheatingPoints ::
  "('b, 'o) env \<Rightarrow> matrix_task \<Rightarrow> bytes \<Rightarrow> task \<Rightarrow> variant \<Rightarrow> prio3_count \<Rightarrow> report \<Rightarrow> elt set" where
  "cheatingPoints e t sk task variant c rep = {q. \<exists>vk lout payload ord vr ra hout.
      queryRands (e_xp e) c vk (md_ReportID (rp_Metadata rep)) = Some (Inr [q])
      \<and> leaderStep e t sk c vk rep lout payload
      \<and> aggregateInit e task vk variant (verifyInitOf rep payload) ord = Some (vr, ra) \<and> ra_OutShare ra = Some hout
      \<and> \<not> isBit c lout hout}"

lemma few_cheating_points:
  assumes "cryptobyte_laws (e_cb e)" and "field_xof (e_xp e)" and "NewCount 2 (t_VDAFContext task) = Inr c"
  shows "card (cheatingPoints e t sk task variant c rep) \<le> 2" (is "card ?A \<le> 2")
proof (cases "\<exists>lin hin. leaderShare e t sk c rep lin \<and> helperShare e task variant c rep hin")
  case False
  have "?A = {}"
  proof (rule equals0I)
    fix q assume "q \<in> ?A"
    with both_accept [OF assms] False show False unfolding cheatingPoints_def by blast
  qed
  then show ?thesis by (simp only: card.empty)
next
  case True
  then obtain lin hin where l: "leaderShare e t sk c rep lin" and h: "helperShare e task variant c rep hin" by blast
  obtain lb hb where dec: "DecodeInputShare c 0 lb = Inr lin" "DecodeInputShare c 1 hb = Inr hin"
    using l h by (auto simp: leaderShare_def helperShare_def)
  have "?A \<subseteq> {q. \<exists>vk nonce ps lout lv hout hv msg. queryRands (e_xp e) c vk nonce = Some (Inr [q])
      \<and> VerifyInit (e_xp e) c vk 0 nonce ps lin = Some (Inr (lout, lv))
      \<and> VerifyInit (e_xp e) c vk 1 nonce ps hin = Some (Inr (hout, hv)) \<and> VerifierSharesToMessage c [lv, hv] = Some (Inr msg)
      \<and> Unshard c [lout, hout] 1 \<notin> {Some (Inr 0), Some (Inr 1)}}" (is "_ \<subseteq> ?B")
  proof
    fix q assume "q \<in> ?A"
    then obtain vk lout payload ord vr ra hout where q: "queryRands (e_xp e) c vk (md_ReportID (rp_Metadata rep)) = Some (Inr [q])"
      and run: "leaderStep e t sk c vk rep lout payload"
        "aggregateInit e task vk variant (verifyInitOf rep payload) ord = Some (vr, ra)" "ra_OutShare ra = Some hout"
      and bad: "Unshard c [lout, hout] 1 \<notin> {Some (Inr 0), Some (Inr 1)}" unfolding cheatingPoints_def isBit_def by blast
    obtain lv hv msg where "VerifyInit (e_xp e) c vk 0 (md_ReportID (rp_Metadata rep)) (rp_PublicShare rep) lin = Some (Inr (lout, lv))"
      "VerifyInit (e_xp e) c vk 1 (md_ReportID (rp_Metadata rep)) (rp_PublicShare rep) hin = Some (Inr (hout, hv))"
      "VerifierSharesToMessage c [lv, hv] = Some (Inr msg)"
      using both_accept [OF assms q run] leaderShare_unique [OF l] helperShare_unique [OF h] by metis
    with q bad show "q \<in> ?B" by blast
  qed
  then have "card ?A \<le> card ?B" by (intro card_mono) simp_all
  with two_share_points [OF assms(2,3) dec] show ?thesis by linarith
qed

text \<open>An honest report has no cheating points.\<close>

lemma isBit_of_sum: "gfe x + gfe y = of_int z \<Longrightarrow> z = 0 \<or> z = 1 \<Longrightarrow> isBit c [x] [y]"
  unfolding isBit_def
  using Unshard_count [of "[[x], [y]]" z c 1] by (auto simp: numeral_2_eq_2 lessThan_Suc add.commute)

lemma honest_no_cheating:
  assumes laws: "cryptobyte_laws (e_cb e)" "circl_laws (e_cl e)" "field_xof (e_xp e)"
    and enr: "enrolled t task" and keys: "keyPair (e_cl e) (t_HPKESuite task) (t_HPKEPublicKey task) (t_HPKEPrivateKey task)"
    and lkeys: "keyPair (e_cl e) (ag_Suite (mt_Leader t)) (ag_PublicKey (mt_Leader t)) sk"
    and rep: "Report e t rnd m now = Some (Inr rep)" and c: "NewCount 2 (VDAFContext t) = Inr c"
  shows "cheatingPoints e t sk task (mt_Variant t) c rep = {}"
proof (rule equals0I)
  fix q assume "q \<in> cheatingPoints e t sk task (mt_Variant t) c rep"
  then obtain vk lout payload ord vr ra hout where q: "queryRands (e_xp e) c vk (md_ReportID (rp_Metadata rep)) = Some (Inr [q])"
    and lead: "leaderStep e t sk c vk rep lout payload"
    and fin: "aggregateInit e task vk (mt_Variant t) (verifyInitOf rep payload) ord = Some (vr, ra)" "ra_OutShare ra = Some hout"
    and bad: "\<not> isBit c lout hout" unfolding cheatingPoints_def by blast
  obtain lin lv where lin: "leaderShare e t sk c rep lin"
    and v0: "VerifyInit (e_xp e) c vk 0 (md_ReportID (rp_Metadata rep)) (rp_PublicShare rep) lin = Some (Inr (lout, lv))"
    by (rule leaderStep_share [OF lead])
  obtain b where dec: "DecodeInputShare c 0 b = Inr lin" using lin by (auto simp: leaderShare_def)
  have "gfe q ^ 2 \<noteq> 1" by (rule field_xof.VerifyInit_Inr [OF laws(3) dec q v0])
  moreover have "gfe (Field_Mul q q) = gfe q ^ 2" by (simp add: power2_eq_square)
  ultimately have "Field_Mul q q \<noteq> 1" by (metis gfe_numeral(2))
  with q have good: "goodQuery (e_xp e) c vk (md_ReportID (rp_Metadata rep))" by (auto simp: goodQuery_def)
  obtain lout' payload' x ob where l': "leaderStep e t sk c vk rep lout' payload'" "length lout' = 1" "gfe (lout' ! 0) + gfe x = of_int m"
    and agg: "\<And>ord. aggregateInit e task vk (mt_Variant t) (verifyInitOf rep payload') ord
      = Some (finishedAgg (md_ReportID (rp_Metadata rep)) ord x ob)"
    by (rule honest_report [OF laws enr keys lkeys rep c good]) blast
  have same: "lout' = lout" "payload' = payload" using leaderStep_unique [OF lead l'(1)] by simp_all
  have "hout = [x]" using agg [of ord] fin by (auto simp: same finishedAgg_def Let_def)
  moreover have "lout = [lout ! 0]" using l'(2) same by (auto simp: length_Suc_conv)
  ultimately show False using isBit_of_sum [OF l'(3) Report_measurement [OF rep]] bad same by metis
qed

subsection \<open>A job of reports of any clients\<close>

text \<open>What two shares of a measurement add up to.\<close>

lemma isBit_sum:
  assumes "isBit c [x] [y]"
  obtains z where "z = 0 \<or> z = (1 :: int)" and "gfe x + gfe y = of_int z"
proof -
  define r where "r = Field_Add (Field_Add 0 x) y"
  have r: "canonical r" "gfe r = gfe x + gfe y" by (simp_all add: r_def)
  have "Unshard c [[x], [y]] 1 = Some (Inr (sint r))"
    by (simp add: Unshard_def VecAdd_def Count_sizes r_def) (simp add: Count_def Count_Decode_def)
  with assms have "sint r = 0 \<or> sint r = 1" by (auto simp: isBit_def)
  then have "sint r = sint (0 :: elt) \<or> sint r = sint (1 :: elt)" by simp
  then have "r = 0 \<or> r = 1" by (auto intro: signed_word_eqI simp del: signed_0 signed_1)
  then have "gfe r = of_int 0 \<or> gfe r = of_int 1" by auto
  then show thesis using that [of 0] that [of 1] unfolding r(2) by blast
qed

lemma initReports_nth:
  assumes "initReports e task vk v replayed i vis = Some rs"
  shows "length rs = length vis \<and> (\<forall>k<length vis. ra_State (snd (rs ! k)) = StateFinished \<longrightarrow>
    (\<exists>ord. aggregateInit e task vk v (vis ! k) ord = Some (rs ! k)))"
  using assms
proof (induction vis arbitrary: i rs)
  case (Cons vi vis)
  let ?r = "md_ReportID (rs_ReportMetadata (vi_ReportShare vi))"
  obtain y rs' where rs: "rs = y # rs'" "initReports e task vk v replayed (i + 1) vis = Some rs'"
    and hd: "if ?r \<in> replayed then snd y = rejectAgg v ?r (word_of_nat i) ReportErrorReportReplayed
      else aggregateInit e task vk v vi (word_of_nat i) = Some y"
    using Cons.prems by (auto simp: Let_def split: option.splits if_splits)
  have "ra_State (snd y) = StateFinished \<longrightarrow> (\<exists>ord. aggregateInit e task vk v vi ord = Some y)"
    using hd by (auto simp: rejectAgg_def split: if_splits)
  with Cons.IH [OF rs(2)] rs(1) show ?case by (auto simp: nth_Cons split: nat.split)
qed simp

text \<open>A report the helper finishes at a query point outside its cheating points.\<close>

lemma finished_bit:
  assumes laws: "cryptobyte_laws (e_cb e)" "field_xof (e_xp e)" and c: "NewCount 2 (t_VDAFContext task) = Inr c"
    and lead: "leaderStep e t sk c vk rep lout payload"
    and q: "queryRands (e_xp e) c vk (md_ReportID (rp_Metadata rep)) = Some (Inr [q])" "q \<notin> cheatingPoints e t sk task variant c rep"
    and fin: "aggregateInit e task vk variant (verifyInitOf rep payload) ord = Some (vr, ra)" "ra_State ra = StateFinished"
  obtains l x z where "lout = [l]" and "ra_OutShare ra = Some [x]" and "z = 0 \<or> z = (1 :: int)" and "gfe l + gfe x = of_int z"
proof -
  obtain x where out: "ra_OutShare ra = Some [x]" using aggregateInit_ra [OF laws(2) fin(1)] fin(2) by (auto simp: ra_ok_def)
  obtain lin lv where lin: "leaderShare e t sk c rep lin"
    and v0: "VerifyInit (e_xp e) c vk 0 (md_ReportID (rp_Metadata rep)) (rp_PublicShare rep) lin = Some (Inr (lout, lv))"
    by (rule leaderStep_share [OF lead])
  obtain b where dec: "DecodeInputShare c 0 b = Inr lin" using lin by (auto simp: leaderShare_def)
  have "length lout = 1" by (rule field_xof.VerifyInit_Inr [OF laws(2) dec q(1) v0])
  then obtain l where l: "lout = [l]" by (auto simp: length_Suc_conv)
  have "isBit c [l] [x]" using q lead fin(1) out unfolding l cheatingPoints_def by blast
  then show thesis by (rule isBit_sum) (rule that [OF l out])
qed

lemma map_by_index: "map f xs = map (\<lambda>k. f (xs ! k)) [0..<length xs]"
  by (intro nth_equalityI) simp_all

lemma filter_by_index: "filter Q xs = map ((!) xs) (filter (\<lambda>k. Q (xs ! k)) [0..<length xs])"
proof -
  have "filter Q xs = filter Q (map ((!) xs) [0..<length xs])" by (simp only: map_nth)
  then show ?thesis by (simp add: filter_map comp_def)
qed

lemma finished_total:
  assumes ok: "\<forall>ra\<in>set ras. ra_ok ra" and R: "int (length ras) < 9223372036854775808"
    and F: "F = filter (\<lambda>r. ra_State (ras ! r) = StateFinished) [0..<length ras]"
    and each: "\<And>r. r \<in> set F \<Longrightarrow> \<exists>l x z. lout r = [l] \<and> ra_OutShare (ras ! r) = Some [x] \<and> (z = 0 \<or> z = (1 :: int))
      \<and> gfe l + gfe x = of_int z"
  shows "\<exists>la. aggregateAll c (AggregateInit c) (map lout F) = Inr la
    \<and> (if F = [] then sumOutShares None ras = Inr None
       else \<exists>x z. sumOutShares None ras = Inr (Some [x]) \<and> Unshard c [la, [x]] (length F) = Some (Inr z)
         \<and> 0 \<le> z \<and> z \<le> int (length F))"
proof -
  obtain l x z where lxz: "\<And>r. r \<in> set F \<Longrightarrow> lout r = [l r] \<and> ra_OutShare (ras ! r) = Some [x r] \<and> (z r = 0 \<or> z r = (1 :: int))
      \<and> gfe (l r) + gfe (x r) = of_int (z r)" using each by metis
  have fin: "filter (\<lambda>ra. ra_State ra = StateFinished) ras = map ((!) ras) F" unfolding F by (rule filter_by_index)
  have "length F \<le> length ras" unfolding F using length_filter_le [of _ "[0..<length ras]"] by simp
  then have len: "int (length F) < 9223372036854775808" using R by simp
  have nth: "F ! k \<in> set F" if "k < length F" for k using that by simp
  have "map (\<lambda>r. contribution (ras ! r)) F = map (\<lambda>r. gfe (x r)) F" using lxz by (simp add: contribution_def)
  then have "sum_list (map contribution (map ((!) ras) F)) = (\<Sum>k<length F. gfe (x (F ! k)))"
    by (simp add: comp_def sum_list_sum_nth atLeast0LessThan)
  then have total: "if F = [] then sumOutShares None ras = Inr None
      else \<exists>a. sumOutShares None ras = Inr (Some [a]) \<and> gfe a = (\<Sum>k<length F. gfe (x (F ! k)))"
    using sumOutShares_total [OF ok] unfolding fin by auto
  show ?thesis
  proof (cases "F = []")
    case False
    then obtain a where a: "sumOutShares None ras = Inr (Some [a])" "gfe a = (\<Sum>k<length F. gfe (x (F ! k)))" using total by auto
    have bounds: "0 \<le> (\<Sum>k<length F. z (F ! k)) \<and> (\<Sum>k<length F. z (F ! k)) \<le> int (length F)"
      using lxz nth by (intro bit_sum_bounds) blast
    show ?thesis
    proof (rule collected_count [of "length F" "\<lambda>k. lout (F ! k)" "\<lambda>k. x (F ! k)" "\<lambda>k. z (F ! k)" a c])
      fix la assume "aggregateAll c (AggregateInit c) (map (\<lambda>k. lout (F ! k)) [0..<length F]) = Inr la"
        "Unshard c [la, [a]] (length F) = Some (Inr (\<Sum>k<length F. z (F ! k)))"
      with False a(1) bounds show ?thesis unfolding map_by_index [of lout F, symmetric] by auto
    qed (use lxz nth len a(2) in auto)
  qed (use total in simp)
qed

subsection \<open>Property\<close>

text \<open>
  C3. Clients that do not follow the protocol: whatever reports they send, with a leader that
  verifies them and the helper's code, every report has at most two query points at which it
  can be finished with output shares that are not those of a 0 or a 1; and when no query point
  of a job is one of them, the sum of the output shares of the job the helper builds and the
  leader's aggregate over the finished reports unshard to a count between 0 and the number of
  the finished reports.
\<close>

theorem malicious_clients_bounded:
  assumes laws: "cryptobyte_laws (e_cb e)" "field_xof (e_xp e)" and c: "NewCount 2 (t_VDAFContext task) = Inr c"
    and job: "buildInitJob e task vk variant jobID req reqHash replayed = Some job" and R: "R < 2 ^ 63"
    and req: "air_VerifyInits req = map (\<lambda>r. verifyInitOf (rep r) (payload r)) [0..<R]"
    and lead: "\<forall>r<R. leaderStep e t sk c vk (rep r) (lout r) (payload r)"
    and points: "\<forall>r<R. \<exists>q. queryRands (e_xp e) c vk (md_ReportID (rp_Metadata (rep r))) = Some (Inr [q])
      \<and> q \<notin> cheatingPoints e t sk task variant c (rep r)"
  shows "(\<forall>r. card (cheatingPoints e t sk task variant c (rep r)) \<le> 2)
    \<and> (let F = filter (\<lambda>r. ra_State (aj_ReportAggs job ! r) = StateFinished) [0..<R] in
       \<exists>la. aggregateAll c (AggregateInit c) (map lout F) = Inr la
        \<and> (if F = [] then sumOutShares None (aj_ReportAggs job) = Inr None
           else \<exists>x z. sumOutShares None (aj_ReportAggs job) = Inr (Some [x])
             \<and> Unshard c [la, [x]] (length F) = Some (Inr z) \<and> 0 \<le> z \<and> z \<le> int (length F)))"
proof -
  obtain rs where rs: "initReports e task vk variant replayed 0 (air_VerifyInits req) = Some rs"
    and ras: "aj_ReportAggs job = map snd rs" using job by (auto simp: buildInitJob_def makeJob_def)
  note nth = initReports_nth [OF rs, unfolded req]
  have len: "length (aj_ReportAggs job) = R" using nth by (simp add: ras)
  define F where "F = filter (\<lambda>r. ra_State (aj_ReportAggs job ! r) = StateFinished) [0..<R]"
  have each: "\<exists>l x z. lout r = [l] \<and> ra_OutShare (aj_ReportAggs job ! r) = Some [x] \<and> (z = 0 \<or> z = (1 :: int))
      \<and> gfe l + gfe x = of_int z" if "r \<in> set F" for r
  proof -
    have r: "r < R" "ra_State (snd (rs ! r)) = StateFinished" using that nth by (auto simp: F_def ras)
    then obtain ord where fin: "aggregateInit e task vk variant (verifyInitOf (rep r) (payload r)) ord = Some (rs ! r)"
      using nth by auto
    obtain q where q: "queryRands (e_xp e) c vk (md_ReportID (rp_Metadata (rep r))) = Some (Inr [q])"
      "q \<notin> cheatingPoints e t sk task variant c (rep r)" using points r(1) by blast
    have "aj_ReportAggs job ! r = snd (rs ! r)" using r(1) nth by (simp add: ras)
    then show ?thesis
      by (metis finished_bit [OF laws c lead [rule_format, OF r(1)] q _ r(2)] fin prod.collapse)
  qed
  have "int R < 9223372036854775808" using R by simp
  from finished_total [OF _ this [folded len] F_def [folded len] each]
    few_cheating_points [OF laws c] buildInitJob_facts(4) [OF laws(2) job] show ?thesis
    unfolding Let_def F_def [symmetric] by blast
qed

text \<open>A job of one report, whose client is honest, so that no query point is a cheating one.\<close>

theorem malicious_clients_bounded_witness:
  "\<exists>rep lout payload job la x z. leaderStep sampleEnv sampleMatrix [5] sampleCount sampleKey rep lout payload
    \<and> buildInitJob sampleEnv sampleTask sampleKey VariantDraft18 [] (sampleInit [verifyInitOf rep payload]) [] {} = Some job
    \<and> card (cheatingPoints sampleEnv sampleMatrix [5] sampleTask VariantDraft18 sampleCount rep) \<le> 2
    \<and> aggregateAll sampleCount (AggregateInit sampleCount) [lout] = Inr la
    \<and> sumOutShares None (aj_ReportAggs job) = Inr (Some [x])
    \<and> Unshard sampleCount [la, [x]] 1 = Some (Inr z) \<and> 0 \<le> z \<and> z \<le> 1"
proof -
  have ctx: "NewCount 2 (t_VDAFContext sampleTask) = Inr sampleCount"
    using sampleCount sample_enrolled by (simp add: enrolled_def contexts_agree)
  have var: "mt_Variant sampleMatrix = VariantDraft18" by (simp add: sampleMatrix_def)
  obtain rep lout payload x ob where rep: "Report sampleEnv sampleMatrix sampleReader 1 7205 = Some (Inr rep)"
    and l: "leaderStep sampleEnv sampleMatrix [5] sampleCount sampleKey rep lout payload"
    and f: "\<And>ord. aggregateInit sampleEnv sampleTask sampleKey VariantDraft18 (verifyInitOf rep payload) ord
      = Some (finishedAgg (md_ReportID (rp_Metadata rep)) ord x ob)"
  proof -
    show thesis by (rule sample_batch) (rule that)
  qed
  have none: "cheatingPoints sampleEnv sampleMatrix [5] sampleTask VariantDraft18 sampleCount rep = {}"
    by (rule honest_no_cheating [OF sampleEnv_laws(1-3) sample_enrolled sampleTask_keys rep sampleCount, unfolded var])
  let ?req = "sampleInit [verifyInitOf rep payload]"
  obtain job where job: "buildInitJob sampleEnv sampleTask sampleKey VariantDraft18 [] ?req [] {} = Some job"
    and ras: "map ra_State (aj_ReportAggs job) = [StateFinished]"
    using f [of 0] by (simp add: buildInitJob_def sampleInit_def makeJob_def finishedAgg_def Let_def)
  have req: "air_VerifyInits ?req = map (\<lambda>_ :: nat. verifyInitOf rep payload) [0..<1]" by (simp add: sampleInit_def)
  have "\<forall>r<(1 :: nat). \<exists>q. queryRands (e_xp sampleEnv) sampleCount sampleKey (md_ReportID (rp_Metadata rep)) = Some (Inr [q])
      \<and> q \<notin> cheatingPoints sampleEnv sampleMatrix [5] sampleTask VariantDraft18 sampleCount rep"
    using sample_query [of sampleCount sampleKey "md_ReportID (rp_Metadata rep)"] none by (auto simp: goodQuery_def)
  note inst = malicious_clients_bounded [OF sampleEnv_laws(1,3) ctx job _ req _ this, where lout = "\<lambda>_. lout"]
  have "filter (\<lambda>r. ra_State (aj_ReportAggs job ! r) = StateFinished) [0..<1] = [0]"
    using ras by (cases "aj_ReportAggs job") auto
  then show ?thesis using inst l job by (auto simp: Let_def) blast
qed

end
