(* ===== verification/Privacy.thy ===== *)
theory Privacy
  imports Soundness
begin

text \<open>
  Privacy of Prio3Count between two aggregators, each following the protocol, with the XOF's output
  at one usage idealised as uniform: what an aggregator sees of a report is distributed the
  same for a measurement of 0 and of 1. Equal distribution is stated as a bijection of the idealised
  randomness under which the views of the two measurements agree.
\<close>

subsection \<open>Views\<close>

text \<open>The XOF with a chosen output at one usage.\<close>

definition withRands :: "prio3_count \<Rightarrow> 16 word \<Rightarrow> elt list \<Rightarrow> expander \<Rightarrow> expander" where
  "withRands c usage v xp =
     (\<lambda>seed tag bnd len. if tag = dst c usage \<and> len = length v then Some (Inr v) else xp seed tag bnd len)"

text \<open>What the helper sees of a report: the public share, its own input share, which with the key and
  the nonce is all its own computation uses, and the leader's verifier share.\<close>

definition helperView :: "expander \<Rightarrow> prio3_count \<Rightarrow> bytes \<Rightarrow> int \<Rightarrow> bytes \<Rightarrow> bytes \<Rightarrow> (bytes \<times> input_share \<times> elt list res) option" where
  "helperView xp c vk m nonce rand =
     (case Shard xp c m nonce rand of
        Some (Inr (ps, [leader, helper])) \<Rightarrow>
          Some (ps, helper, andThen (VerifyInit xp c vk 0 nonce ps leader) (\<lambda>(out, v). Some (Inr v)))
      | _ \<Rightarrow> None)"

text \<open>What the leader sees: the public share and its own input share; the helper answers with the empty
  verifier message, or rejects.\<close>

definition leaderView :: "expander \<Rightarrow> prio3_count \<Rightarrow> int \<Rightarrow> bytes \<Rightarrow> bytes \<Rightarrow> (bytes \<times> input_share) option" where
  "leaderView xp c m nonce rand =
     (case Shard xp c m nonce rand of Some (Inr (ps, [leader, helper])) \<Rightarrow> Some (ps, leader) | _ \<Rightarrow> None)"

definition vectors :: "nat \<Rightarrow> elt list set" where
  "vectors k = {v. length v = k \<and> list_all canonical v}"

text \<open>Adding a fixed vector permutes the vectors.\<close>

lemma Field_Add_Sub: "canonical a \<Longrightarrow> canonical d \<Longrightarrow> Field_Sub (Field_Add a d) d = a"
  and Field_Sub_Add: "canonical a \<Longrightarrow> canonical d \<Longrightarrow> Field_Add (Field_Sub a d) d = a"
  by (simp_all add: gfe_inject [symmetric])

lemma shift_bij:
  assumes "ds \<in> vectors k"
  shows "bij_betw (\<lambda>v. map2 Field_Add v ds) (vectors k) (vectors k)"
  by (rule bij_betw_byWitness [where f' = "\<lambda>v. map2 Field_Sub v ds"])
    (use assms in \<open>auto simp: vectors_def list_all_length Field_Add_Sub Field_Sub_Add intro!: nth_equalityI\<close>)

subsection \<open>A report in two shares\<close>

lemma usages_distinct: "dst c u = dst c u' \<longleftrightarrow> u = u'"
  by (simp add: dst_def DomainSeparationTag_injective)

lemmas usage_defs = UsageMeasShare_def UsageProofShare_def UsageProveRandomness_def UsageQueryRandomness_def

lemma withRands_field_xof: "field_xof xp \<Longrightarrow> list_all canonical v \<Longrightarrow> field_xof (withRands c usage v xp)"
  by (auto simp: field_xof_def withRands_def split: if_splits)

lemma Shard_two:
  assumes c: "NewCount 2 ctx = Inr c" and m: "m = 0 \<or> m = 1" and "length nonce = 16" and "length rand = 64"
    and "helperMeasShare xp c 1 (take 32 rand) = Some (Inr h)" "length h = 1"
    and "helperProofsShare xp c 1 (take 32 rand) = Some (Inr hp)" "length hp = 5"
    and "proveRands xp c (drop 32 rand) = Some (Inr r)" "length r = 2"
    and "Prove Count [word_of_int m] r [] = Some pf" "length pf = 5"
  shows "Shard xp c m nonce rand = Some (Inr ([],
    [\<lparr>is_AggID = 0, is_MeasShare = map2 Field_Sub [word_of_int m] h, is_ProofsShare = map2 Field_Sub pf hp, is_Seed = []\<rparr>,
     \<lparr>is_AggID = 1, is_MeasShare = [], is_ProofsShare = [], is_Seed = take 32 rand\<rparr>]))"
proof -
  have n: "c_shares c = 2" using shares_bounds [OF c] by simp
  have "[0..<2] = [0, 1 :: nat]" by (simp add: upt_rec)
  moreover have "v_Encode Count m = Inr [word_of_int m]" using m by (simp add: Count_Encode_Inr)
  ultimately show ?thesis
    using assms(3-12) by (simp add: Shard_def n NonceSize_def RandSize_def SeedSize_def Let_def wrapErr_def VecSub_def Count_sizes)
qed

lemma withRands_prove [simp]:
  "helperMeasShare (withRands c UsageProveRandomness v xp) c = helperMeasShare xp c"
  "helperProofsShare (withRands c UsageProveRandomness v xp) c = helperProofsShare xp c"
  "queryRands (withRands c UsageProveRandomness v xp) c = queryRands xp c"
  "length v = 2 \<Longrightarrow> proveRands (withRands c UsageProveRandomness v xp) c s = Some (Inr v)"
  by (auto simp: fun_eq_iff withRands_def helperMeasShare_def helperProofsShare_def queryRands_def proveRands_def
      usages_distinct usage_defs wrapErr_def Count_sizes proofs_def)

lemma withRands_shares [simp]:
  "proveRands (withRands c UsageMeasShare h (withRands c UsageProofShare p xp)) c = proveRands xp c"
  "length h = 1 \<Longrightarrow> helperMeasShare (withRands c UsageMeasShare h (withRands c UsageProofShare p xp)) c i s = Some (Inr h)"
  "length p = 5 \<Longrightarrow> helperProofsShare (withRands c UsageMeasShare h (withRands c UsageProofShare p xp)) c i s = Some (Inr p)"
  by (auto simp: fun_eq_iff withRands_def helperMeasShare_def helperProofsShare_def proveRands_def
      usages_distinct usage_defs wrapErr_def Count_sizes proofs_def)

definition eltOf :: "gf \<Rightarrow> elt" where
  "eltOf g = word_of_int (Rep_gf g)"

lemma eltOf [simp]: "canonical (eltOf g)" "gfe (eltOf g) = g" "canonical a \<Longrightarrow> eltOf (gfe a) = a"
  using canonical_of_gf [of g] canonical_of_gf [of "gfe a"] by (simp_all add: eltOf_def gfe_inject [symmetric])

lemma map_eltOf: "list_all canonical v \<Longrightarrow> map gfe v = gs \<Longrightarrow> v = map eltOf gs"
  by (auto simp: list_all_iff intro!: nth_equalityI)

text \<open>The proof of a measurement, and the verifier share of the leader, who holds the difference of the
  measurement and of its proof with what the helper expands.\<close>

lemma honest_proof:
  assumes "m = 0 \<or> m = 1" and "r \<in> vectors 2"
  obtains pf where "Prove Count [word_of_int m] r [] = Some pf" and "pf \<in> vectors 5" and "take 2 pf = r"
    and "gfe (pf ! 4) = of_int m" and "quad (gfe (pf ! 2)) (gfe (pf ! 3)) (gfe (pf ! 4)) = gadget_poly (gfe (r ! 0)) (gfe (r ! 1)) (of_int m)"
proof -
  obtain r0 r1 where r: "r = [r0, r1]" "canonical r0" "canonical r1"
    using assms(2) by (auto simp: vectors_def length_Suc_conv numeral_2_eq_2)
  have m: "canonical (word_of_int m)" "gfe (word_of_int m) = of_int m" "of_int m * of_int m = (of_int m :: gf)" using assms(1) by auto
  have can: "list_all canonical [word_of_int m, r0, r1]" using m r by simp
  obtain m0 m1 m2 where pf: "Prove Count [word_of_int m] [r0, r1] [] = Some [r0, r1, m0, m1, m2]" "list_all canonical [m0, m1, m2]"
    "quad (gfe m0) (gfe m1) (gfe m2) = gadget_poly (gfe r0) (gfe r1) (of_int m)"
    using Prove_Count [OF can, of "[]"] unfolding m(2) by metis
  have "gfe m2 = gadget_poly (gfe r0) (gfe r1) (of_int m) (- 1)"
    unfolding pf(3) [symmetric] by (simp add: quad_values)
  then have "gfe m2 = of_int m" by (simp add: gadget_poly_def wire_values m(3))
  with pf r show thesis by (intro that [of "[r0, r1, m0, m1, m2]"]) (simp_all add: vectors_def)
qed

lemma count_verifier_diff:
  "count_verifier (x - x') (s0 - s0') (s1 - s1') (g0 - g0') (g1 - g1') (g2 - g2') t
     = map2 (-) (count_verifier x s0 s1 g0 g1 g2 t) (count_verifier x' s0' s1' g0' g1' g2' t)"
proof -
  have "wire (s - s') (y - y') t = wire s y t - wire s' y' t" for s s' y y'
    by (simp only: wire_def left_diff_distrib) simp
  moreover have "quad (g0 - g0') (g1 - g1') (g2 - g2') t = quad g0 g1 g2 t - quad g0' g1' g2' t"
    by (simp only: quad_def left_diff_distrib) simp
  ultimately show ?thesis by (simp add: count_verifier_def)
qed

definition leaderVerifier :: "gf \<Rightarrow> gf list \<Rightarrow> gf \<Rightarrow> gf list \<Rightarrow> gf \<Rightarrow> gf list" where
  "leaderVerifier m r h p t =
     (let w0 = wire (r ! 0) m t; w1 = wire (r ! 1) m t
      in map2 (-) [0, w0, w1, w0 * w1] (count_verifier h (p ! 0) (p ! 1) (p ! 2) (p ! 3) (p ! 4) t))"

lemma leader_verifies:
  assumes c: "NewCount 2 ctx = Inr c" and q: "queryRands xp c vk nonce = Some (Inr [t])" and t: "gfe t ^ 2 \<noteq> 1"
    and xof: "field_xof xp" and m: "m = 0 \<or> m = 1" and r: "r \<in> vectors 2" and h: "h \<in> vectors 1" and hp: "hp \<in> vectors 5"
    and pf: "Prove Count [word_of_int m] r [] = Some pf"
  shows "\<exists>out. VerifyInit xp c vk 0 nonce []
      \<lparr>is_AggID = 0, is_MeasShare = map2 Field_Sub [word_of_int m] h, is_ProofsShare = map2 Field_Sub pf hp, is_Seed = []\<rparr>
    = Some (Inr (out, map eltOf (leaderVerifier (of_int m) (map gfe r) (gfe (h ! 0)) (map gfe hp) (gfe t))))"
proof -
  obtain pf' where p: "pf' = pf" "pf \<in> vectors 5" "take 2 pf = r" "gfe (pf ! 4) = of_int m"
      "quad (gfe (pf ! 2)) (gfe (pf ! 3)) (gfe (pf ! 4)) = gadget_poly (gfe (r ! 0)) (gfe (r ! 1)) (of_int m)"
    using honest_proof [OF m r] pf by (metis option.inject)
  let ?in = "\<lparr>is_AggID = 0, is_MeasShare = map2 Field_Sub [word_of_int m] h, is_ProofsShare = map2 Field_Sub pf hp, is_Seed = []\<rparr>"
  have mc: "canonical (word_of_int m)" "gfe (word_of_int m) = of_int m" using m by auto
  have each: "canonical (pf ! k) \<and> canonical (hp ! k)" if "k < 5" for k using p(2) hp that by (simp add: vectors_def list_all_length)
  have hc: "canonical (h ! 0)" and hl: "length h = 1" using h by (simp_all add: vectors_def list_all_length)
  have len: "length pf = 5" "length hp = 5" using p(2) hp by (simp_all add: vectors_def)
  have ex: "expandInputShare xp c ?in = Some (Inr (map2 Field_Sub [word_of_int m] h, map2 Field_Sub pf hp))"
    by (simp add: expandInputShare_def)
  have shares: "length (map2 Field_Sub [word_of_int m] h) = 1" "length (map2 Field_Sub pf hp) = 5"
    "list_all canonical (map2 Field_Sub [word_of_int m] h)" "list_all canonical (map2 Field_Sub pf hp)"
    using hl hc mc len each by (simp_all add: list_all_length)
  have "unat (0 :: 8 word) < unat (c_shares c)" using shares_bounds [OF c] by simp
  then obtain vs where vs: "VerifyInit xp c vk 0 nonce [] ?in = Some (Inr (map2 Field_Sub [word_of_int m] h, vs))"
    "list_all canonical vs"
    "map gfe vs = count_verifier (of_int m - gfe (h ! 0)) (gfe (pf ! 0) - gfe (hp ! 0)) (gfe (pf ! 1) - gfe (hp ! 1))
        (gfe (pf ! 2) - gfe (hp ! 2)) (gfe (pf ! 3) - gfe (hp ! 3)) (gfe (pf ! 4) - gfe (hp ! 4)) (gfe t)"
    using field_xof.VerifyInit_share [OF xof _ _ ex shares q t, of 0 "[]"] hl hc mc len each by auto
  have "pf ! 0 = r ! 0" "pf ! 1 = r ! 1" using p(3) by (auto simp: nth_take [symmetric])
  then have "map gfe vs = leaderVerifier (of_int m) (map gfe r) (gfe (h ! 0)) (map gfe hp) (gfe t)"
    using p(4,5) len r unfolding vs(3) count_verifier_diff
    by (simp add: leaderVerifier_def Let_def count_verifier_def gadget_poly_def vectors_def)
  from map_eltOf [OF vs(2) this] vs(1) show ?thesis by blast
qed

lemma leader_root:
  assumes c: "NewCount 2 ctx = Inr c" and q: "queryRands xp c vk nonce = Some (Inr [t])" and t: "gfe t ^ 2 = 1"
    and ms: "ms \<in> vectors 1" and pf: "pf \<in> vectors 5"
  shows "VerifyInit xp c vk 0 nonce [] \<lparr>is_AggID = 0, is_MeasShare = ms, is_ProofsShare = pf, is_Seed = []\<rparr>
    = Some (Inl (FlpError ErrTestPointRootOfUnity))"
proof -
  obtain x where x: "ms = [x]" "canonical x" using ms by (auto simp: vectors_def length_Suc_conv)
  have p: "pf = [pf ! 0, pf ! 1, pf ! 2, pf ! 3, pf ! 4]" and len: "length pf = 5"
    using pf list_5 by (auto simp: vectors_def)
  have "list_all canonical [x, pf ! 0, pf ! 1, pf ! 2, pf ! 3, pf ! 4]"
    using x list_all_5 [of canonical pf] pf by (simp add: vectors_def)
  from Query_Count_root [OF this t, of "[]" "unat (c_shares c)"]
  have "Query Count ms pf [t] [] (unat (c_shares c)) = Some (Inl ErrTestPointRootOfUnity)" by (simp only: x p [symmetric])
  then show ?thesis
    using shares_bounds [OF c] q len by (simp add: VerifyInit_def expandInputShare_def wrapErr_def Count_sizes)
qed

lemma vectors_sub: "u \<in> vectors k \<Longrightarrow> v \<in> vectors k \<Longrightarrow> map2 Field_Sub u v \<in> vectors k"
  by (auto simp: vectors_def list_all_length)

lemma helperView_two:
  assumes c: "NewCount 2 ctx = Inr c" and xof: "field_xof xp" and m: "m = 0 \<or> m = 1"
    and len: "length nonce = 16" "length rand = 64" and r: "r \<in> vectors 2"
    and h: "helperMeasShare xp c 1 (take 32 rand) = Some (Inr h)" and hp: "helperProofsShare xp c 1 (take 32 rand) = Some (Inr hp)"
    and q: "queryRands xp c vk nonce = Some (Inr [t])"
  shows "helperView (withRands c UsageProveRandomness r xp) c vk m nonce rand
    = Some ([], \<lparr>is_AggID = 1, is_MeasShare = [], is_ProofsShare = [], is_Seed = take 32 rand\<rparr>,
        if gfe t ^ 2 = 1 then Some (Inl (FlpError ErrTestPointRootOfUnity))
        else Some (Inr (map eltOf (leaderVerifier (of_int m) (map gfe r) (gfe (h ! 0)) (map gfe hp) (gfe t)))))"
proof -
  let ?xp = "withRands c UsageProveRandomness r xp"
  have hv: "h \<in> vectors 1" "hp \<in> vectors 5"
    using field_xof.expansion_lengths(1) [OF xof h] field_xof.expansion_lengths(2) [OF xof hp] by (simp_all add: vectors_def)
  have rl: "length r = 2" "list_all canonical r" using r by (simp_all add: vectors_def)
  obtain pf where pf: "Prove Count [word_of_int m] r [] = Some pf" "pf \<in> vectors 5" by (rule honest_proof [OF m r])
  let ?leader = "\<lparr>is_AggID = 0, is_MeasShare = map2 Field_Sub [word_of_int m] h, is_ProofsShare = map2 Field_Sub pf hp, is_Seed = []\<rparr>"
  have sh: "Shard ?xp c m nonce rand = Some (Inr ([], [?leader,
      \<lparr>is_AggID = 1, is_MeasShare = [], is_ProofsShare = [], is_Seed = take 32 rand\<rparr>]))"
    by (rule Shard_two [OF c m len _ _ _ _ _ rl(1) pf(1)]) (use h hp hv rl pf(2) in \<open>simp_all add: vectors_def\<close>)
  have "[word_of_int m] \<in> vectors 1" using m by (auto simp: vectors_def)
  note lv = vectors_sub [OF this hv(1)] vectors_sub [OF pf(2) hv(2)]
  have q': "queryRands ?xp c vk nonce = Some (Inr [t])" using q by simp
  show ?thesis
  proof (cases "gfe t ^ 2 = 1")
    case True
    then show ?thesis unfolding helperView_def sh by (simp add: leader_root [OF c q' True lv, simplified])
  next
    case False
    then show ?thesis
      using leader_verifies [OF c q' False withRands_field_xof [OF xof rl(2)] m r hv pf(1)]
      unfolding helperView_def sh by auto
  qed
qed

text \<open>Moving the proof's seeds absorbs the measurement in both wires at once.\<close>

lemma wire_shift:
  assumes "t \<noteq> - 1"
  shows "wire (s + (x - x') * ((1 - t) / 2) / ((t + 1) / 2)) x' t = wire s x t"
proof -
  have "t + 1 \<noteq> 0" using assms by (simp add: eq_neg_iff_add_eq_0)
  then have ne: "(t + 1) / 2 \<noteq> 0" using two_nonzero by simp
  have "(s + (x - x') * b / a) * a + x' * b = s * a + x * b" if "a \<noteq> 0" for a b :: gf
    using that by (simp add: distrib_right left_diff_distrib diff_divide_distrib)
  from this [OF ne] show ?thesis unfolding wire_def .
qed

lemma helper_private:
  assumes c: "NewCount 2 ctx = Inr c" and xof: "field_xof xp" and m: "m = 0 \<or> m = 1" "m' = 0 \<or> m' = 1"
    and len: "length nonce = 16" "length rand = 64"
    and h: "helperMeasShare xp c 1 (take 32 rand) = Some (Inr h)" and hp: "helperProofsShare xp c 1 (take 32 rand) = Some (Inr hp)"
    and q: "queryRands xp c vk nonce = Some (Inr [t])"
  obtains f where "bij_betw f (vectors 2) (vectors 2)"
    and "\<And>r. r \<in> vectors 2 \<Longrightarrow> helperView (withRands c UsageProveRandomness (f r) xp) c vk m' nonce rand
      = helperView (withRands c UsageProveRandomness r xp) c vk m nonce rand"
proof -
  define d where "d = (of_int m - of_int m') * ((1 - gfe t) / 2) / ((gfe t + 1) / 2)"
  define f where "f r = map2 Field_Add r [eltOf d, eltOf d]" for r
  have bij: "bij_betw f (vectors 2) (vectors 2)" unfolding f_def by (rule shift_bij) (simp add: vectors_def)
  note view = helperView_two [OF c xof _ len _ h hp q]
  show thesis
  proof (rule that [OF bij])
    fix r assume r: "r \<in> vectors 2"
    then have fr: "f r \<in> vectors 2" using bij by (auto simp: bij_betw_def)
    have "leaderVerifier (of_int m') (map gfe (f r)) (gfe (h ! 0)) (map gfe hp) (gfe t)
        = leaderVerifier (of_int m) (map gfe r) (gfe (h ! 0)) (map gfe hp) (gfe t)" if "gfe t ^ 2 \<noteq> 1"
    proof -
      have "gfe t \<noteq> - 1" using that by auto
      moreover obtain r0 r1 where "r = [r0, r1]" using r by (auto simp: vectors_def length_Suc_conv numeral_2_eq_2)
      ultimately show ?thesis using wire_shift [of "gfe t"] by (simp add: leaderVerifier_def f_def d_def Let_def)
    qed
    then show "helperView (withRands c UsageProveRandomness (f r) xp) c vk m' nonce rand
      = helperView (withRands c UsageProveRandomness r xp) c vk m nonce rand"
      by (simp add: view [OF m(1) r] view [OF m(2) fr])
  qed
qed

lemma leaderView_two:
  assumes c: "NewCount 2 ctx = Inr c" and m: "m = 0 \<or> m = 1" and len: "length nonce = 16" "length rand = 64"
    and h: "h \<in> vectors 1" and p: "p \<in> vectors 5" and r: "r \<in> vectors 2" "proveRands xp c (drop 32 rand) = Some (Inr r)"
    and pf: "Prove Count [word_of_int m] r [] = Some pf"
  shows "leaderView (withRands c UsageMeasShare h (withRands c UsageProofShare p xp)) c m nonce rand
    = Some ([], \<lparr>is_AggID = 0, is_MeasShare = map2 Field_Sub [word_of_int m] h, is_ProofsShare = map2 Field_Sub pf p, is_Seed = []\<rparr>)"
proof -
  have "pf \<in> vectors 5" using honest_proof [OF m r(1)] pf by (metis option.inject)
  then show ?thesis
    using Shard_two [OF c m len, of "withRands c UsageMeasShare h (withRands c UsageProofShare p xp)" h p r pf] h p r pf
    by (simp add: leaderView_def vectors_def)
qed

lemma sub_shift:
  assumes "u \<in> vectors k" "u' \<in> vectors k" "v \<in> vectors k"
  shows "map2 Field_Sub u' (map2 Field_Add v (map2 Field_Sub u' u)) = map2 Field_Sub u v"
  using assms by (auto simp: vectors_def list_all_length gfe_inject [symmetric] intro!: nth_equalityI)

lemma leader_private:
  assumes c: "NewCount 2 ctx = Inr c" and m: "m = 0 \<or> m = 1" "m' = 0 \<or> m' = 1"
    and len: "length nonce = 16" "length rand = 64" and r: "r \<in> vectors 2" "proveRands xp c (drop 32 rand) = Some (Inr r)"
  obtains g where "bij_betw g (vectors 1 \<times> vectors 5) (vectors 1 \<times> vectors 5)"
    and "\<And>h p. h \<in> vectors 1 \<Longrightarrow> p \<in> vectors 5 \<Longrightarrow>
      (case g (h, p) of (h', p') \<Rightarrow> leaderView (withRands c UsageMeasShare h' (withRands c UsageProofShare p' xp)) c m' nonce rand)
      = leaderView (withRands c UsageMeasShare h (withRands c UsageProofShare p xp)) c m nonce rand"
proof -
  obtain pf where pf: "Prove Count [word_of_int m] r [] = Some pf" "pf \<in> vectors 5" by (rule honest_proof [OF m(1) r(1)])
  obtain pf' where pf': "Prove Count [word_of_int m'] r [] = Some pf'" "pf' \<in> vectors 5" by (rule honest_proof [OF m(2) r(1)])
  have mv: "[word_of_int m] \<in> vectors 1" "[word_of_int m'] \<in> vectors 1" using m by (auto simp: vectors_def)
  define a b where "a h = map2 Field_Add h (map2 Field_Sub [word_of_int m'] [word_of_int m])"
    and "b p = map2 Field_Add p (map2 Field_Sub pf' pf)" for h p
  have bij: "bij_betw a (vectors 1) (vectors 1)" "bij_betw b (vectors 5) (vectors 5)"
    unfolding a_def b_def by (intro shift_bij vectors_sub mv pf pf')+
  have "bij_betw (map_prod a b) (vectors 1 \<times> vectors 5) (vectors 1 \<times> vectors 5)"
    by (rule bij_betw_map_prod [OF bij])
  then show thesis
  proof (rule that)
    fix h p assume hp: "h \<in> vectors 1" "p \<in> vectors 5"
    then have "a h \<in> vectors 1" "b p \<in> vectors 5" using bij by (auto simp: bij_betw_def)
    note v' = leaderView_two [OF c m(2) len this r pf'(1)] and v = leaderView_two [OF c m(1) len hp r pf(1)]
    have "map2 Field_Sub [word_of_int m'] (a h) = map2 Field_Sub [word_of_int m] h"
      and "map2 Field_Sub pf' (b p) = map2 Field_Sub pf p"
      unfolding a_def b_def by (rule sub_shift mv hp pf pf')+
    then show "(case map_prod a b (h, p) of (h', p') \<Rightarrow>
        leaderView (withRands c UsageMeasShare h' (withRands c UsageProofShare p' xp)) c m' nonce rand)
      = leaderView (withRands c UsageMeasShare h (withRands c UsageProofShare p xp)) c m nonce rand"
      by (simp only: map_prod_simp prod.case v v')
  qed
qed

subsection \<open>Expansions that fail\<close>

text \<open>A report exists only if the helper's two expansions and the prove randomness do; without query
  randomness the leader's verifier share is the XOF's own failure.\<close>

lemma Shard_two_Inr:
  assumes c: "NewCount 2 ctx = Inr c" and len: "length nonce = 16" "length rand = 64"
    and sh: "Shard xp c m nonce rand = Some (Inr y)"
  shows "(\<exists>h. helperMeasShare xp c 1 (take 32 rand) = Some (Inr h)) \<and> (\<exists>p. helperProofsShare xp c 1 (take 32 rand) = Some (Inr p))
    \<and> (\<exists>r. proveRands xp c (drop 32 rand) = Some (Inr r))"
proof -
  have n: "c_shares c = 2" using shares_bounds [OF c] by simp
  have two: "[0..<2] = [0, 1 :: nat]" by (simp add: upt_rec)
  show ?thesis
    using sh len unfolding Shard_def
    by (auto simp: n two NonceSize_def RandSize_def SeedSize_def Let_def andThen_Inr_iff)
qed

lemma leader_no_query:
  assumes c: "NewCount 2 ctx = Inr c" and q: "\<nexists>t. queryRands xp c vk nonce = Some (Inr t)"
  shows "andThen (VerifyInit xp c vk 0 nonce ps \<lparr>is_AggID = 0, is_MeasShare = ms, is_ProofsShare = pf, is_Seed = []\<rparr>)
      (\<lambda>(out, v). Some (Inr v)) = andThen (queryRands xp c vk nonce) (\<lambda>t. Some (Inr []))"
  using shares_bounds [OF c] q
  by (cases "queryRands xp c vk nonce" rule: option.exhaust)
    (auto simp: VerifyInit_def expandInputShare_def andThen_def split: sum.split)

lemma helperView_no_query:
  assumes c: "NewCount 2 ctx = Inr c" and xof: "field_xof xp" and m: "m = 0 \<or> m = 1"
    and len: "length nonce = 16" "length rand = 64" and r: "r \<in> vectors 2"
    and h: "helperMeasShare xp c 1 (take 32 rand) = Some (Inr h)" and hp: "helperProofsShare xp c 1 (take 32 rand) = Some (Inr hp)"
    and q: "\<nexists>t. queryRands xp c vk nonce = Some (Inr t)"
  shows "helperView (withRands c UsageProveRandomness r xp) c vk m nonce rand
    = Some ([], \<lparr>is_AggID = 1, is_MeasShare = [], is_ProofsShare = [], is_Seed = take 32 rand\<rparr>,
        andThen (queryRands xp c vk nonce) (\<lambda>t. Some (Inr [])))"
proof -
  let ?xp = "withRands c UsageProveRandomness r xp"
  have hv: "length h = 1" "length hp = 5"
    using field_xof.expansion_lengths(1) [OF xof h] field_xof.expansion_lengths(2) [OF xof hp] by simp_all
  have rl: "length r = 2" using r by (simp add: vectors_def)
  obtain pf where pf: "Prove Count [word_of_int m] r [] = Some pf" "pf \<in> vectors 5" by (rule honest_proof [OF m r])
  have sh: "Shard ?xp c m nonce rand = Some (Inr ([],
      [\<lparr>is_AggID = 0, is_MeasShare = map2 Field_Sub [word_of_int m] h, is_ProofsShare = map2 Field_Sub pf hp, is_Seed = []\<rparr>,
       \<lparr>is_AggID = 1, is_MeasShare = [], is_ProofsShare = [], is_Seed = take 32 rand\<rparr>]))"
    by (rule Shard_two [OF c m len _ _ _ _ _ rl pf(1)]) (use h hp hv rl pf(2) in \<open>simp_all add: vectors_def\<close>)
  have "\<nexists>t. queryRands ?xp c vk nonce = Some (Inr t)" using q by simp
  note leader_no_query [OF c this]
  then show ?thesis unfolding helperView_def sh by simp
qed

lemma helperView_exists:
  assumes c: "NewCount 2 ctx = Inr c" and xof: "field_xof xp" and m: "m = 0 \<or> m = 1"
    and len: "length nonce = 16" "length rand = 64" and r: "r \<in> vectors 2"
  shows "helperView (withRands c UsageProveRandomness r xp) c vk m nonce rand \<noteq> None
    \<longleftrightarrow> (\<exists>h. helperMeasShare xp c 1 (take 32 rand) = Some (Inr h))
      \<and> (\<exists>p. helperProofsShare xp c 1 (take 32 rand) = Some (Inr p))" (is "?view \<noteq> None \<longleftrightarrow> ?ok")
proof
  assume "?view \<noteq> None"
  then obtain y where "Shard (withRands c UsageProveRandomness r xp) c m nonce rand = Some (Inr y)"
    by (auto simp: helperView_def split: option.splits sum.splits)
  from Shard_two_Inr [OF c len this] show ?ok by simp
next
  assume ?ok
  then obtain h hp where h: "helperMeasShare xp c 1 (take 32 rand) = Some (Inr h)"
    and hp: "helperProofsShare xp c 1 (take 32 rand) = Some (Inr hp)" by blast
  show "?view \<noteq> None"
  proof (cases "\<exists>t. queryRands xp c vk nonce = Some (Inr t)")
    case True
    then obtain t where t: "queryRands xp c vk nonce = Some (Inr [t])"
      using field_xof.expansion_lengths(4) [OF xof] by (fastforce simp: length_Suc_conv)
    show ?thesis unfolding helperView_two [OF c xof m len r h hp t] by simp
  next
    case False
    show ?thesis unfolding helperView_no_query [OF c xof m len r h hp False] by simp
  qed
qed

text \<open>The helper's side, whatever the expansions do.\<close>

lemma helper_side:
  assumes c: "NewCount 2 ctx = Inr c" and xof: "field_xof xp" and m: "m = 0 \<or> m = 1" "m' = 0 \<or> m' = 1"
    and len: "length nonce = 16" "length rand = 64"
  shows "\<exists>f. bij_betw f (vectors 2) (vectors 2)
    \<and> (\<forall>r\<in>vectors 2. helperView (withRands c UsageProveRandomness (f r) xp) c vk m' nonce rand
        = helperView (withRands c UsageProveRandomness r xp) c vk m nonce rand)"
proof (cases "\<exists>h p. helperMeasShare xp c 1 (take 32 rand) = Some (Inr h) \<and> helperProofsShare xp c 1 (take 32 rand) = Some (Inr p)")
  case False
  then have "helperView (withRands c UsageProveRandomness r xp) c vk n nonce rand = None"
    if "n = 0 \<or> n = 1" "r \<in> vectors 2" for n r
    using helperView_exists [OF c xof that(1) len that(2)] by blast
  with m show ?thesis by (intro exI [of _ id]) simp
next
  case True
  then obtain h p where h: "helperMeasShare xp c 1 (take 32 rand) = Some (Inr h)"
    and p: "helperProofsShare xp c 1 (take 32 rand) = Some (Inr p)" by blast
  show ?thesis
  proof (cases "\<exists>t. queryRands xp c vk nonce = Some (Inr t)")
    case True
    then obtain t where "queryRands xp c vk nonce = Some (Inr [t])"
      using field_xof.expansion_lengths(4) [OF xof] by (fastforce simp: length_Suc_conv)
    from helper_private [OF c xof m len h p this] show ?thesis by metis
  next
    case False
    note view = helperView_no_query [OF c xof _ len _ h p False]
    show ?thesis by (rule exI [of _ id]) (simp add: view [OF m(1)] view [OF m(2)])
  qed
qed

lemma leader_side:
  assumes c: "NewCount 2 ctx = Inr c" and xof: "field_xof xp" and m: "m = 0 \<or> m = 1" "m' = 0 \<or> m' = 1"
    and len: "length nonce = 16" "length rand = 64"
  shows "\<exists>g. bij_betw g (vectors 1 \<times> vectors 5) (vectors 1 \<times> vectors 5)
    \<and> (\<forall>h\<in>vectors 1. \<forall>p\<in>vectors 5.
        (leaderView (withRands c UsageMeasShare h (withRands c UsageProofShare p xp)) c m nonce rand \<noteq> None
          \<longleftrightarrow> (\<exists>r. proveRands xp c (drop 32 rand) = Some (Inr r)))
      \<and> (case g (h, p) of (h', p') \<Rightarrow>
          leaderView (withRands c UsageMeasShare h' (withRands c UsageProofShare p' xp)) c m' nonce rand)
        = leaderView (withRands c UsageMeasShare h (withRands c UsageProofShare p xp)) c m nonce rand)"
proof (cases "\<exists>r. proveRands xp c (drop 32 rand) = Some (Inr r)")
  case False
  have "leaderView (withRands c UsageMeasShare h (withRands c UsageProofShare p xp)) c n nonce rand = None" for n h p
  proof (rule ccontr)
    assume "\<not> ?thesis"
    then obtain y where "Shard (withRands c UsageMeasShare h (withRands c UsageProofShare p xp)) c n nonce rand = Some (Inr y)"
      by (auto simp: leaderView_def split: option.splits sum.splits)
    from Shard_two_Inr [OF c len this] False show False by simp
  qed
  with False show ?thesis by (intro exI [of _ id]) simp
next
  case True
  then obtain r where r: "proveRands xp c (drop 32 rand) = Some (Inr r)" by blast
  have rv: "r \<in> vectors 2" using field_xof.expansion_lengths(3) [OF xof r] by (simp add: vectors_def)
  obtain pf where "Prove Count [word_of_int m] r [] = Some pf" by (rule honest_proof [OF m(1) rv])
  note view = leaderView_two [OF c m(1) len _ _ rv r this]
  obtain g where "bij_betw g (vectors 1 \<times> vectors 5) (vectors 1 \<times> vectors 5)"
    "\<And>h p. h \<in> vectors 1 \<Longrightarrow> p \<in> vectors 5 \<Longrightarrow>
      (case g (h, p) of (h', p') \<Rightarrow> leaderView (withRands c UsageMeasShare h' (withRands c UsageProofShare p' xp)) c m' nonce rand)
      = leaderView (withRands c UsageMeasShare h (withRands c UsageProofShare p xp)) c m nonce rand"
    using leader_private [OF c m len rv r] by blast
  with True show ?thesis by (intro exI [of _ g]) (simp add: view)
qed

subsection \<open>Property\<close>

text \<open>
  C7. Neither of two aggregators learns the measurement from a report: with the XOF's prove
  randomness idealised as uniform, the helper's view (public share, its input share, the
  leader's verifier share or the error in its place) is equally distributed for any two
  measurements, a permutation of the randomness turning the one into the other; with the
  expansion of the helper's shares idealised as uniform, so is the leader's view (public share
  and its input share). Of the XOF only the length and range of what it returns is assumed,
  which the code's own keeps: it may fail on any seed and tag, and there is a view exactly when
  the expansions left as they are return.
\<close>

theorem prio3_private:
  assumes c: "NewCount 2 ctx = Inr c" and xof: "field_xof xp"
    and m: "m = 0 \<or> m = 1" "m' = 0 \<or> m' = 1" and len: "length nonce = 16" "length rand = 64"
  shows "(\<exists>f. bij_betw f (vectors 2) (vectors 2)
      \<and> (\<forall>r\<in>vectors 2.
          (helperView (withRands c UsageProveRandomness r xp) c vk m nonce rand \<noteq> None
            \<longleftrightarrow> (\<exists>h. helperMeasShare xp c 1 (take 32 rand) = Some (Inr h))
              \<and> (\<exists>p. helperProofsShare xp c 1 (take 32 rand) = Some (Inr p)))
          \<and> helperView (withRands c UsageProveRandomness (f r) xp) c vk m' nonce rand
            = helperView (withRands c UsageProveRandomness r xp) c vk m nonce rand))
    \<and> (\<exists>g. bij_betw g (vectors 1 \<times> vectors 5) (vectors 1 \<times> vectors 5)
      \<and> (\<forall>h\<in>vectors 1. \<forall>p\<in>vectors 5.
          (leaderView (withRands c UsageMeasShare h (withRands c UsageProofShare p xp)) c m nonce rand \<noteq> None
            \<longleftrightarrow> (\<exists>r. proveRands xp c (drop 32 rand) = Some (Inr r)))
          \<and> (case g (h, p) of (h', p') \<Rightarrow>
              leaderView (withRands c UsageMeasShare h' (withRands c UsageProofShare p' xp)) c m' nonce rand)
            = leaderView (withRands c UsageMeasShare h (withRands c UsageProofShare p xp)) c m nonce rand))"
  using helper_side [OF c xof m len, of vk] leader_side [OF c xof m len] helperView_exists [OF c xof m(1) len] by blast

theorem prio3_private_witness:
  "\<exists>c f g. NewCount 2 [] = Inr c \<and> bij_betw f (vectors 2) (vectors 2)
    \<and> helperView (withRands c UsageProveRandomness (f [1, 2]) ExpandIntoVecField64) c [9] 1 (replicate 16 0) (replicate 64 7)
      = helperView (withRands c UsageProveRandomness [1, 2] ExpandIntoVecField64) c [9] 0 (replicate 16 0) (replicate 64 7)
    \<and> (case g ([3 :: elt], [4 :: elt, 5, 6, 7, 8]) of (h', p') \<Rightarrow>
        leaderView (withRands c UsageMeasShare h' (withRands c UsageProofShare p' ExpandIntoVecField64)) c 1 (replicate 16 0) (replicate 64 7))
      = leaderView (withRands c UsageMeasShare [3] (withRands c UsageProofShare [4, 5, 6, 7, 8] ExpandIntoVecField64)) c 0 (replicate 16 0) (replicate 64 7)
    \<and> helperView (withRands c UsageProveRandomness [1, 2] constXof) c [9] 0 (replicate 16 0) (replicate 64 7) \<noteq> None"
proof -
  obtain c where c: "NewCount 2 [] = Inr c" by (simp add: NewCount_def)
  have v: "[1, 2] \<in> vectors 2" "[3] \<in> vectors 1" "[4, 5, 6, 7, 8] \<in> vectors 5" by (simp_all add: vectors_def canonical_iff)
  have len: "length (replicate 16 (0 :: byte)) = 16" "length (replicate 64 (7 :: byte)) = 64" by simp_all
  have m: "(0 :: int) = 0 \<or> (0 :: int) = 1" "(1 :: int) = 0 \<or> (1 :: int) = 1" by simp_all
  note code = prio3_private [OF c turbo.field_xof_axioms m len, of "[9]"] and const = prio3_private [OF c constXof m len, of "[9]"]
  obtain f where f: "bij_betw f (vectors 2) (vectors 2)"
    "helperView (withRands c UsageProveRandomness (f [1, 2]) ExpandIntoVecField64) c [9] 1 (replicate 16 0) (replicate 64 7)
      = helperView (withRands c UsageProveRandomness [1, 2] ExpandIntoVecField64) c [9] 0 (replicate 16 0) (replicate 64 7)"
    using code [THEN conjunct1] v(1) by (elim exE conjE) (drule (1) bspec, erule conjE)
  obtain g where g: "(case g ([3 :: elt], [4 :: elt, 5, 6, 7, 8]) of (h', p') \<Rightarrow>
        leaderView (withRands c UsageMeasShare h' (withRands c UsageProofShare p' ExpandIntoVecField64)) c 1 (replicate 16 0) (replicate 64 7))
      = leaderView (withRands c UsageMeasShare [3] (withRands c UsageProofShare [4, 5, 6, 7, 8] ExpandIntoVecField64)) c 0 (replicate 16 0) (replicate 64 7)"
    using code [THEN conjunct2] v(2,3) by (elim exE conjE) (drule (1) bspec, drule (1) bspec, erule conjE)
  have "helperView (withRands c UsageProveRandomness [1, 2] constXof) c [9] 0 (replicate 16 0) (replicate 64 7) \<noteq> None
      \<longleftrightarrow> (\<exists>h. helperMeasShare constXof c 1 (take 32 (replicate 64 7)) = Some (Inr h))
        \<and> (\<exists>p. helperProofsShare constXof c 1 (take 32 (replicate 64 7)) = Some (Inr p))"
    using const [THEN conjunct1] v(1) by (elim exE conjE) (drule (1) bspec, erule conjE)
  then have "helperView (withRands c UsageProveRandomness [1, 2] constXof) c [9] 0 (replicate 16 0) (replicate 64 7) \<noteq> None"
    by (simp add: helperMeasShare_def helperProofsShare_def constXof_def)
  with c f g show ?thesis by blast
qed

end
