(* ===== verification/Probe.thy ===== *)
theory Probe
  imports Client
begin

text \<open>
  \<^verbatim>\<open>integration/matrix/probe.go\<close>: the measurement of one homeserver. The HTTP client is a parameter:
  whether it can build a GET request for a URL, and what performing it yields, an error or a status
  with the bytes read from the body (None if reading the first 64 KiB fails). So are the two JSON
  decoders, each giving the part of the document the code looks at. Strings are their UTF-8 bytes.
\<close>

definition maxProbeBody :: nat where "maxProbeBody = 65536"

record http_client =
  pc_NewRequest :: "string \<Rightarrow> string option"
  pc_Do :: "string \<Rightarrow> string + (nat \<times> bytes option)"

record probe =
  pb_BaseURL :: string
  pb_Client :: "http_client option"

record probe_decoder =
  jd_Versions :: "bytes \<Rightarrow> string + string list"
  jd_Server :: "bytes \<Rightarrow> string + string \<times> string"

datatype probe_error = ErrNoBaseURL

datatype fetch_error = RequestError string | DoError string | StatusError string nat | BodyError | JsonError string

text \<open>\<open>fallback\<close> is the client with a 10 second timeout.\<close>

definition httpClient :: "http_client \<Rightarrow> probe \<Rightarrow> http_client" where
  "httpClient fallback p = (case pb_Client p of Some c \<Rightarrow> c | None \<Rightarrow> fallback)"

definition getJSON :: "http_client \<Rightarrow> (bytes \<Rightarrow> string + 'a) \<Rightarrow> string \<Rightarrow> fetch_error + 'a" where
  "getJSON c decode url =
     (case pc_NewRequest c url of
        Some err \<Rightarrow> Inl (RequestError err)
      | None \<Rightarrow>
          (case pc_Do c url of
             Inl err \<Rightarrow> Inl (DoError err)
           | Inr (status, body) \<Rightarrow>
               if status \<noteq> 200 then Inl (StatusError url status)
               else (case body of
                  None \<Rightarrow> Inl BodyError
                | Some b \<Rightarrow> (case decode (take maxProbeBody b) of
                    Inl err \<Rightarrow> Inl (JsonError err) | Inr x \<Rightarrow> Inr x))))"

text \<open>\<^verbatim>\<open>strings.TrimSpace(s) == ""\<close>: \<open>s\<close> is a sequence of the encodings of white space characters,
  the six ASCII ones, U+0085, U+00A0, U+1680, U+2000 to U+200A, U+2028, U+2029, U+202F, U+205F and
  U+3000.\<close>

definition asciiSpace :: "byte \<Rightarrow> bool" where
  "asciiSpace b \<longleftrightarrow> b \<in> {0x09, 0x0A, 0x0B, 0x0C, 0x0D, 0x20}"

definition space3 :: "byte \<Rightarrow> byte \<Rightarrow> byte \<Rightarrow> bool" where
  "space3 a b c \<longleftrightarrow> (a, b, c) = (0xE1, 0x9A, 0x80) \<or> (a, b) = (0xE2, 0x80) \<and> (0x80 \<le> c \<and> c \<le> 0x8A \<or> c \<in> {0xA8, 0xA9, 0xAF})
     \<or> (a, b, c) = (0xE2, 0x81, 0x9F) \<or> (a, b, c) = (0xE3, 0x80, 0x80)"

fun blank :: "bytes \<Rightarrow> bool" where
  "blank [] = True"
| "blank (a # s) =
     (if asciiSpace a then blank s
      else case s of
        b # t \<Rightarrow>
          if a = 0xC2 \<and> (b = 0x85 \<or> b = 0xA0) then blank t
          else (case t of c # u \<Rightarrow> space3 a b c \<and> blank u | [] \<Rightarrow> False)
      | [] \<Rightarrow> False)"

definition TrimSuffix :: "string \<Rightarrow> string \<Rightarrow> string" where
  "TrimSuffix s suf =
     (if length suf \<le> length s \<and> drop (length s - length suf) s = suf then take (length s - length suf) s else s)"

definition Measure :: "http_client \<Rightarrow> probe_decoder \<Rightarrow> probe \<Rightarrow> probe_error + measurement" where
  "Measure fallback jd p =
     (if blank (ascii (pb_BaseURL p)) then Inl ErrNoBaseURL
      else
        let base = TrimSuffix (pb_BaseURL p) ''/'';
            c = httpClient fallback p;
            m = \<lparr>me_ClientAPI = False, me_FederationAPI = False\<rparr>;
            m = (case getJSON c (jd_Versions jd) (base @ ''/_matrix/client/versions'') of
                   Inl _ \<Rightarrow> m | Inr versions \<Rightarrow> m\<lparr>me_ClientAPI := 0 < length versions\<rparr>);
            m = (case getJSON c (jd_Server jd) (base @ ''/_matrix/federation/v1/version'') of
                   Inl _ \<Rightarrow> m | Inr (name, version) \<Rightarrow> m\<lparr>me_FederationAPI := name \<noteq> []\<rparr>)
        in Inr m)"

subsection \<open>From the probe to the report\<close>

text \<open>The endpoint answered, well-formed.\<close>

definition answers :: "http_client \<Rightarrow> (bytes \<Rightarrow> string + 'a) \<Rightarrow> string \<Rightarrow> 'a \<Rightarrow> bool" where
  "answers c decode url x \<longleftrightarrow> pc_NewRequest c url = None
     \<and> (\<exists>b. pc_Do c url = Inr (200, Some b) \<and> decode (take maxProbeBody b) = Inr x)"

lemma getJSON_Inr: "getJSON c decode url = Inr x \<longleftrightarrow> answers c decode url x"
  by (auto simp: getJSON_def answers_def split: option.splits sum.splits)

lemma TrimSuffix_slash:
  "TrimSuffix (s @ ''/'') ''/'' = s"
  "last s \<noteq> CHR ''/'' \<Longrightarrow> TrimSuffix s ''/'' = s"
proof -
  show "last s \<noteq> CHR ''/'' \<Longrightarrow> TrimSuffix s ''/'' = s"
    by (cases s rule: rev_cases) (auto simp: TrimSuffix_def)
qed (simp add: TrimSuffix_def)

lemma Measure_cases:
  "Measure fallback jd p =
     (if blank (ascii (pb_BaseURL p)) then Inl ErrNoBaseURL
      else let base = TrimSuffix (pb_BaseURL p) ''/''; c = httpClient fallback p in
        Inr \<lparr>me_ClientAPI = (\<exists>vs. vs \<noteq> [] \<and> answers c (jd_Versions jd) (base @ ''/_matrix/client/versions'') vs),
             me_FederationAPI = (\<exists>name v. name \<noteq> [] \<and> answers c (jd_Server jd) (base @ ''/_matrix/federation/v1/version'') (name, v))\<rparr>)"
  by (auto simp: Measure_def Let_def getJSON_Inr [symmetric] split: sum.split)

lemma Report_in_range:
  assumes "meas = 0 \<or> meas = 1"
  shows "Report e t rnd meas now \<noteq> Some (Inl ErrMeasurementRange)"
  using assms
  by (auto simp: Report_def sealReport_def Let_def orFail_def split: sum.splits option.splits prod.splits list.splits if_splits)

text \<open>
  C39. A probe measures whatever the network does: it fails exactly on a blank base URL, counts
  1 exactly when both endpoints answer 200 with a document naming at least one version and a
  server name, and counts 0 or 1, which the client never refuses to report as out of range.
\<close>

theorem probe_measured:
  "case Measure fallback jd p of
     Inl err \<Rightarrow> blank (ascii (pb_BaseURL p))
   | Inr m \<Rightarrow> \<not> blank (ascii (pb_BaseURL p))
       \<and> (let base = TrimSuffix (pb_BaseURL p) ''/''; c = httpClient fallback p in
          Measurement_Count m = 1
          \<longleftrightarrow> (\<exists>vs name v b b'. vs \<noteq> [] \<and> name \<noteq> []
               \<and> pc_NewRequest c (base @ ''/_matrix/client/versions'') = None
               \<and> pc_Do c (base @ ''/_matrix/client/versions'') = Inr (200, Some b) \<and> jd_Versions jd (take 65536 b) = Inr vs
               \<and> pc_NewRequest c (base @ ''/_matrix/federation/v1/version'') = None
               \<and> pc_Do c (base @ ''/_matrix/federation/v1/version'') = Inr (200, Some b') \<and> jd_Server jd (take 65536 b') = Inr (name, v)))
       \<and> Measurement_Count m \<in> {0, 1}
       \<and> (\<forall>e t rnd now. Report e t rnd (Measurement_Count m) now \<noteq> Some (Inl ErrMeasurementRange))"
proof (cases "blank (ascii (pb_BaseURL p))")
  case False
  define m where "m = (let base = TrimSuffix (pb_BaseURL p) ''/''; c = httpClient fallback p in
    \<lparr>me_ClientAPI = (\<exists>vs. vs \<noteq> [] \<and> answers c (jd_Versions jd) (base @ ''/_matrix/client/versions'') vs),
      me_FederationAPI = (\<exists>name v. name \<noteq> [] \<and> answers c (jd_Server jd) (base @ ''/_matrix/federation/v1/version'') (name, v))\<rparr>)"
  have range: "Measurement_Count m = 0 \<or> Measurement_Count m = 1" by (simp add: Measurement_Count_def)
  then have "Report e t rnd (Measurement_Count m) now \<noteq> Some (Inl ErrMeasurementRange)" for e :: "('a, 'b) env" and t rnd now
    by (rule Report_in_range)
  moreover have "Measurement_Count m = 1 \<longleftrightarrow> me_ClientAPI m \<and> me_FederationAPI m" by (simp add: Measurement_Count_def)
  moreover have "Measure fallback jd p = Inr m" using False by (simp add: Measure_cases m_def Let_def)
  ultimately show ?thesis using False range
    by (simp del: ex_simps add: Let_def m_def answers_def maxProbeBody_def) blast
qed (simp add: Measure_cases)

end
