(* ===== verification/Spec2Isabelle.thy ===== *)
theory Spec2Isabelle
  imports HelperProps InteropProps Robust Privacy Probe
begin

text \<open>
  A verification library for dap-go, a Helper-role aggregator of the Distributed Aggregation
  Protocol (drafts 18, 19 and 20, and the variant Janus shipped as dap-18) with a Prio3Count VDAF
  written from scratch, a client that reports whether a Matrix homeserver is alive, and an interop
  server around the helper. All of it is modelled from \<^verbatim>\<open>src/\<close>: the field up to the HTTP handler.

  \<^bold>\<open>The program.\<close> A client (\<^verbatim>\<open>integration/matrix\<close>) shards a measurement of 0 or 1 with the VDAF
  (\<^verbatim>\<open>pkg/vdaf/prio3\<close>, over the proof system \<^verbatim>\<open>flp\<close>, the field \<^verbatim>\<open>field\<close> and the XOF \<^verbatim>\<open>xof\<close> on
  \<^verbatim>\<open>internal/turboshake\<close>) and seals one input share to each of two aggregators (\<^verbatim>\<open>internal/hpke\<close>)
  under associated data encoded by \<^verbatim>\<open>pkg/dap/wire\<close>. A leader, which is not in the repository, sends
  the helper (\<^verbatim>\<open>pkg/dap/helper\<close>) a job of reports with its own verifier messages. The helper claims
  the report IDs in its store, opens and verifies each report, stores one job of output shares and
  rejections, and answers with one response per report. Asked for an aggregate share, it sums the
  output shares of the task's jobs and seals the sum to the collector. \<^verbatim>\<open>cmd/dap-helper\<close> publishes the
  helper's HPKE configuration and registers tasks.

  \<^bold>\<open>The field, transforms and proof system.\<close>
  \<^item> Prelude: bytes and the big- and little-endian encodings. Goldilocks: the field of order
    2^64 - 2^32 + 1 as a type of class \<open>field\<close>, a generator and the orders of its elements. These
    are mathematics, not code.
  \<^item> Field64: \<^verbatim>\<open>field64.go\<close> on 64-bit words with the carries and borrows of \<^verbatim>\<open>math/bits\<close>. \<open>gfe\<close> reads a word
    as a field element; every operation is shown to keep canonical words and to be the field's.
  \<^item> PolyFun, Roots: polynomial functions of bounded degree, roots of unity of order 2^k, Lagrange
    interpolation. Lagrange: \<^verbatim>\<open>lagrange.go\<close>, iterative transforms and barycentric evaluation, None for
    its panics. Transform: they compute what they are named for (\<open>evals_of\<close>: the values of a
    polynomial function at the roots of unity).
  \<^item> Flp: \<^verbatim>\<open>gadget.go\<close>, \<^verbatim>\<open>flp.go\<close>, \<^verbatim>\<open>count.go\<close>, with a circuit as a record of functions. FlpCount: on the
    Count circuit the system is complete, and sound up to two query points of the field.

  \<^bold>\<open>The XOF and the VDAF.\<close>
  \<^item> TurboShake: \<^verbatim>\<open>keccakp.go\<close>, \<^verbatim>\<open>turboshake.go\<close>; any sequence of writes and reads refines the sponge as a
    function of the whole message (\<open>turboshake128_spec\<close>). Xof: \<^verbatim>\<open>xof.go\<close>, with rejection sampling as
    \<open>partial_function\<close>: the draws may in principle all be rejected, and then the value is None; the loop
    is shown to return exactly when the stream holds enough canonical words.
  \<^item> Prio3: \<^verbatim>\<open>count.go\<close>, \<^verbatim>\<open>encode.go\<close>. The expander is an argument; the locale \<open>field_xof\<close> is its contract
    (canonical vectors of the length asked for), met by the code's XOF. Prio3Correct: sharding,
    verification, aggregation and unsharding compose to the exact sum; the share encodings decode.
    Soundness: whatever shares a client sends, what every aggregator accepts adds up to 0 or 1,
    except at two query points that the shares fix. Privacy: between two aggregators, what either sees
    of a report (\<open>helperView\<close>, \<open>leaderView\<close>) is distributed the same for 0 and for 1, with the XOF's
    output at one usage idealised as uniform (\<open>withRands\<close>); the equality of distributions is a
    bijection of that randomness. Neither asks the XOF to succeed: where it fails the views agree too.

  \<^bold>\<open>Messages.\<close>
  \<^item> Cryptobyte: the byte builder and reader of \<^verbatim>\<open>golang.org/x/crypto/cryptobyte\<close> as a record of
    operations with the laws its documentation states (locale \<open>cryptobyte_laws\<close>) and a reference
    implementation that has them. Codec: the helpers of \<^verbatim>\<open>types.go\<close> and the contract of a message codec
    (\<open>message_codec\<close>, \<open>wire_codec\<close>, \<open>elem_codec\<close>): encodings decode, and only they do.
  \<^item> Variant, WireTypes, WireTask, WireBatch, WireAgg, WireJob: every message of \<^verbatim>\<open>pkg/dap/wire\<close>, a record
    and a Marshal and Unmarshal per struct, each a \<open>sublocale\<close> of the contract. WireProps: what the
    codecs promise.

  \<^bold>\<open>The helper.\<close>
  \<^item> Hpke: \<^verbatim>\<open>hpke.go\<close> over circl as a record of operations with the laws of RFC 9180 (\<open>circl_laws\<close>). Sha256:
    the hash of Go's library. Paths: the resource paths, with \<^verbatim>\<open>base64.RawURLEncoding\<close>.
  \<^item> Store: the records of \<^verbatim>\<open>helper.go\<close> and the in-memory store of \<^verbatim>\<open>store.go\<close>. The Go interface is the
    locale \<open>store_contract\<close>, together with what a handler writes through the job pointers the store
    hands out (\<open>st_WriteResponse\<close>); \<open>memStore\<close> is shown to keep it for every order in which Go may range over
    a map (\<open>iteration\<close>).
  \<^item> Helper: \<^verbatim>\<open>aggregateInit\<close> and \<^verbatim>\<open>buildInitJob\<close>. Handler: \<^verbatim>\<open>handler.go\<close>; a request's handler is a value of
    type \<open>prog\<close>, atomic store operations with computation between them, and \<open>run\<close> executes one alone.
    HelperFacts, Aggregate, Collect, Requests, Jobs: the two outcomes of a report, the sum, the
    aggregate share, retries and answers, the response to a job.
  \<^item> Server: the step relation \<open>sys_step\<close> in which requests arrive at any time, their handlers take
    turns at the store and tasks are registered; \<open>inv\<close> is the invariant of the reachable states, and
    \<open>safe\<close>, an inductive predicate on programs, what makes every interleaving keep it. Ledger: the
    abstract machine the server implements, the simulation (\<open>ledger_of\<close>), and the ledger's total as what
    is collected.

  \<^bold>\<open>The client and the interop server.\<close>
  \<^item> Client: \<^verbatim>\<open>report.go\<close>, \<^verbatim>\<open>aggregator.go\<close>. Probe: \<^verbatim>\<open>probe.go\<close>. Honest, EndToEnd: a report the client made is
    accepted, and a batch of them is collected to the exact count. Robust: reports of clients that do not
    follow the protocol move the count by at most one each (\<open>cheatingPoints\<close> are the exceptions).
  \<^item> DapHelper: \<^verbatim>\<open>cmd/dap-helper/main.go\<close> as a function to the server value and one function per handler;
    registering a task is a step of theory Server.
  \<^item> Samples: a small deployment for the witnesses. HelperProps, InteropProps: the properties that
    span components.

  \<^bold>\<open>Results.\<close> A value of type option is None where Go panics or does not return, and a sum's left side
  is a returned error. Where a loop may run forever, returning is proved: for every request, from the
  assumption that the XOF returns (\<open>returns\<close>), which an XOF by rejection sampling meets with
  probability but not with certainty. No theorem has a fuel parameter. Machine integers are words of
  their Go width; \<^verbatim>\<open>int\<close> and lengths are \<open>int\<close> and \<open>nat\<close>, and where the code depends on their size the bound
  is in the definition (the body limit of 16 MiB) or in the theorem (a batch of fewer than 2^63
  reports).

  \<^bold>\<open>What the theorems assume.\<close> The laws of cryptobyte and of circl, the contract of the XOF, and for an
  honest report that its query point is not a root of unity (\<open>goodQuery\<close>, which fails for two points of
  the field). The HPKE laws are about keys of one generated pair and say nothing of forged
  ciphertexts: no secrecy or unforgeability of sealed shares is claimed, nor that the XOF's output is
  indistinguishable from the uniform one theory Privacy puts in its place. The entropy of key generation, sealing and
  sharding is an argument. In \<open>Report\<close> the random reader is given by what its four uses yield.

  \<^bold>\<open>Not modelled.\<close> Log output; the JSON text of problem documents and of the interop replies, which are
  kept as the records the code encodes, and JSON decoding, which is an argument; the HTTP client of
  the probe, an argument; the listener, its timeouts and the path matching of \<^verbatim>\<open>http.ServeMux\<close>;
  data races: a store operation is atomic, and so is the write of the variant into a stored response
  when a handler encodes it, a step of its own (\<open>writeResp\<close>) that the handlers of other requests
  may precede or follow. A stored job is a value: the object a handler holds is the stored one when
  they agree in all but the response (\<open>WriteResponse\<close>). The leader and the collector are not in the
  repository; where a theorem needs them they appear as the steps the protocol gives them
  (\<open>leaderStep\<close>, \<open>honestBatch\<close>). The \<^verbatim>\<open>doc.go\<close> files hold comments only.
\<close>

end
